(* ===== verification/Prelude.thy ===== *)
theory Prelude
  imports Main "HOL-Library.Word" "HOL-Library.Monad_Syntax"
begin

text \<open>
  Shared vocabulary of the development: the C integer types of the kernel as
  machine words, the counted \<open>for\<close> loop of the C sources (plain and with a
  body that may fail), and the word and list facts that several components use.
  Nothing in this theory is specific to one component.
\<close>

unbundle bit_operations_syntax

section \<open>Integer types\<close>

type_synonym u8 = "8 word"
type_synonym u16 = "16 word"
type_synonym u32 = "32 word"
type_synonym u64 = "64 word"

section \<open>Collections of facts\<close>

named_theorems mem_simps \<open>reading memory after a write\<close>
named_theorems frame_simps \<open>what an operation leaves alone\<close>

section \<open>Word arithmetic\<close>

lemma unat_add_no_wrap:
  "unat a + unat b < 2 ^ 64 \<Longrightarrow> unat (a + b) = unat a + unat b"
  for a b :: u64
  by (simp add: unat_word_ariths)

lemma unat_of_nat_u64 [simp]: "n < 2 ^ 64 \<Longrightarrow> unat (of_nat n :: u64) = n"
  by (simp add: unat_of_nat take_bit_nat_eq_self)

lemma unat_add_of_nat:
  "unat a + n < 2 ^ 64 \<Longrightarrow> unat (a + of_nat n) = unat a + n"
  for a :: u64
  using unat_add_no_wrap [of a "of_nat n"] by simp

lemma unat_mult_no_wrap:
  "unat a * unat b < 2 ^ 64 \<Longrightarrow> unat (a * b) = unat a * unat b"
  for a b :: u64
  by (simp add: unat_word_ariths)

lemma unat_sub_no_wrap: "b \<le> a \<Longrightarrow> unat (a - b) = unat a - unat b"
  for a b :: u64
  by (simp add: unat_sub)

lemma unat_lt_2p64 [simp]: "unat (a :: u64) < 18446744073709551616"
  using unsigned_less [of a] by simp

lemma of_nat_eq_u64:
  "m < 2 ^ 64 \<Longrightarrow> n < 2 ^ 64 \<Longrightarrow> (of_nat m :: u64) = of_nat n \<longleftrightarrow> m = n"
  by (metis unat_of_nat_u64)

lemma and_not_mask_low: "(\<And>n. bit w n \<Longrightarrow> n < k) \<Longrightarrow> w AND NOT (mask k) = 0"
  for w :: "'a::len word"
  by (rule bit_word_eqI) (auto simp: bit_and_iff bit_not_iff bit_mask_iff)

section \<open>The counted loop\<close>

text \<open>
  \<^verbatim>\<open>for (uint64_t i = lo; i < hi; i++) body\<close>, where the body changes the
  state: the counter is a 64-bit word and the loop stops because \<open>hi - i\<close>
  shrinks. The second form is for a body that can fail.
\<close>

function for_loop :: "u64 \<Rightarrow> u64 \<Rightarrow> (u64 \<Rightarrow> 's \<Rightarrow> 's) \<Rightarrow> 's \<Rightarrow> 's" where
  "for_loop i n body s = (if i < n then for_loop (i + 1) n body (body i s) else s)"
  by pat_completeness auto
termination
  by (relation "measure (\<lambda>(i, n, body, s). unat (n - i))") (auto, unat_arith)

function for_loop_opt :: "u64 \<Rightarrow> u64 \<Rightarrow> (u64 \<Rightarrow> 's \<Rightarrow> 's option) \<Rightarrow> 's \<Rightarrow> 's option" where
  "for_loop_opt i n body s =
     (if i < n then Option.bind (body i s) (for_loop_opt (i + 1) n body) else Some s)"
  by pat_completeness auto
termination
  by (relation "measure (\<lambda>(i, n, body, s). unat (n - i))") (auto, unat_arith)

declare for_loop.simps [simp del] for_loop_opt.simps [simp del]

lemma unat_Suc_less: "i < n \<Longrightarrow> unat (i + 1) = Suc (unat i)"
  for i n :: u64
  by unat_arith

lemma for_loop_fold:
  "for_loop i n body s = fold (\<lambda>k. body (of_nat k)) [unat i..<unat n] s"
proof (induction i n body s rule: for_loop.induct)
  case (1 i n body s)
  show ?case
  proof (cases "i < n")
    case True
    then have "[unat i..<unat n] = unat i # [unat (i + 1)..<unat n]"
      by (simp add: unat_Suc_less upt_conv_Cons word_less_nat_alt)
    with True 1 show ?thesis
      by (simp add: for_loop.simps [of i])
  next
    case False
    then show ?thesis
      by (simp add: for_loop.simps [of i] word_less_nat_alt)
  qed
qed

text \<open>A failing loop goes through when every step of it does.\<close>

fun fold_opt :: "('a \<Rightarrow> 's \<Rightarrow> 's option) \<Rightarrow> 'a list \<Rightarrow> 's \<Rightarrow> 's option" where
  "fold_opt f [] s = Some s"
| "fold_opt f (x # xs) s = Option.bind (f x s) (fold_opt f xs)"

lemma fold_opt_append:
  "fold_opt f (xs @ ys) s = Option.bind (fold_opt f xs s) (fold_opt f ys)"
  by (induction xs arbitrary: s) (auto split: Option.bind_splits)

lemma fold_opt_map: "fold_opt f (map g xs) s = fold_opt (\<lambda>x. f (g x)) xs s"
  by (induction xs arbitrary: s) (auto split: Option.bind_splits)

lemma fold_opt_total:
  "(\<And>x s. x \<in> set xs \<Longrightarrow> f x s = Some (g x s)) \<Longrightarrow> fold_opt f xs s = Some (fold g xs s)"
  by (induction xs arbitrary: s) simp_all

lemma for_loop_opt_fold:
  "for_loop_opt i n body s = fold_opt (\<lambda>k. body (of_nat k)) [unat i..<unat n] s"
proof (induction i n body s rule: for_loop_opt.induct)
  case (1 i n body s)
  show ?case
  proof (cases "i < n")
    case True
    then have "[unat i..<unat n] = unat i # [unat (i + 1)..<unat n]"
      by (simp add: unat_Suc_less upt_conv_Cons word_less_nat_alt)
    with True 1 show ?thesis
      by (cases "body i s") (auto simp add: for_loop_opt.simps [of i])
  next
    case False
    then show ?thesis
      by (simp add: for_loop_opt.simps [of i] word_less_nat_alt)
  qed
qed

section \<open>Lists\<close>

lemma fold_invariant_upt:
  assumes "P lo s" and "lo \<le> hi"
    and "\<And>k s. lo \<le> k \<Longrightarrow> k < hi \<Longrightarrow> P k s \<Longrightarrow> P (Suc k) (f k s)"
  shows "P hi (fold f [lo..<hi] s)"
  using assms
proof (induction "hi - lo" arbitrary: hi)
  case 0
  then show ?case by simp
next
  case (Suc n)
  then obtain hi' where hi: "hi = Suc hi'" "lo \<le> hi'"
    by (cases hi) auto
  have "P hi' (fold f [lo..<hi'] s)"
    using Suc hi by (intro Suc.hyps(1)) auto
  with Suc.prems hi show ?case by simp
qed

end
