(* ===== verification/Machine.thy ===== *)
theory Machine
  imports Prelude
begin

text \<open>
  The machine the kernel runs on, as far as the C code sees it: one
  byte-addressed memory that all components share (page bitmap, page tables,
  heap headers and the VGA text buffer live in it), the x86 I/O ports the serial
  driver writes, the control register CR3 and the \<open>invlpg\<close> requests.
  Multi-byte accesses are little-endian. The frame lemmas describe a write by
  the interval of addresses it touches.
\<close>

section \<open>Memory\<close>

type_synonym memory = "u64 \<Rightarrow> u8"

text \<open>An access of \<open>n\<close> bytes at address \<open>a\<close>, least significant byte first.\<close>

fun load_bytes :: "nat \<Rightarrow> memory \<Rightarrow> u64 \<Rightarrow> 'a::len word" where
  "load_bytes 0 m a = 0"
| "load_bytes (Suc n) m a = ucast (m a) OR push_bit 8 (load_bytes n m (a + 1))"

fun store_bytes :: "nat \<Rightarrow> memory \<Rightarrow> u64 \<Rightarrow> 'a::len word \<Rightarrow> memory" where
  "store_bytes 0 m a v = m"
| "store_bytes (Suc n) m a v = store_bytes n (m(a := ucast v)) (a + 1) (drop_bit 8 v)"

definition load16 :: "memory \<Rightarrow> u64 \<Rightarrow> u16" where
  "load16 m a = load_bytes 2 m a"

definition store16 :: "memory \<Rightarrow> u64 \<Rightarrow> u16 \<Rightarrow> memory" where
  "store16 m a v = store_bytes 2 m a v"

definition load32 :: "memory \<Rightarrow> u64 \<Rightarrow> u32" where
  "load32 m a = load_bytes 4 m a"

definition store32 :: "memory \<Rightarrow> u64 \<Rightarrow> u32 \<Rightarrow> memory" where
  "store32 m a v = store_bytes 4 m a v"

definition load64 :: "memory \<Rightarrow> u64 \<Rightarrow> u64" where
  "load64 m a = load_bytes 8 m a"

definition store64 :: "memory \<Rightarrow> u64 \<Rightarrow> u64 \<Rightarrow> memory" where
  "store64 m a v = store_bytes 8 m a v"

subsection \<open>Frames\<close>

text \<open>Two memories agree on the addresses \<open>lo \<le> x < hi\<close>.\<close>

definition agree :: "memory \<Rightarrow> memory \<Rightarrow> nat \<Rightarrow> nat \<Rightarrow> bool" where
  "agree m m' lo hi \<longleftrightarrow> (\<forall>x. lo \<le> unat x \<and> unat x < hi \<longrightarrow> m x = m' x)"

text \<open>A change confined to \<open>lo \<le> x < hi\<close>.\<close>

definition only_changes :: "memory \<Rightarrow> memory \<Rightarrow> nat \<Rightarrow> nat \<Rightarrow> bool" where
  "only_changes m m' lo hi \<longleftrightarrow> (\<forall>x. unat x < lo \<or> hi \<le> unat x \<longrightarrow> m' x = m x)"

lemma only_changesD: "only_changes m m' lo hi \<Longrightarrow> unat x < lo \<or> hi \<le> unat x \<Longrightarrow> m' x = m x"
  unfolding only_changes_def by blast

lemma only_changes_refl [simp, intro]: "only_changes m m lo hi"
  by (simp add: only_changes_def)

lemma only_changes_trans [trans]:
  "only_changes m m' lo hi \<Longrightarrow> only_changes m' m'' lo hi \<Longrightarrow> only_changes m m'' lo hi"
  by (simp add: only_changes_def)

lemma only_changes_mono:
  "only_changes m m' lo hi \<Longrightarrow> lo' \<le> lo \<Longrightarrow> hi \<le> hi' \<Longrightarrow> only_changes m m' lo' hi'"
  by (auto simp: only_changes_def)

lemma only_changes_agree:
  "only_changes m m' lo hi \<Longrightarrow> b \<le> lo \<or> hi \<le> a \<Longrightarrow> agree m' m a b"
  by (auto simp: only_changes_def agree_def)

lemma agree_sub: "agree m m' lo hi \<Longrightarrow> lo \<le> lo' \<Longrightarrow> hi' \<le> hi \<Longrightarrow> agree m m' lo' hi'"
  by (auto simp: agree_def)

lemma agree_sym: "agree m m' lo hi \<Longrightarrow> agree m' m lo hi"
  by (auto simp: agree_def)

lemma agree_trans: "agree m m' lo hi \<Longrightarrow> agree m' m'' lo hi \<Longrightarrow> agree m m'' lo hi"
  by (auto simp: agree_def)

lemma agreeD: "agree m m' lo hi \<Longrightarrow> lo \<le> unat x \<Longrightarrow> unat x < hi \<Longrightarrow> m x = m' x"
  by (simp add: agree_def)

text \<open>A change confined to a set of addresses.\<close>

definition confined :: "memory \<Rightarrow> memory \<Rightarrow> nat set \<Rightarrow> bool" where
  "confined m m' X \<longleftrightarrow> (\<forall>x. unat x \<notin> X \<longrightarrow> m' x = m x)"

lemma confined_refl [simp, intro]: "confined m m X"
  by (simp add: confined_def)

lemma confined_trans: "confined m m' X \<Longrightarrow> confined m' m'' Y \<Longrightarrow> X \<subseteq> Z \<Longrightarrow> Y \<subseteq> Z \<Longrightarrow> confined m m'' Z"
  unfolding confined_def by (metis subsetD)

lemma confinedD: "confined m m' X \<Longrightarrow> unat x \<notin> X \<Longrightarrow> m' x = m x"
  by (simp add: confined_def)

lemma only_changes_confined: "only_changes m m' lo hi \<longleftrightarrow> confined m m' {lo..<hi}"
  by (auto simp: only_changes_def confined_def not_le not_less)

lemma confined_agree: "confined m m' X \<Longrightarrow> X \<inter> {lo..<hi} = {} \<Longrightarrow> agree m' m lo hi"
  unfolding confined_def agree_def by fastforce

lemma unat_plus_1: "unat a + Suc n \<le> 2 ^ 64 \<Longrightarrow> 0 < n \<Longrightarrow> unat (a + 1) = Suc (unat a)"
  for a :: u64
  using unat_add_of_nat [of a 1] by simp

lemma store_bytes_only_changes:
  "unat a + n \<le> 2 ^ 64 \<Longrightarrow> only_changes m (store_bytes n m a v) (unat a) (unat a + n)"
proof (induction n m a v rule: store_bytes.induct)
  case (1 m a v)
  then show ?case by simp
next
  case (2 n m a v)
  show ?case
  proof (cases "n = 0")
    case True
    then show ?thesis by (auto simp: only_changes_def)
  next
    case False
    with "2.prems" have next_byte: "unat (a + 1) = Suc (unat a)" by (simp add: unat_plus_1)
    with "2.prems"
    have "only_changes (m(a := ucast v)) (store_bytes n (m(a := ucast v)) (a + 1) (drop_bit 8 v))
        (unat (a + 1)) (unat (a + 1) + n)"
      by (intro "2.IH") simp
    then have "only_changes (m(a := ucast v)) (store_bytes n (m(a := ucast v)) (a + 1) (drop_bit 8 v))
        (unat a) (unat a + Suc n)"
      using next_byte by (auto elim: only_changes_mono)
    moreover have "only_changes m (m(a := ucast v)) (unat a) (unat a + Suc n)"
      by (auto simp: only_changes_def)
    ultimately show ?thesis
      by (auto intro: only_changes_trans)
  qed
qed

lemma load_bytes_agree:
  "unat a + n \<le> 2 ^ 64 \<Longrightarrow> agree m m' (unat a) (unat a + n) \<Longrightarrow>
   (load_bytes n m a :: 'a::len word) = load_bytes n m' a"
proof (induction n m a rule: load_bytes.induct)
  case (1 m a)
  then show ?case by simp
next
  case (2 n m a)
  have hd: "m a = m' a" using "2.prems" by (auto simp: agree_def)
  show ?case
  proof (cases "n = 0")
    case True
    with hd show ?thesis by simp
  next
    case False
    with "2.prems" have "unat (a + 1) = Suc (unat a)" by (simp add: unat_plus_1)
    with "2.prems" have "(load_bytes n m (a + 1) :: 'a word) = load_bytes n m' (a + 1)"
      by (intro "2.IH") (auto elim: agree_sub)
    with hd show ?thesis by simp
  qed
qed

text \<open>Two places that hold the same bytes.\<close>

lemma load_bytes_shift:
  "(\<And>j. j < n \<Longrightarrow> m (a + of_nat j) = m' (b + of_nat j)) \<Longrightarrow>
   (load_bytes n m a :: 'a::len word) = load_bytes n m' b"
proof (induction n arbitrary: a b)
  case 0
  then show ?case by simp
next
  case (Suc n)
  have "(load_bytes n m (a + 1) :: 'a word) = load_bytes n m' (b + 1)"
  proof (rule Suc.IH)
    fix j assume "j < n"
    then show "m (a + 1 + of_nat j) = m' (b + 1 + of_nat j)"
      using Suc.prems [of "Suc j"] by (simp add: add.assoc)
  qed
  with Suc.prems [of 0] show ?case by simp
qed

lemma load_store_bytes_same:
  "unat a + n \<le> 2 ^ 64 \<Longrightarrow> load_bytes n (store_bytes n m a v) a = take_bit (8 * n) v"
proof (induction n m a v rule: store_bytes.induct)
  case (1 m a v)
  then show ?case by simp
next
  case (2 n m a v)
  have first: "store_bytes n (m(a := ucast v)) (a + 1) (drop_bit 8 v) a = ucast v"
  proof (cases "n = 0")
    case True
    then show ?thesis by simp
  next
    case False
    with "2.prems" have "unat (a + 1) = Suc (unat a)" by (simp add: unat_plus_1)
    then show ?thesis
      using store_bytes_only_changes [of "a + 1" n "m(a := ucast v)" "drop_bit 8 v"] "2.prems"
      by (auto dest: only_changesD)
  qed
  have rest: "load_bytes n (store_bytes n (m(a := ucast v)) (a + 1) (drop_bit 8 v)) (a + 1)
      = take_bit (8 * n) (drop_bit 8 v)"
  proof (cases "n = 0")
    case True
    then show ?thesis by simp
  next
    case False
    with "2.prems" have "unat (a + 1) = Suc (unat a)" by (simp add: unat_plus_1)
    with "2.prems" show ?thesis by (intro "2.IH") simp
  qed
  have "ucast (ucast v :: u8) OR push_bit 8 (take_bit (8 * n) (drop_bit 8 v))
      = take_bit (8 * Suc n) v"
    by (rule bit_word_eqI) (auto simp: bit_simps)
  with first rest show ?case by simp
qed

subsection \<open>The access widths of the sources\<close>

lemma store64_only_changes:
  "unat a + 8 \<le> 2 ^ 64 \<Longrightarrow> only_changes m (store64 m a v) (unat a) (unat a + 8)"
  unfolding store64_def by (rule store_bytes_only_changes)

lemma store16_only_changes:
  "unat a + 2 \<le> 2 ^ 64 \<Longrightarrow> only_changes m (store16 m a v) (unat a) (unat a + 2)"
  unfolding store16_def by (rule store_bytes_only_changes)

lemma store32_only_changes:
  "unat a + 4 \<le> 2 ^ 64 \<Longrightarrow> only_changes m (store32 m a v) (unat a) (unat a + 4)"
  unfolding store32_def by (rule store_bytes_only_changes)

lemma store8_only_changes: "only_changes m (m(a := v)) (unat a) (Suc (unat a))"
  by (auto simp: only_changes_def)

lemma load64_agree:
  "unat a + 8 \<le> 2 ^ 64 \<Longrightarrow> agree m m' (unat a) (unat a + 8) \<Longrightarrow> load64 m a = load64 m' a"
  unfolding load64_def by (rule load_bytes_agree)

lemma load16_agree:
  "unat a + 2 \<le> 2 ^ 64 \<Longrightarrow> agree m m' (unat a) (unat a + 2) \<Longrightarrow> load16 m a = load16 m' a"
  unfolding load16_def by (rule load_bytes_agree)

lemma load32_agree:
  "unat a + 4 \<le> 2 ^ 64 \<Longrightarrow> agree m m' (unat a) (unat a + 4) \<Longrightarrow> load32 m a = load32 m' a"
  unfolding load32_def by (rule load_bytes_agree)

lemma load32_store32_same: "unat a + 4 \<le> 2 ^ 64 \<Longrightarrow> load32 (store32 m a v) a = v"
  using load_store_bytes_same [of a 4 m v]
  by (simp add: load32_def store32_def take_bit_word_eq_self)

lemma load64_store64_same [mem_simps]:
  "unat a + 8 \<le> 2 ^ 64 \<Longrightarrow> load64 (store64 m a v) a = v"
  using load_store_bytes_same [of a 8 m v]
  by (simp add: load64_def store64_def take_bit_word_eq_self)

lemma load16_store16_same [mem_simps]:
  "unat a + 2 \<le> 2 ^ 64 \<Longrightarrow> load16 (store16 m a v) a = v"
  using load_store_bytes_same [of a 2 m v]
  by (simp add: load16_def store16_def take_bit_word_eq_self)

text \<open>A load is blind to a change elsewhere.\<close>

lemma load64_frame:
  "only_changes m m' lo hi \<Longrightarrow> unat a + 8 \<le> lo \<or> hi \<le> unat a \<Longrightarrow> unat a + 8 \<le> 2 ^ 64 \<Longrightarrow>
   load64 m' a = load64 m a"
  by (rule load64_agree) (auto intro: only_changes_agree)

lemma load16_frame:
  "only_changes m m' lo hi \<Longrightarrow> unat a + 2 \<le> lo \<or> hi \<le> unat a \<Longrightarrow> unat a + 2 \<le> 2 ^ 64 \<Longrightarrow>
   load16 m' a = load16 m a"
  by (rule load16_agree) (auto intro: only_changes_agree)

lemma load64_store64_other [mem_simps]:
  "unat a + 8 \<le> unat b \<or> unat b + 8 \<le> unat a \<Longrightarrow> unat a + 8 \<le> 2 ^ 64 \<Longrightarrow> unat b + 8 \<le> 2 ^ 64 \<Longrightarrow>
   load64 (store64 m a v) b = load64 m b"
  by (rule load64_frame [OF store64_only_changes]) auto

lemma load16_store16_other [mem_simps]:
  "unat a + 2 \<le> unat b \<or> unat b + 2 \<le> unat a \<Longrightarrow> unat a + 2 \<le> 2 ^ 64 \<Longrightarrow> unat b + 2 \<le> 2 ^ 64 \<Longrightarrow>
   load16 (store16 m a v) b = load16 m b"
  by (rule load16_frame [OF store16_only_changes]) auto

lemma load64_store8_other [mem_simps]:
  "unat a < unat b \<or> unat b + 8 \<le> unat a \<Longrightarrow> unat b + 8 \<le> 2 ^ 64 \<Longrightarrow>
   load64 (m(a := v)) b = load64 m b"
  by (rule load64_frame [OF store8_only_changes]) auto

lemma byte_store64_other [mem_simps]:
  "unat b < unat a \<or> unat a + 8 \<le> unat b \<Longrightarrow> unat a + 8 \<le> 2 ^ 64 \<Longrightarrow>
   store64 m a v b = m b"
  using store64_only_changes [of a m v] by (auto dest: only_changesD)

section \<open>State of the machine\<close>

text \<open>
  \<open>lsr\<close> is the environment: \<open>lsr s n\<close> is what the \<open>n\<close>-th read of the UART's
  line status register returns; \<open>lsr_reads\<close> counts the reads made so far.
  \<open>ports\<close> lists the port writes in order, \<open>invlpgs\<close> the addresses whose
  translation the kernel asked to drop.
\<close>

record machine =
  mem :: memory
  lsr :: "nat \<Rightarrow> u8"
  lsr_reads :: nat
  ports :: "(u16 \<times> u8) list"
  cr3 :: u64
  invlpgs :: "u64 list"

definition outb :: "u16 \<Rightarrow> u8 \<Rightarrow> 'a machine_scheme \<Rightarrow> 'a machine_scheme" where
  "outb port v s = s\<lparr>ports := ports s @ [(port, v)]\<rparr>"

end
