(* ===== verification/Serial.thy ===== *)
theory Serial
  imports Machine
begin

text \<open>
  The COM1 serial driver: \<open>kernel/drivers/serial.asm\<close> (initialisation and one
  character) and \<open>kernel/drivers/serial.c\<close> (buffers and strings), with
  \<open>strlen\<close> of \<open>kernel/output/terminal.c\<close>, which \<open>serial.c\<close> borrows.
  Characters are the raw bytes of the C \<open>char\<close>s; a C string is the list of
  bytes of the array object it lives in, its NUL included, so that reading past
  the object is the value None. The UART is the environment: waiting for it may
  never end, so every operation that sends a byte has an \<open>option\<close> result.
\<close>

section \<open>C strings\<close>

type_synonym cstring = "u8 list"

text \<open>\<open>str[len]\<close> for \<open>len = 0, 1, \<dots>\<close> until the NUL.\<close>

fun strlen_from :: "cstring \<Rightarrow> u64 \<Rightarrow> u64 option" where
  "strlen_from [] len = None"
| "strlen_from (c # cs) len = (if c \<noteq> 0 then strlen_from cs (len + 1) else Some len)"

definition strlen :: "cstring \<Rightarrow> u64 option" where
  "strlen str = strlen_from str 0"

text \<open>\<open>data[i]\<close>, defined inside the object only.\<close>

definition char_at :: "cstring \<Rightarrow> u64 \<Rightarrow> u8 option" where
  "char_at data i = (if unat i < length data then Some (data ! unat i) else None)"

text \<open>A string literal of the sources, with the NUL the compiler adds.\<close>

definition cstr :: "string \<Rightarrow> cstring" where
  "cstr s = map of_char s @ [0]"

text \<open>The characters a C string holds: those before its first NUL.\<close>

definition content :: "cstring \<Rightarrow> u8 list" where
  "content str = takeWhile (\<lambda>c. c \<noteq> 0) str"

definition terminated :: "cstring \<Rightarrow> bool" where
  "terminated str \<longleftrightarrow> 0 \<in> set str \<and> length str < 2 ^ 64"

section \<open>The driver\<close>

definition COM1_PORT :: u16 where "COM1_PORT = 0x3F8"
definition COM1_DATA :: u16 where "COM1_DATA = COM1_PORT"
definition COM1_IER :: u16 where "COM1_IER = COM1_PORT + 1"
definition COM1_FIFO :: u16 where "COM1_FIFO = COM1_PORT + 2"
definition COM1_LCR :: u16 where "COM1_LCR = COM1_PORT + 3"
definition COM1_MCR :: u16 where "COM1_MCR = COM1_PORT + 4"

text \<open>
  The polling loop at the labels \<open>.init_wait\<close> and \<open>.wait\<close>: read the line
  status register until its bit 5 (transmitter empty) is set. Each read consumes
  one answer of the environment.
\<close>

partial_function (option) wait_transmit_empty ::
  "'a machine_scheme \<Rightarrow> 'a machine_scheme option" where
  "wait_transmit_empty s =
     (if lsr s (lsr_reads s) AND 0x20 = 0
      then wait_transmit_empty (s\<lparr>lsr_reads := Suc (lsr_reads s)\<rparr>)
      else Some (s\<lparr>lsr_reads := Suc (lsr_reads s)\<rparr>))"

definition serial_init :: "'a machine_scheme \<Rightarrow> 'a machine_scheme option" where
  "serial_init s = do {
     let s = outb COM1_IER 0 s;
     let s = outb COM1_LCR 0x80 s;
     let s = outb COM1_DATA 0x01 s;
     let s = outb COM1_IER 0 s;
     let s = outb COM1_LCR 0x03 s;
     let s = outb COM1_FIFO 0xC7 s;
     let s = outb COM1_MCR 0x0B s;
     s \<leftarrow> wait_transmit_empty s;
     Some (outb COM1_DATA (of_char CHR ''S'') s)
   }"

definition serial_putchar :: "u8 \<Rightarrow> 'a machine_scheme \<Rightarrow> 'a machine_scheme option" where
  "serial_putchar c s = do {
     s \<leftarrow> wait_transmit_empty s;
     Some (outb COM1_DATA c s)
   }"

definition serial_write :: "cstring \<Rightarrow> u64 \<Rightarrow> 'a machine_scheme \<Rightarrow> 'a machine_scheme option" where
  "serial_write data len =
     for_loop_opt 0 len (\<lambda>i s. do {
       c \<leftarrow> char_at data i;
       s \<leftarrow> (if c = 0x0A then serial_putchar 0x0D s else Some s);
       serial_putchar c s
     })"

definition serial_writestring :: "cstring \<Rightarrow> 'a machine_scheme \<Rightarrow> 'a machine_scheme option" where
  "serial_writestring data s = do {
     n \<leftarrow> strlen data;
     serial_write data n s
   }"

section \<open>Strings: length and content\<close>

lemma strlen_from_content:
  "0 \<in> set str \<Longrightarrow> strlen_from str len = Some (len + of_nat (length (content str)))"
  by (induction str arbitrary: len) (auto simp: content_def algebra_simps)

lemma strlen_from_unterminated: "0 \<notin> set str \<Longrightarrow> strlen_from str len = None"
  by (induction str arbitrary: len) auto

lemma length_content: "length (content str) \<le> length str"
  unfolding content_def by (rule length_takeWhile_le)

lemma length_content_less: "terminated str \<Longrightarrow> length (content str) < 2 ^ 64"
  using length_content [of str] by (simp add: terminated_def)

lemma strlen_content: "terminated str \<Longrightarrow> strlen str = Some (of_nat (length (content str)))"
  by (simp add: strlen_def terminated_def strlen_from_content)

lemma nth_content: "i < length (content str) \<Longrightarrow> str ! i = content str ! i"
  by (simp add: content_def takeWhile_nth)

lemma char_at_content:
  "terminated str \<Longrightarrow> i < length (content str) \<Longrightarrow> char_at str (of_nat i) = Some (content str ! i)"
  using length_content [of str] length_content_less [of str]
  by (simp add: char_at_def nth_content)

lemma of_char_u8_eq_0: "(of_char c :: u8) = 0 \<longleftrightarrow> c = CHR 0x00"
proof
  assume "(of_char c :: u8) = 0"
  then have "unat (of_nat (of_char c) :: u8) = 0" by (simp only: of_nat_of_char unat_0)
  then have "(of_char c :: nat) = 0"
    using nat_of_char_less_256 [of c] by (simp add: unat_of_nat take_bit_nat_eq_self)
  then have "(of_char c :: nat) = of_char CHR 0x00" by simp
  then show "c = CHR 0x00" by (simp only: of_char_eq_iff)
qed simp

lemma content_cstr:
  "CHR 0x00 \<notin> set s \<Longrightarrow> content (cstr s) = map of_char s"
  by (induction s) (auto simp: content_def cstr_def of_char_u8_eq_0 simp del: char.inject)

lemma terminated_cstr: "length s < 2 ^ 64 - 1 \<Longrightarrow> terminated (cstr s)"
  by (simp add: terminated_def cstr_def)

section \<open>What the driver sends\<close>

text \<open>The byte sequence on the wire: every line feed is preceded by a carriage return.\<close>

fun crlf :: "u8 list \<Rightarrow> u8 list" where
  "crlf [] = []"
| "crlf (c # cs) = (if c = 0x0A then [0x0D, 0x0A] else [c]) @ crlf cs"

lemma crlf_append: "crlf (xs @ ys) = crlf xs @ crlf ys"
  by (induction xs) simp_all

lemma crlf_filter: "0x0D \<notin> set cs \<Longrightarrow> filter (\<lambda>c. c \<noteq> 0x0D) (crlf cs) = cs"
  by (induction cs) auto

text \<open>
  A live UART: the transmitter becomes empty again and again. This is the
  documented behaviour of the device that the driver's polling relies on.
\<close>

definition uart_live :: "'a machine_scheme \<Rightarrow> bool" where
  "uart_live s \<longleftrightarrow> (\<forall>n. \<exists>k \<ge> n. lsr s k AND 0x20 \<noteq> 0)"

text \<open>The reads made and the bytes sent are all that the driver changes.\<close>

definition sends :: "u8 list \<Rightarrow> 'a machine_scheme \<Rightarrow> 'a machine_scheme \<Rightarrow> bool" where
  "sends bs s s' \<longleftrightarrow>
     (\<exists>n \<ge> lsr_reads s. s' = s\<lparr>lsr_reads := n, ports := ports s @ map (Pair COM1_DATA) bs\<rparr>)"

lemma sends_Nil [simp]: "sends [] s s"
  by (auto simp: sends_def intro: exI [of _ "lsr_reads s"])

lemma sendsI:
  "lsr_reads s \<le> n \<Longrightarrow> sends bs s (s\<lparr>lsr_reads := n, ports := ports s @ map (Pair COM1_DATA) bs\<rparr>)"
  unfolding sends_def by blast

lemma sends_trans:
  assumes "sends bs s s'" and "sends cs s' s''"
  shows "sends (bs @ cs) s s''"
proof -
  from assms obtain n n' where "lsr_reads s \<le> n" "n \<le> n'"
    and "s'' = s\<lparr>lsr_reads := n', ports := ports s @ map (Pair COM1_DATA) (bs @ cs)\<rparr>"
    by (auto simp: sends_def)
  with sendsI [of s n' "bs @ cs"] show ?thesis by simp
qed

lemma sends_live [frame_simps]: "sends bs s s' \<Longrightarrow> uart_live s' \<longleftrightarrow> uart_live s"
  by (auto simp: sends_def uart_live_def)

lemma sends_mem [frame_simps]: "sends bs s s' \<Longrightarrow> mem s' = mem s"
  by (auto simp: sends_def)

lemma sends_ports [frame_simps]: "sends bs s s' \<Longrightarrow> ports s' = ports s @ map (Pair COM1_DATA) bs"
  by (auto simp: sends_def)

lemma wait_transmit_empty_reads:
  assumes "n \<le> k" "lsr s k AND 0x20 \<noteq> 0" "lsr_reads s = n"
  shows "\<exists>r > n. wait_transmit_empty s = Some (s\<lparr>lsr_reads := r\<rparr>)"
  using assms
proof (induction "k - n" arbitrary: s n)
  case 0
  then show ?case
    by (subst wait_transmit_empty.simps) auto
next
  case (Suc d)
  show ?case
  proof (cases "lsr s n AND 0x20 = 0")
    case True
    have "\<exists>r > Suc n. wait_transmit_empty (s\<lparr>lsr_reads := Suc n\<rparr>)
        = Some (s\<lparr>lsr_reads := Suc n, lsr_reads := r\<rparr>)"
      using Suc.prems Suc.hyps(2) by (intro Suc.hyps(1)) auto
    with True Suc.prems show ?thesis
      by (subst wait_transmit_empty.simps) (auto intro: less_trans)
  next
    case False
    with Suc.prems show ?thesis
      by (subst wait_transmit_empty.simps) auto
  qed
qed

lemma wait_transmit_empty_returns:
  "uart_live s \<Longrightarrow> \<exists>r > lsr_reads s. wait_transmit_empty s = Some (s\<lparr>lsr_reads := r\<rparr>)"
  unfolding uart_live_def by (metis wait_transmit_empty_reads)

lemma serial_putchar_sends:
  assumes "uart_live s"
  shows "\<exists>s'. serial_putchar c s = Some s' \<and> sends [c] s s'"
proof -
  from wait_transmit_empty_returns [OF assms]
  obtain r where "lsr_reads s < r" "wait_transmit_empty s = Some (s\<lparr>lsr_reads := r\<rparr>)" by blast
  then show ?thesis
    using sendsI [of s r "[c]"] by (simp add: serial_putchar_def outb_def)
qed

text \<open>One step of the loop of \<open>serial_write\<close>, and the loop.\<close>

lemma serial_step_sends:
  assumes "uart_live s"
  shows "\<exists>s'. do { s \<leftarrow> (if c = 0x0A then serial_putchar 0x0D s else Some s); serial_putchar c s }
           = Some s' \<and> sends (crlf [c]) s s'"
proof (cases "c = 0x0A")
  case False
  with serial_putchar_sends [OF assms, of c] show ?thesis by auto
next
  case True
  from serial_putchar_sends [OF assms, of "0x0D"]
  obtain s1 where s1: "serial_putchar 0x0D s = Some s1" "sends [0x0D] s s1" by blast
  with assms have "uart_live s1" by (simp add: sends_live)
  from serial_putchar_sends [OF this, of "0x0A"]
  obtain s2 where "serial_putchar 0x0A s1 = Some s2" "sends [0x0A] s1 s2" by blast
  with s1 True sends_trans [OF s1(2), of "[0x0A]" s2] show ?thesis by auto
qed

lemma fold_opt_sends:
  assumes "uart_live s"
    and "\<And>x s. x \<in> set xs \<Longrightarrow> uart_live s \<Longrightarrow> \<exists>s'. f x s = Some s' \<and> sends (g x) s s'"
  shows "\<exists>s'. fold_opt f xs s = Some s' \<and> sends (concat (map g xs)) s s'"
  using assms
proof (induction xs arbitrary: s)
  case Nil
  then show ?case by simp
next
  case (Cons x xs)
  from Cons.prems obtain s1 where s1: "f x s = Some s1" "sends (g x) s s1" by fastforce
  with Cons.prems have "uart_live s1" by (simp add: sends_live)
  with Cons obtain s2 where "fold_opt f xs s1 = Some s2" "sends (concat (map g xs)) s1 s2"
    by fastforce
  with s1 sends_trans show ?case by fastforce
qed

lemma concat_crlf: "concat (map (\<lambda>i. crlf [xs ! i]) [0..<length xs]) = crlf xs"
proof -
  have "concat (map (\<lambda>i. crlf [xs ! i]) [0..<length xs]) = concat (map (\<lambda>c. crlf [c]) xs)"
    by (metis (no_types, lifting) map_nth map_map comp_def map_eq_conv)
  also have "\<dots> = crlf xs" by (induction xs) simp_all
  finally show ?thesis .
qed

lemma serial_writestring_sends:
  assumes "uart_live s" "terminated str"
  shows "\<exists>s'. serial_writestring str s = Some s' \<and> sends (crlf (content str)) s s'"
proof -
  let ?n = "length (content str)"
  let ?body = "\<lambda>i s. do { c \<leftarrow> char_at str i;
       s \<leftarrow> (if c = 0x0A then serial_putchar 0x0D s else Some s); serial_putchar c s }"
  have "serial_writestring str s = fold_opt (\<lambda>k. ?body (of_nat k)) [0..<?n] s"
    using assms(2) length_content_less [of str]
    by (simp add: serial_writestring_def serial_write_def strlen_content for_loop_opt_fold)
  moreover have "\<exists>s'. fold_opt (\<lambda>k. ?body (of_nat k)) [0..<?n] s = Some s'
      \<and> sends (concat (map (\<lambda>i. crlf [content str ! i]) [0..<?n])) s s'"
  proof (rule fold_opt_sends [OF assms(1)])
    fix k and t :: "'a machine_scheme"
    assume "k \<in> set [0..<?n]" "uart_live t"
    with serial_step_sends [of t "content str ! k"]
    show "\<exists>t'. ?body (of_nat k) t = Some t' \<and> sends (crlf [content str ! k]) t t'"
      by (simp only: char_at_content [OF assms(2)] bind.simps set_upt atLeastLessThan_iff)
  qed
  ultimately show ?thesis by (simp only: concat_crlf)
qed

lemma serial_writestring_unterminated:
  "0 \<notin> set str \<Longrightarrow> serial_writestring str s = None"
  by (simp add: serial_writestring_def strlen_def strlen_from_unterminated)

text \<open>The register programming that \<open>serial_init\<close> performs before the first wait.\<close>

definition serial_setup :: "(u16 \<times> u8) list" where
  "serial_setup = [(0x3F9, 0), (0x3FB, 0x80), (0x3F8, 1), (0x3F9, 0), (0x3FB, 3), (0x3FA, 0xC7),
     (0x3FC, 0x0B), (0x3F8, 0x53)]"

lemma serial_init_result:
  assumes "uart_live s"
  shows "\<exists>r. serial_init s = Some (s\<lparr>lsr_reads := r, ports := ports s @ serial_setup\<rparr>)"
proof -
  let ?s = "s\<lparr>ports := ports s @ butlast serial_setup\<rparr>"
  from assms have "uart_live ?s" by (simp add: uart_live_def)
  from wait_transmit_empty_returns [OF this]
  obtain r where r: "wait_transmit_empty ?s = Some (?s\<lparr>lsr_reads := r\<rparr>)" by blast
  have "serial_init s = do { s \<leftarrow> wait_transmit_empty ?s; Some (outb COM1_DATA 0x53 s) }"
    by (simp add: serial_init_def outb_def COM1_DATA_def COM1_IER_def COM1_LCR_def COM1_FIFO_def
        COM1_MCR_def COM1_PORT_def serial_setup_def)
  with r have "serial_init s = Some (s\<lparr>lsr_reads := r, ports := ports s @ serial_setup\<rparr>)"
    by (simp add: outb_def serial_setup_def COM1_DATA_def COM1_PORT_def)
  then show ?thesis ..
qed

section \<open>When the driver waits forever\<close>

lemma wait_transmit_empty_ready:
  assumes "wait_transmit_empty s = Some s'"
  shows "\<exists>k \<ge> lsr_reads s. lsr s k AND 0x20 \<noteq> 0"
proof (rule wait_transmit_empty.raw_induct [OF _ assms])
  fix f and s s' :: "'a machine_scheme"
  assume IH: "\<And>s s'. f s = Some s' \<Longrightarrow> \<exists>k \<ge> lsr_reads s. lsr s k AND 0x20 \<noteq> 0"
    and step: "(if lsr s (lsr_reads s) AND 0x20 = 0 then f (s\<lparr>lsr_reads := Suc (lsr_reads s)\<rparr>)
      else Some (s\<lparr>lsr_reads := Suc (lsr_reads s)\<rparr>)) = Some s'"
  show "\<exists>k \<ge> lsr_reads s. lsr s k AND 0x20 \<noteq> 0"
  proof (cases "lsr s (lsr_reads s) AND 0x20 = 0")
    case True
    with step have "f (s\<lparr>lsr_reads := Suc (lsr_reads s)\<rparr>) = Some s'" by simp
    from IH [OF this] obtain k where "Suc (lsr_reads s) \<le> k" "lsr s k AND 0x20 \<noteq> 0" by auto
    then show ?thesis by (intro exI [of _ k]) simp
  qed auto
qed

lemma wait_transmit_empty_iff:
  "(\<exists>s'. wait_transmit_empty s = Some s') \<longleftrightarrow> (\<exists>k \<ge> lsr_reads s. lsr s k AND 0x20 \<noteq> 0)"
  using wait_transmit_empty_ready [of s] wait_transmit_empty_reads [of "lsr_reads s" _ s] by blast

section \<open>Properties\<close>

text \<open>A machine whose transmitter is always ready, for the examples.\<close>

definition ready_machine :: machine where
  "ready_machine = \<lparr>mem = \<lambda>_. 0, lsr = \<lambda>_. 0x20, lsr_reads = 0, ports = [], cr3 = 0, invlpgs = []\<rparr>"

lemma uart_live_ready: "uart_live ready_machine"
  by (auto simp: uart_live_def ready_machine_def)

text \<open>
  C30: On a live UART \<open>serial_writestring\<close> returns for every terminated string; it sends
  the characters before the NUL, each line feed as carriage return and line feed, to
  the data port, and changes nothing but the device.
\<close>

theorem serial_writestring_wire:
  assumes "uart_live s" "terminated str"
  shows "\<exists>s' n. serial_writestring str s = Some s' \<and>
    s' = s\<lparr>lsr_reads := n, ports := ports s @ map (Pair 0x3F8) (crlf (content str))\<rparr>"
  using serial_writestring_sends [OF assms]
  by (auto simp: sends_def COM1_DATA_def COM1_PORT_def)

theorem serial_writestring_wire_witness:
  "\<exists>s'. serial_writestring (cstr (''hi'' @ [CHR 0x0A])) ready_machine = Some s' \<and>
     ports s' = [(0x3F8, 0x68), (0x3F8, 0x69), (0x3F8, 0x0D), (0x3F8, 0x0A)]"
  using serial_writestring_wire [OF uart_live_ready terminated_cstr, of "''hi'' @ [CHR 0x0A]"]
  by (auto simp: content_cstr ready_machine_def)



text \<open>
  \<open>serial_init\<close> on a live UART returns after programming interrupts off, the divisor
  latch with 1, 8N1, the FIFO and the modem lines, in this order, and sending \<open>S\<close>.
\<close>

lemma serial_init_programs:
  assumes "uart_live s"
  shows "\<exists>s'. serial_init s = Some s' \<and> mem s' = mem s \<and>
    ports s' = ports s @ [(0x3F9, 0), (0x3FB, 0x80), (0x3F8, 1), (0x3F9, 0), (0x3FB, 3), (0x3FA, 0xC7),
      (0x3FC, 0x0B), (0x3F8, 0x53)]"
  using serial_init_result [OF assms] by (auto simp: serial_setup_def)

lemma serial_init_programs_witness:
  "\<exists>s'. serial_init ready_machine = Some s' \<and> length (ports s') = 8"
  using serial_init_programs [OF uart_live_ready] by (auto simp: ready_machine_def)

text \<open>
  C40: Sending a byte returns exactly when some later read of the line status register
  shows an empty transmitter; otherwise the driver polls forever.
\<close>

theorem serial_putchar_returns_iff:
  "(\<exists>s'. serial_putchar c s = Some s') \<longleftrightarrow> (\<exists>k. lsr_reads s \<le> k \<and> lsr s k AND 0x20 \<noteq> 0)"
  using wait_transmit_empty_iff [of s]
  by (cases "wait_transmit_empty s") (auto simp: serial_putchar_def)

end
