(* ===== verification/Terminal.thy ===== *)
theory Terminal
  imports Serial
begin

text \<open>
  The VGA text console, \<open>kernel/output/terminal.c\<close> and \<open>terminal.h\<close>: an
  80 by 25 grid of 16-bit cells at physical address 0xB8000, written at a cursor
  that wraps at the end of a line and of the screen. The lemmas relate the
  memory-level code to an abstract screen (2000 cells and a position) and show
  that it touches no memory outside the grid.
\<close>

section \<open>Colours and cells\<close>

datatype vga_color =
    VGA_COLOR_BLACK | VGA_COLOR_BLUE | VGA_COLOR_GREEN | VGA_COLOR_CYAN
  | VGA_COLOR_RED | VGA_COLOR_MAGENTA | VGA_COLOR_BROWN | VGA_COLOR_LIGHT_GREY
  | VGA_COLOR_DARK_GREY | VGA_COLOR_LIGHT_BLUE | VGA_COLOR_LIGHT_GREEN | VGA_COLOR_LIGHT_CYAN
  | VGA_COLOR_LIGHT_RED | VGA_COLOR_LIGHT_MAGENTA | VGA_COLOR_LIGHT_BROWN | VGA_COLOR_WHITE

fun vga_code :: "vga_color \<Rightarrow> u32" where
  "vga_code VGA_COLOR_BLACK = 0"
| "vga_code VGA_COLOR_BLUE = 1"
| "vga_code VGA_COLOR_GREEN = 2"
| "vga_code VGA_COLOR_CYAN = 3"
| "vga_code VGA_COLOR_RED = 4"
| "vga_code VGA_COLOR_MAGENTA = 5"
| "vga_code VGA_COLOR_BROWN = 6"
| "vga_code VGA_COLOR_LIGHT_GREY = 7"
| "vga_code VGA_COLOR_DARK_GREY = 8"
| "vga_code VGA_COLOR_LIGHT_BLUE = 9"
| "vga_code VGA_COLOR_LIGHT_GREEN = 10"
| "vga_code VGA_COLOR_LIGHT_CYAN = 11"
| "vga_code VGA_COLOR_LIGHT_RED = 12"
| "vga_code VGA_COLOR_LIGHT_MAGENTA = 13"
| "vga_code VGA_COLOR_LIGHT_BROWN = 14"
| "vga_code VGA_COLOR_WHITE = 15"

text \<open>
  The colours are ordered by their code, the order the C enum has. The code is
  injective, which the class proof uses.
\<close>

lemma vga_code_less: "vga_code c < 16"
  by (cases c) simp_all

lemma vga_code_inject: "vga_code c = vga_code d \<longleftrightarrow> c = d"
  by (cases c) (cases d; simp)+

instantiation vga_color :: linorder
begin

definition less_eq_vga_color :: "vga_color \<Rightarrow> vga_color \<Rightarrow> bool" where
  "less_eq_vga_color c d \<longleftrightarrow> vga_code c \<le> vga_code d"

definition less_vga_color :: "vga_color \<Rightarrow> vga_color \<Rightarrow> bool" where
  "less_vga_color c d \<longleftrightarrow> vga_code c < vga_code d"

instance
  by standard (auto simp: less_eq_vga_color_def less_vga_color_def simp flip: vga_code_inject)

end

definition VGA_WIDTH :: u64 where "VGA_WIDTH = 80"
definition VGA_HEIGHT :: u64 where "VGA_HEIGHT = 25"

definition vga_entry_color :: "vga_color \<Rightarrow> vga_color \<Rightarrow> u8" where
  "vga_entry_color fg bg = ucast (vga_code fg OR push_bit 4 (vga_code bg))"

definition vga_entry :: "u8 \<Rightarrow> u8 \<Rightarrow> u16" where
  "vga_entry uc color = ucast ((ucast uc :: u32) OR push_bit 8 (ucast color :: u32))"

section \<open>State and operations\<close>

record terminal = machine +
  terminal_row :: u64
  terminal_column :: u64
  terminal_color :: u8
  terminal_buffer :: u64

text \<open>\<open>terminal_buffer[index] = v\<close>; the array elements are two bytes wide.\<close>

definition put_cell :: "u64 \<Rightarrow> u16 \<Rightarrow> 'a terminal_scheme \<Rightarrow> 'a terminal_scheme" where
  "put_cell index v s = s\<lparr>mem := store16 (mem s) (terminal_buffer s + 2 * index) v\<rparr>"

definition terminal_initialize :: "'a terminal_scheme \<Rightarrow> 'a terminal_scheme" where
  "terminal_initialize s =
     (let s = s\<lparr>terminal_row := 0, terminal_column := 0,
                terminal_color := vga_entry_color VGA_COLOR_LIGHT_GREY VGA_COLOR_BLACK,
                terminal_buffer := 0xB8000\<rparr>
      in for_loop 0 VGA_HEIGHT (\<lambda>y. for_loop 0 VGA_WIDTH (\<lambda>x s.
           let index = y * VGA_WIDTH + x
           in put_cell index (vga_entry (of_char CHR '' '') (terminal_color s)) s)) s)"

definition terminal_setcolor :: "u8 \<Rightarrow> 'a terminal_scheme \<Rightarrow> 'a terminal_scheme" where
  "terminal_setcolor color s = s\<lparr>terminal_color := color\<rparr>"

definition terminal_putentryat ::
  "u8 \<Rightarrow> u8 \<Rightarrow> u64 \<Rightarrow> u64 \<Rightarrow> 'a terminal_scheme \<Rightarrow> 'a terminal_scheme" where
  "terminal_putentryat c color x y s =
     (let index = y * VGA_WIDTH + x in put_cell index (vga_entry c color) s)"

definition terminal_putchar :: "u8 \<Rightarrow> 'a terminal_scheme \<Rightarrow> 'a terminal_scheme" where
  "terminal_putchar c s =
     (let s = terminal_putentryat c (terminal_color s) (terminal_column s) (terminal_row s) s;
          s = s\<lparr>terminal_column := terminal_column s + 1\<rparr>
      in if terminal_column s = VGA_WIDTH
         then let s = s\<lparr>terminal_column := 0\<rparr>;
                  s = s\<lparr>terminal_row := terminal_row s + 1\<rparr>
              in if terminal_row s = VGA_HEIGHT then s\<lparr>terminal_row := 0\<rparr> else s
         else s)"

definition terminal_write ::
  "cstring \<Rightarrow> u64 \<Rightarrow> 'a terminal_scheme \<Rightarrow> 'a terminal_scheme option" where
  "terminal_write data len =
     for_loop_opt 0 len (\<lambda>i s. do { c \<leftarrow> char_at data i; Some (terminal_putchar c s) })"

definition terminal_writestring :: "cstring \<Rightarrow> 'a terminal_scheme \<Rightarrow> 'a terminal_scheme option" where
  "terminal_writestring data s = do {
     n \<leftarrow> strlen data;
     s \<leftarrow> terminal_write data n s;
     serial_writestring data s
   }"

section \<open>Cells decode\<close>

lemma ucast_vga_entry: "(ucast (vga_entry c color) :: u8) = c"
  unfolding vga_entry_def by (rule bit_word_eqI) (auto simp: bit_simps)

lemma drop_bit_vga_entry: "(ucast (drop_bit 8 (vga_entry c color)) :: u8) = color"
  unfolding vga_entry_def by (rule bit_word_eqI) (auto simp: bit_simps dest: bit_imp_le_length)

lemma vga_entry_inject: "vga_entry c color = vga_entry c' color' \<longleftrightarrow> c = c' \<and> color = color'"
  by (metis ucast_vga_entry drop_bit_vga_entry)

lemma bit_vga_code: "bit (vga_code c) n \<Longrightarrow> n < 4"
proof -
  have "vga_code c = take_bit 4 (vga_code c)"
    by (cases c) (simp_all add: take_bit_eq_mask mask_eq_exp_minus_1)
  moreover assume "bit (vga_code c) n"
  ultimately show ?thesis by (metis bit_take_bit_iff)
qed

lemma vga_entry_color_nibbles:
  "ucast (take_bit 4 (vga_entry_color fg bg)) = vga_code fg"
  "ucast (drop_bit 4 (vga_entry_color fg bg)) = vga_code bg"
  unfolding vga_entry_color_def
  by (rule bit_word_eqI; auto simp: bit_simps dest: bit_vga_code)+

section \<open>The screen\<close>

text \<open>
  The console seen abstractly: the cursor as a number below 2000 and the cell at
  each position.
\<close>

definition cursor :: "'a terminal_scheme \<Rightarrow> nat" where
  "cursor s = unat (terminal_row s) * 80 + unat (terminal_column s)"

definition cell_addr :: "nat \<Rightarrow> u64" where
  "cell_addr k = of_nat (0xB8000 + 2 * k)"

definition screen :: "memory \<Rightarrow> nat \<Rightarrow> u16" where
  "screen m k = load16 m (cell_addr k)"

definition terminal_inv :: "'a terminal_scheme \<Rightarrow> bool" where
  "terminal_inv s \<longleftrightarrow>
     terminal_row s < VGA_HEIGHT \<and> terminal_column s < VGA_WIDTH \<and> terminal_buffer s = 0xB8000"

lemma cursor_less: "terminal_inv s \<Longrightarrow> cursor s < 2000"
  by (simp add: terminal_inv_def cursor_def VGA_WIDTH_def VGA_HEIGHT_def word_less_nat_alt)

lemma unat_cell_addr [simp]: "k < 2000 \<Longrightarrow> unat (cell_addr k) = 0xB8000 + 2 * k"
  unfolding cell_addr_def by (rule unat_of_nat_u64) simp

lemma screen_store:
  assumes "i < 2000" "k < 2000"
  shows "screen (store16 m (cell_addr i) v) k = (if k = i then v else screen m k)"
  using assms by (cases "k < i") (auto simp: screen_def mem_simps)

lemma store_cell_only_changes:
  "i < 2000 \<Longrightarrow> only_changes m (store16 m (cell_addr i) v) 0xB8000 0xB8FA0"
  by (rule only_changes_mono [OF store16_only_changes]) auto

lemma put_cell_addr:
  assumes "terminal_buffer s = 0xB8000" "unat index < 2000"
  shows "terminal_buffer s + 2 * index = cell_addr (unat index)"
  using assms by (simp add: cell_addr_def)

lemma unat_index:
  assumes "y < VGA_HEIGHT" "x < VGA_WIDTH"
  shows "unat (y * VGA_WIDTH + x) = unat y * 80 + unat x"
proof -
  from assms have b: "unat y < 25" "unat x < 80"
    by (simp_all add: VGA_HEIGHT_def VGA_WIDTH_def word_less_nat_alt)
  then have "unat (y * 80) = unat y * 80"
    by (subst unat_mult_no_wrap) simp_all
  with b show ?thesis
    unfolding VGA_WIDTH_def by (subst unat_add_no_wrap) simp_all
qed

section \<open>One character\<close>

lemma terminal_putentryat_cell:
  assumes "terminal_buffer s = 0xB8000" "x < VGA_WIDTH" "y < VGA_HEIGHT"
  shows "terminal_putentryat c color x y s =
    s\<lparr>mem := store16 (mem s) (cell_addr (unat y * 80 + unat x)) (vga_entry c color)\<rparr>"
proof -
  have "unat y * 80 + unat x < 2000"
    using assms by (simp add: VGA_WIDTH_def VGA_HEIGHT_def word_less_nat_alt)
  with assms have "terminal_buffer s + 2 * (y * VGA_WIDTH + x) = cell_addr (unat y * 80 + unat x)"
    by (subst put_cell_addr) (simp_all add: unat_index)
  then show ?thesis by (simp add: terminal_putentryat_def put_cell_def)
qed

lemma terminal_putchar_mem:
  "terminal_inv s \<Longrightarrow>
   mem (terminal_putchar c s) = store16 (mem s) (cell_addr (cursor s)) (vga_entry c (terminal_color s))"
  by (simp add: terminal_putchar_def terminal_putentryat_cell terminal_inv_def cursor_def Let_def)

text \<open>Only memory and the cursor change.\<close>

lemma terminal_putchar_fields:
  "terminal_putchar c s = s\<lparr>mem := mem (terminal_putchar c s),
     terminal_row := terminal_row (terminal_putchar c s),
     terminal_column := terminal_column (terminal_putchar c s)\<rparr>"
  by (cases s) (simp add: terminal_putchar_def terminal_putentryat_def put_cell_def Let_def)

lemma unat_plus1_small: "unat (a :: u64) < 100 \<Longrightarrow> unat (a + 1) = Suc (unat a)"
  by (subst unat_add_no_wrap) simp_all

lemma terminal_putchar_cursor:
  assumes "terminal_inv s"
  shows "terminal_inv (terminal_putchar c s) \<and>
    cursor (terminal_putchar c s) = (if Suc (cursor s) = 2000 then 0 else Suc (cursor s))"
proof -
  from assms have b: "unat (terminal_row s) < 25" "unat (terminal_column s) < 80"
    and buf: "terminal_buffer s = 0xB8000"
    by (simp_all add: terminal_inv_def VGA_WIDTH_def VGA_HEIGHT_def word_less_nat_alt)
  then have suc: "unat (terminal_row s + 1) = Suc (unat (terminal_row s))"
    "unat (terminal_column s + 1) = Suc (unat (terminal_column s))"
    by (simp_all add: unat_plus1_small)
  have wrap: "terminal_column s + 1 = 80 \<longleftrightarrow> unat (terminal_column s) = 79"
    "terminal_row s + 1 = 25 \<longleftrightarrow> unat (terminal_row s) = 24"
    using suc by (auto simp: word_unat_eq_iff)
  show ?thesis
    using b buf suc wrap
    by (auto simp: terminal_putchar_def terminal_putentryat_def put_cell_def Let_def
        terminal_inv_def cursor_def VGA_WIDTH_def VGA_HEIGHT_def word_less_nat_alt)
qed

lemma terminal_putchar_screen:
  assumes "terminal_inv s" "k < 2000"
  shows "screen (mem (terminal_putchar c s)) k =
    (if k = cursor s then vga_entry c (terminal_color s) else screen (mem s) k)"
  using assms by (simp add: terminal_putchar_mem screen_store cursor_less)

lemma terminal_putchar_color [simp]: "terminal_color (terminal_putchar c s) = terminal_color s"
  by (simp add: terminal_putchar_def terminal_putentryat_def put_cell_def Let_def)

lemma terminal_putchar_only_changes:
  "terminal_inv s \<Longrightarrow> only_changes (mem s) (mem (terminal_putchar c s)) 0xB8000 0xB8FA0"
  by (simp add: terminal_putchar_mem store_cell_only_changes cursor_less)

section \<open>Strings\<close>

text \<open>What writing a list of characters does, as a fold of the operation for one.\<close>

definition put_chars :: "u8 list \<Rightarrow> 'a terminal_scheme \<Rightarrow> 'a terminal_scheme" where
  "put_chars = fold terminal_putchar"

lemma put_chars_simps [simp]:
  "put_chars [] s = s"
  "put_chars (c # cs) s = put_chars cs (terminal_putchar c s)"
  by (simp_all add: put_chars_def)

lemma put_chars_snoc: "put_chars (cs @ [c]) s = terminal_putchar c (put_chars cs s)"
  by (simp add: put_chars_def)

lemma fold_nth: "fold (\<lambda>k. f (xs ! k)) [0..<length xs] s = fold f xs s"
proof -
  have "fold f xs s = fold f (map ((!) xs) [0..<length xs]) s" by (simp only: map_nth)
  then show ?thesis by (simp only: fold_map comp_def)
qed

lemma terminal_write_content:
  assumes "terminated str"
  shows "terminal_write str (of_nat (length (content str))) s = Some (put_chars (content str) s)"
proof -
  have "terminal_write str (of_nat (length (content str))) s =
      fold_opt (\<lambda>k s. do { c \<leftarrow> char_at str (of_nat k); Some (terminal_putchar c s) })
        [0..<length (content str)] s"
    using length_content_less [OF assms] by (simp add: terminal_write_def for_loop_opt_fold)
  also have "\<dots> = Some (fold (\<lambda>k. terminal_putchar (content str ! k)) [0..<length (content str)] s)"
    by (rule fold_opt_total) (simp add: char_at_content [OF assms])
  finally show ?thesis by (simp add: fold_nth put_chars_def)
qed

lemma put_chars_inv: "terminal_inv s \<Longrightarrow> terminal_inv (put_chars cs s)"
  by (induction cs arbitrary: s) (simp_all add: terminal_putchar_cursor)

lemma put_chars_color [simp]: "terminal_color (put_chars cs s) = terminal_color s"
  by (induction cs arbitrary: s) simp_all

lemma put_chars_cursor:
  "terminal_inv s \<Longrightarrow> cursor (put_chars cs s) = (cursor s + length cs) mod 2000"
proof (induction cs rule: rev_induct)
  case Nil
  then show ?case by (simp add: cursor_less)
next
  case (snoc c cs)
  then show ?case
    by (auto simp: put_chars_snoc terminal_putchar_cursor put_chars_inv mod_Suc)
qed

lemma put_chars_only_changes:
  "terminal_inv s \<Longrightarrow> only_changes (mem s) (mem (put_chars cs s)) 0xB8000 0xB8FA0"
proof (induction cs arbitrary: s)
  case (Cons c cs)
  then have "only_changes (mem (terminal_putchar c s)) (mem (put_chars cs (terminal_putchar c s)))
      0xB8000 0xB8FA0"
    by (simp add: terminal_putchar_cursor)
  with terminal_putchar_only_changes [OF Cons.prems]
  show ?case by (auto intro: only_changes_trans)
qed simp

lemma terminal_update_putchar:
  "terminal_putchar c s\<lparr>mem := m, terminal_row := r, terminal_column := k\<rparr>
     = s\<lparr>mem := m, terminal_row := r, terminal_column := k\<rparr>"
  by (subst terminal_putchar_fields) simp

lemma put_chars_fields:
  "put_chars cs s = s\<lparr>mem := mem (put_chars cs s), terminal_row := terminal_row (put_chars cs s),
     terminal_column := terminal_column (put_chars cs s)\<rparr>"
proof (induction cs arbitrary: s)
  case Nil
  then show ?case by (cases s) simp
next
  case (Cons c cs)
  let ?t = "terminal_putchar c s" and ?u = "put_chars cs (terminal_putchar c s)"
  have "?u = ?t\<lparr>mem := mem ?u, terminal_row := terminal_row ?u, terminal_column := terminal_column ?u\<rparr>"
    by (fact Cons.IH)
  also have "\<dots> = s\<lparr>mem := mem ?u, terminal_row := terminal_row ?u, terminal_column := terminal_column ?u\<rparr>"
    by (fact terminal_update_putchar)
  finally show ?case unfolding put_chars_simps .
qed

text \<open>Up to a screenful, every character stays where it was put.\<close>

lemma mod_2000_neq:
  "i < n \<Longrightarrow> n < 2000 \<Longrightarrow> (p + i) mod 2000 \<noteq> (p + n) mod (2000::nat)"
  using mod_eq_dvd_iff_nat [of "p + i" "p + n" 2000] by (auto dest!: dvd_imp_le)

lemma put_chars_screen_other:
  "terminal_inv s \<Longrightarrow> k < 2000 \<Longrightarrow> (\<forall>i < length cs. k \<noteq> (cursor s + i) mod 2000) \<Longrightarrow>
   screen (mem (put_chars cs s)) k = screen (mem s) k"
proof (induction cs rule: rev_induct)
  case (snoc c cs)
  then show ?case
    by (auto simp: put_chars_snoc terminal_putchar_screen put_chars_inv put_chars_cursor)
qed simp

lemma put_chars_screen:
  "terminal_inv s \<Longrightarrow> length cs \<le> 2000 \<Longrightarrow> i < length cs \<Longrightarrow>
   screen (mem (put_chars cs s)) ((cursor s + i) mod 2000) = vga_entry (cs ! i) (terminal_color s)"
proof (induction cs rule: rev_induct)
  case (snoc c cs)
  show ?case
  proof (cases "i = length cs")
    case True
    with snoc.prems show ?thesis
      by (simp add: put_chars_snoc terminal_putchar_screen put_chars_inv put_chars_cursor)
  next
    case False
    with snoc mod_2000_neq [of i "length cs" "cursor s"] show ?thesis
      by (simp add: put_chars_snoc terminal_putchar_screen put_chars_inv put_chars_cursor nth_append)
  qed
qed simp

section \<open>Initialisation\<close>

text \<open>\<open>cleared s0 p s\<close>: from \<open>s0\<close> on, the first \<open>p\<close> cells have been blanked.\<close>

definition cleared :: "'a terminal_scheme \<Rightarrow> nat \<Rightarrow> 'a terminal_scheme \<Rightarrow> bool" where
  "cleared s0 p s \<longleftrightarrow> (\<exists>m. s = s0\<lparr>mem := m\<rparr> \<and> only_changes (mem s0) m 0xB8000 0xB8FA0 \<and>
     (\<forall>k < p. screen m k = vga_entry 0x20 (terminal_color s0)))"

lemma cleared_step:
  assumes "cleared s0 p s" "terminal_buffer s0 = 0xB8000" "p < 2000" "unat index = p"
  shows "cleared s0 (Suc p) (put_cell index (vga_entry 0x20 (terminal_color s)) s)"
proof -
  let ?v = "vga_entry 0x20 (terminal_color s0)"
  from assms(1) obtain m where m: "s = s0\<lparr>mem := m\<rparr>" "only_changes (mem s0) m 0xB8000 0xB8FA0"
    "\<forall>k < p. screen m k = ?v"
    unfolding cleared_def by blast
  have "terminal_buffer s0 + 2 * index = cell_addr p"
    using assms(2-4) by (auto simp: cell_addr_def)
  with m have "put_cell index (vga_entry 0x20 (terminal_color s)) s
      = s0\<lparr>mem := store16 m (cell_addr p) ?v\<rparr>"
    by (simp add: put_cell_def)
  moreover have "only_changes (mem s0) (store16 m (cell_addr p) ?v) 0xB8000 0xB8FA0"
    using m(2) store_cell_only_changes [OF assms(3)] by (rule only_changes_trans)
  moreover have "\<forall>k < Suc p. screen (store16 m (cell_addr p) ?v) k = ?v"
    using m(3) assms(3) by (auto simp: screen_store)
  ultimately show ?thesis unfolding cleared_def by blast
qed

lemma cleared_row:
  assumes "cleared s0 (80 * y) s" "terminal_buffer s0 = 0xB8000" "y < 25"
  shows "cleared s0 (80 * y + 80) (for_loop 0 VGA_WIDTH (\<lambda>x s.
           let index = of_nat y * VGA_WIDTH + x
           in put_cell index (vga_entry 0x20 (terminal_color s)) s) s)"
proof -
  have "cleared s0 (80 * y + 80) (fold (\<lambda>x s. put_cell (of_nat y * VGA_WIDTH + of_nat x)
      (vga_entry 0x20 (terminal_color s)) s) [0..<80] s)"
  proof (rule fold_invariant_upt [where P = "\<lambda>x. cleared s0 (80 * y + x)"])
    show "cleared s0 (80 * y + 0) s" using assms(1) by simp
  next
    fix x t assume x: "x < 80" and inv: "cleared s0 (80 * y + x) t"
    have "unat (of_nat y * VGA_WIDTH + of_nat x :: u64) = 80 * y + x"
      using x assms(3)
      by (subst unat_index) (simp_all add: VGA_HEIGHT_def VGA_WIDTH_def word_less_nat_alt)
    with x assms(2,3) inv
    show "cleared s0 (80 * y + Suc x) (put_cell (of_nat y * VGA_WIDTH + of_nat x)
        (vga_entry 0x20 (terminal_color t)) t)"
      by (simp add: cleared_step)
  qed simp
  then show ?thesis by (simp add: for_loop_fold VGA_WIDTH_def)
qed

lemma terminal_initialize_cleared:
  "cleared (s\<lparr>terminal_row := 0, terminal_column := 0,
      terminal_color := vga_entry_color VGA_COLOR_LIGHT_GREY VGA_COLOR_BLACK,
      terminal_buffer := 0xB8000\<rparr>) 2000 (terminal_initialize s)"
proof -
  let ?s = "s\<lparr>terminal_row := 0, terminal_column := 0,
      terminal_color := vga_entry_color VGA_COLOR_LIGHT_GREY VGA_COLOR_BLACK,
      terminal_buffer := 0xB8000\<rparr>"
  let ?row = "\<lambda>y. for_loop 0 VGA_WIDTH (\<lambda>x s. let index = y * VGA_WIDTH + x
           in put_cell index (vga_entry 0x20 (terminal_color s)) s)"
  have "cleared ?s (80 * 25) (fold (\<lambda>y. ?row (of_nat y)) [0..<25] ?s)"
  proof (rule fold_invariant_upt [where P = "\<lambda>y. cleared ?s (80 * y)"])
    show "cleared ?s (80 * 0) ?s" by (auto simp: cleared_def intro!: exI [of _ "mem s"])
  next
    fix y t assume "y < 25" "cleared ?s (80 * y) t"
    then show "cleared ?s (80 * Suc y) (?row (of_nat y) t)"
      using cleared_row [of ?s y t] by (simp add: add.commute)
  qed simp
  then show ?thesis
    by (simp add: terminal_initialize_def for_loop_fold [of 0 25] VGA_HEIGHT_def)
qed

section \<open>Properties\<close>

text \<open>A console in its initial position on a ready machine, for the examples.\<close>

definition example_terminal :: terminal where
  "example_terminal = \<lparr>mem = \<lambda>_. 0, lsr = \<lambda>_. 0x20, lsr_reads = 0, ports = [], cr3 = 0, invlpgs = [],
     terminal_row = 24, terminal_column = 79, terminal_color = 0x07, terminal_buffer = 0xB8000\<rparr>"

lemma example_terminal_facts:
  "terminal_inv example_terminal" "uart_live example_terminal" "cursor example_terminal = 1999"
  by (auto simp: terminal_inv_def uart_live_def cursor_def example_terminal_def VGA_WIDTH_def VGA_HEIGHT_def)

text \<open>
  \<open>terminal_putchar\<close> puts the character into the cell under the cursor, in the current
  colour, leaves every other cell and all memory outside the grid alone, and moves the
  cursor on by one, from the last cell to the first.
\<close>

lemma terminal_putchar_step:
  assumes "terminal_inv s"
  shows "terminal_inv (terminal_putchar c s) \<and> cursor (terminal_putchar c s) = (cursor s + 1) mod 2000 \<and>
    (\<forall>k < 2000. screen (mem (terminal_putchar c s)) k =
       (if k = cursor s then vga_entry c (terminal_color s) else screen (mem s) k)) \<and>
    only_changes (mem s) (mem (terminal_putchar c s)) 0xB8000 0xB8FA0"
  using assms terminal_putchar_cursor [OF assms, of c] cursor_less [OF assms]
  by (auto simp: terminal_putchar_screen terminal_putchar_only_changes)

lemma terminal_putchar_step_witness:
  "cursor (terminal_putchar 0x41 example_terminal) = 0 \<and>
   screen (mem (terminal_putchar 0x41 example_terminal)) 1999 = vga_entry 0x41 0x07"
  using terminal_putchar_step [OF example_terminal_facts(1), of "0x41"]
  by (auto simp: example_terminal_facts) (simp add: example_terminal_def)

lemma terminal_writestring_result:
  assumes "uart_live s" "terminated str"
  shows "\<exists>s'. terminal_writestring str s = Some s' \<and> sends (crlf (content str)) (put_chars (content str) s) s'"
proof -
  let ?t = "put_chars (content str) s"
  have "lsr ?t = lsr s" by (subst put_chars_fields) simp
  then have "uart_live ?t" using assms(1) by (simp add: uart_live_def)
  from serial_writestring_sends [OF this assms(2)]
  obtain s' where s': "serial_writestring str ?t = Some s'" "sends (crlf (content str)) ?t s'" by blast
  then have "terminal_writestring str s = Some s'"
    by (simp add: terminal_writestring_def strlen_content assms(2) terminal_write_content)
  with s'(2) show ?thesis by blast
qed

lemma put_chars_ports: "ports (put_chars cs s) = ports s"
  by (subst put_chars_fields) simp

text \<open>
  C32: \<open>terminal_writestring\<close> returns for every terminated string on a live UART. A string
  of at most a screenful appears cell by cell from the cursor on, wrapping at the end of
  the screen; no other cell and no memory outside the grid changes; and the same
  characters go out on the serial line.
\<close>

theorem terminal_writestring_screen:
  assumes "terminal_inv s" "uart_live s" "terminated str" "length (content str) \<le> 2000"
  shows "\<exists>s'. terminal_writestring str s = Some s' \<and> terminal_inv s' \<and>
    cursor s' = (cursor s + length (content str)) mod 2000 \<and>
    (\<forall>i < length (content str).
       screen (mem s') ((cursor s + i) mod 2000) = vga_entry (content str ! i) (terminal_color s)) \<and>
    (\<forall>k < 2000. (\<forall>i < length (content str). k \<noteq> (cursor s + i) mod 2000) \<longrightarrow>
       screen (mem s') k = screen (mem s) k) \<and>
    only_changes (mem s) (mem s') 0xB8000 0xB8FA0 \<and>
    ports s' = ports s @ map (Pair COM1_DATA) (crlf (content str))"
proof -
  let ?t = "put_chars (content str) s"
  obtain s' where s': "terminal_writestring str s = Some s'" "sends (crlf (content str)) ?t s'"
    using terminal_writestring_result [OF assms(2,3)] by blast
  moreover have "mem s' = mem ?t" "terminal_inv s' = terminal_inv ?t" "cursor s' = cursor ?t"
    "ports s' = ports s @ map (Pair COM1_DATA) (crlf (content str))"
    using s'(2) by (auto simp: put_chars_ports sends_def terminal_inv_def cursor_def)
  ultimately show ?thesis
    using assms put_chars_screen [OF assms(1,4)] put_chars_screen_other [OF assms(1)]
    by (simp add: put_chars_inv put_chars_cursor put_chars_only_changes)
qed

theorem terminal_writestring_screen_witness:
  "\<exists>s'. terminal_writestring (cstr ''ok'') example_terminal = Some s' \<and> cursor s' = 1 \<and>
     screen (mem s') 1999 = vga_entry 0x6F 0x07 \<and> screen (mem s') 0 = vga_entry 0x6B 0x07"
proof -
  have str: "terminated (cstr ''ok'')" "content (cstr ''ok'') = [0x6F, 0x6B]"
    by (simp_all add: terminated_cstr content_cstr)
  from terminal_writestring_screen [OF example_terminal_facts(1,2) str(1)]
  obtain s' where s': "terminal_writestring (cstr ''ok'') example_terminal = Some s'" "cursor s' = 1"
    "\<forall>i < 2. screen (mem s') ((1999 + i) mod 2000) = vga_entry ([0x6F, 0x6B] ! i) 0x07"
    by (auto simp: str example_terminal_facts) (simp add: example_terminal_def)
  from s'(3) [rule_format, of 0] s'(3) [rule_format, of 1] s'(1,2) show ?thesis by simp
qed

text \<open>
  \<open>terminal_initialize\<close>, from any state, leaves the cursor in the first cell and a
  blank in light grey on black in all 2000 cells, and writes nothing outside the grid.
\<close>

lemma terminal_initialize_blank:
  "terminal_inv (terminal_initialize s) \<and> cursor (terminal_initialize s) = 0 \<and>
   terminal_color (terminal_initialize s) = 0x07 \<and>
   (\<forall>k < 2000. screen (mem (terminal_initialize s)) k = 0x0720) \<and>
   only_changes (mem s) (mem (terminal_initialize s)) 0xB8000 0xB8FA0"
proof -
  have "vga_entry_color VGA_COLOR_LIGHT_GREY VGA_COLOR_BLACK = 0x07" "vga_entry 0x20 0x07 = 0x0720"
    by (simp_all add: vga_entry_color_def vga_entry_def)
  then show ?thesis
    using terminal_initialize_cleared [of s]
    by (auto simp: cleared_def terminal_inv_def cursor_def VGA_WIDTH_def VGA_HEIGHT_def)
qed

lemma terminal_initialize_blank_witness:
  "screen (mem (terminal_initialize example_terminal)) 1999 = 0x0720 \<and>
   cursor (terminal_initialize example_terminal) = 0"
  using terminal_initialize_blank [of example_terminal] by simp

text \<open>
  A cell decodes to what it was made of: the low byte is the character, bits 8 to 11
  the foreground and bits 12 to 15 the background.
\<close>

lemma vga_entry_decodes:
  "ucast (vga_entry c (vga_entry_color fg bg)) = c \<and>
   ucast (take_bit 4 (drop_bit 8 (vga_entry c (vga_entry_color fg bg)))) = vga_code fg \<and>
   ucast (drop_bit 12 (vga_entry c (vga_entry_color fg bg))) = vga_code bg"
proof -
  let ?e = "vga_entry c (vga_entry_color fg bg)"
  have high: "(ucast (drop_bit 8 ?e) :: u8) = vga_entry_color fg bg" by (rule drop_bit_vga_entry)
  have "(ucast (take_bit 4 (drop_bit 8 ?e)) :: u32) = ucast (take_bit 4 (ucast (drop_bit 8 ?e) :: u8))"
    "(ucast (drop_bit 12 ?e) :: u32) = ucast (drop_bit 4 (ucast (drop_bit 8 ?e) :: u8))"
    by (rule bit_word_eqI; auto simp: bit_simps dest: bit_imp_le_length)+
  then show ?thesis
    unfolding high by (simp add: ucast_vga_entry vga_entry_color_nibbles)
qed

end
