(* ===== verification/Allocator.thy ===== *)
theory Allocator
  imports Prelude
begin

text \<open>
  The contract that the page allocator and the heap share with their clients, as
  an interface: what a request returns, what a release gives back, and the set of
  addresses handed out. The client is a state machine that requests and releases
  in any order and releases only what it holds; everything proved about it here
  holds for both allocators.
\<close>

section \<open>A client of an allocator\<close>

text \<open>
  The client's state is the allocator's state and the set of addresses it holds.
  A request that returns 0 is a refusal.
\<close>

inductive client_step ::
  "('r \<Rightarrow> 's \<Rightarrow> (u64 \<times> 's) option) \<Rightarrow> (u64 \<Rightarrow> 's \<Rightarrow> 's option) \<Rightarrow>
   's \<times> u64 set \<Rightarrow> 's \<times> u64 set \<Rightarrow> bool"
  for alloc free where
  granted: "alloc r s = Some (p, s') \<Longrightarrow> p \<noteq> 0 \<Longrightarrow>
     client_step alloc free (s, H) (s', insert p H)"
| refused: "alloc r s = Some (0, s') \<Longrightarrow> client_step alloc free (s, H) (s', H)"
| released: "p \<in> H \<Longrightarrow> free p s = Some s' \<Longrightarrow> client_step alloc free (s, H) (s', H - {p})"

inductive client_reach ::
  "('r \<Rightarrow> 's \<Rightarrow> (u64 \<times> 's) option) \<Rightarrow> (u64 \<Rightarrow> 's \<Rightarrow> 's option) \<Rightarrow>
   's \<Rightarrow> 's \<times> u64 set \<Rightarrow> bool"
  for alloc free s0 where
  start: "client_reach alloc free s0 (s0, {})"
| step: "client_reach alloc free s0 x \<Longrightarrow> client_step alloc free x y \<Longrightarrow>
     client_reach alloc free s0 y"

inductive_cases client_stepE: "client_step alloc free (s, H) y"

section \<open>The contract\<close>

locale allocator =
  fixes inv :: "'s \<Rightarrow> bool"
    and live :: "'s \<Rightarrow> u64 set"
    and alloc :: "'r \<Rightarrow> 's \<Rightarrow> (u64 \<times> 's) option"
    and free :: "u64 \<Rightarrow> 's \<Rightarrow> 's option"
  assumes alloc_returns: "inv s \<Longrightarrow> \<exists>p s'. alloc r s = Some (p, s')"
    and alloc_inv: "inv s \<Longrightarrow> alloc r s = Some (p, s') \<Longrightarrow> inv s'"
    and alloc_refused: "inv s \<Longrightarrow> alloc r s = Some (0, s') \<Longrightarrow> live s' = live s"
    and alloc_fresh: "inv s \<Longrightarrow> alloc r s = Some (p, s') \<Longrightarrow> p \<noteq> 0 \<Longrightarrow> p \<notin> live s"
    and alloc_live: "inv s \<Longrightarrow> alloc r s = Some (p, s') \<Longrightarrow> p \<noteq> 0 \<Longrightarrow> live s' = insert p (live s)"
    and free_returns: "inv s \<Longrightarrow> p \<in> live s \<Longrightarrow> \<exists>s'. free p s = Some s'"
    and free_inv: "inv s \<Longrightarrow> p \<in> live s \<Longrightarrow> free p s = Some s' \<Longrightarrow> inv s'"
    and free_live: "inv s \<Longrightarrow> p \<in> live s \<Longrightarrow> free p s = Some s' \<Longrightarrow> live s' = live s - {p}"
begin

lemma step_exact:
  "client_step alloc free (s, H) (s', H') \<Longrightarrow> inv s \<Longrightarrow> live s = H \<Longrightarrow> inv s' \<and> live s' = H'"
  by (erule client_stepE) (auto dest: alloc_inv alloc_refused alloc_live free_inv free_live)

lemma reach_exact:
  assumes "client_reach alloc free s0 x" "inv s0" "live s0 = {}"
  shows "inv (fst x) \<and> live (fst x) = snd x"
  using assms
proof (induction rule: client_reach.induct)
  case (step x y)
  then show ?case
    using step_exact [of "fst x" "snd x" "fst y" "snd y"] by simp
qed simp

lemma grant_is_fresh:
  assumes "client_reach alloc free s0 (s, H)" "inv s0" "live s0 = {}"
    and "alloc r s = Some (p, s')" "p \<noteq> 0"
  shows "p \<notin> H"
  using reach_exact [OF assms(1-3)] alloc_fresh [OF _ assms(4,5)] by simp

lemma never_stuck:
  assumes "client_reach alloc free s0 (s, H)" "inv s0" "live s0 = {}"
  shows "(\<exists>p s'. alloc r s = Some (p, s')) \<and> (\<forall>p \<in> H. \<exists>s'. free p s = Some s')"
  using reach_exact [OF assms] by (auto intro: alloc_returns free_returns)

text \<open>A client that releases all it holds leaves nothing handed out.\<close>

lemma reach_empty_handed:
  "client_reach alloc free s0 (s, {}) \<Longrightarrow> inv s0 \<Longrightarrow> live s0 = {} \<Longrightarrow> live s = {}"
  using reach_exact by fastforce

end

end
