(* ===== verification/Pmm.thy ===== *)
theory Pmm
  imports Terminal Allocator
begin

text \<open>
  The physical page allocator, \<open>kernel/memory/pmm.c\<close> and \<open>pmm.h\<close>: a bitmap
  with one bit per 4 KiB page, kept in memory at 0x140000, and a count of used
  pages. Abstractly the allocator is the set of page numbers whose bit is set; the
  lemmas give every operation as an operation on that set, with the memory it
  leaves alone.
\<close>

section \<open>State and operations\<close>

definition PAGE_SIZE :: u64 where "PAGE_SIZE = 4096"
definition PAGES_PER_BYTE :: u64 where "PAGES_PER_BYTE = 8"

record pmm = terminal +
  page_bitmap :: u64
  total_pages :: u64
  used_pages :: u64

definition page_to_byte :: "u64 \<Rightarrow> u64" where
  "page_to_byte page = page div PAGES_PER_BYTE"

definition page_to_bit :: "u64 \<Rightarrow> u8" where
  "page_to_bit page = ucast (page mod PAGES_PER_BYTE)"

text \<open>
  The bit operations are done at the width of C's \<open>int\<close>, as the integer
  promotions say, and cut back to a byte on assignment.
\<close>

definition is_page_allocated :: "u64 \<Rightarrow> 'a pmm_scheme \<Rightarrow> bool" where
  "is_page_allocated page s =
     (let byte = page_to_byte page;
          bit = page_to_bit page
      in (ucast (mem s (page_bitmap s + byte)) :: u32) AND push_bit (unat bit) 1 \<noteq> 0)"

definition set_page_allocated :: "u64 \<Rightarrow> 'a pmm_scheme \<Rightarrow> 'a pmm_scheme" where
  "set_page_allocated page s =
     (let byte = page_to_byte page;
          bit = page_to_bit page;
          a = page_bitmap s + byte
      in s\<lparr>mem := (mem s)(a := ucast ((ucast (mem s a) :: u32) OR push_bit (unat bit) 1))\<rparr>)"

definition set_page_free :: "u64 \<Rightarrow> 'a pmm_scheme \<Rightarrow> 'a pmm_scheme" where
  "set_page_free page s =
     (let byte = page_to_byte page;
          bit = page_to_bit page;
          a = page_bitmap s + byte
      in s\<lparr>mem := (mem s)(a := ucast ((ucast (mem s a) :: u32) AND NOT (push_bit (unat bit) 1)))\<rparr>)"

text \<open>The bodies of the loops of \<open>pmm_init\<close>.\<close>

definition clear_bitmap_byte :: "u64 \<Rightarrow> 'a pmm_scheme \<Rightarrow> 'a pmm_scheme" where
  "clear_bitmap_byte i s = s\<lparr>mem := (mem s)(page_bitmap s + i := 0)\<rparr>"

definition reserve_page :: "u64 \<Rightarrow> 'a pmm_scheme \<Rightarrow> 'a pmm_scheme" where
  "reserve_page i s = (let s = set_page_allocated i s in s\<lparr>used_pages := used_pages s + 1\<rparr>)"

definition pmm_init :: "u64 \<Rightarrow> 'a pmm_scheme \<Rightarrow> 'a pmm_scheme option" where
  "pmm_init total_memory s =
     (let s = s\<lparr>total_pages := total_memory div PAGE_SIZE\<rparr>;
          bitmap_size = (total_pages s + PAGES_PER_BYTE - 1) div PAGES_PER_BYTE;
          s = s\<lparr>page_bitmap := 0x140000\<rparr>;
          s = for_loop 0 bitmap_size clear_bitmap_byte s;
          reserved_low = 0x100000 div PAGE_SIZE;
          s = for_loop 0 reserved_low reserve_page s;
          kernel_pages = 0x80000 div PAGE_SIZE;
          s = for_loop reserved_low (reserved_low + kernel_pages) reserve_page s;
          bitmap_pages = (bitmap_size + PAGE_SIZE - 1) div PAGE_SIZE;
          bitmap_start_page = 0x140000 div PAGE_SIZE;
          s = for_loop bitmap_start_page (bitmap_start_page + bitmap_pages) reserve_page s
      in serial_writestring
           (cstr (''[PMM] Physical Memory Manager initialized'' @ [CHR 0x0A])) s)"

text \<open>The search loop of \<open>pmm_alloc_page\<close>, from page \<open>page\<close> on.\<close>

function pmm_alloc_from :: "u64 \<Rightarrow> 'a pmm_scheme \<Rightarrow> u64 \<times> 'a pmm_scheme" where
  "pmm_alloc_from page s =
     (if page < total_pages s
      then if \<not> is_page_allocated page s
           then let s = set_page_allocated page s;
                    s = s\<lparr>used_pages := used_pages s + 1\<rparr>
                in (page * PAGE_SIZE, s)
           else pmm_alloc_from (page + 1) s
      else (0, s))"
  by pat_completeness auto
termination
  by (relation "measure (\<lambda>(page, s). unat (total_pages s - page))") (auto, unat_arith)

declare pmm_alloc_from.simps [simp del]

definition pmm_alloc_page :: "'a pmm_scheme \<Rightarrow> u64 \<times> 'a pmm_scheme" where
  "pmm_alloc_page s = pmm_alloc_from 0 s"

definition pmm_free_page :: "u64 \<Rightarrow> 'a pmm_scheme \<Rightarrow> 'a pmm_scheme" where
  "pmm_free_page addr s =
     (let page = addr div PAGE_SIZE
      in if page \<ge> total_pages s then s
         else if is_page_allocated page s
              then let s = set_page_free page s in s\<lparr>used_pages := used_pages s - 1\<rparr>
              else s)"

definition pmm_get_total_pages :: "'a pmm_scheme \<Rightarrow> u64" where
  "pmm_get_total_pages s = total_pages s"

definition pmm_get_free_pages :: "'a pmm_scheme \<Rightarrow> u64" where
  "pmm_get_free_pages s = total_pages s - used_pages s"

definition pmm_get_used_pages :: "'a pmm_scheme \<Rightarrow> u64" where
  "pmm_get_used_pages s = used_pages s"

section \<open>One bit of the bitmap\<close>

text \<open>The byte of a page in a bitmap at \<open>b\<close>, and the position of its bit.\<close>

definition byte_addr :: "u64 \<Rightarrow> u64 \<Rightarrow> u64" where
  "byte_addr b page = b + page div 8"

definition bit_pos :: "u64 \<Rightarrow> nat" where
  "bit_pos page = unat page mod 8"

lemma bit_pos_less [simp]: "bit_pos page < 8"
  by (simp add: bit_pos_def)

lemma unat_page_to_bit: "unat (page_to_bit page) = bit_pos page"
proof -
  have "unat page mod 8 < 2 ^ 8"
    by (rule less_le_trans [of _ 8]) simp_all
  then show ?thesis
    by (simp add: page_to_bit_def PAGES_PER_BYTE_def bit_pos_def unsigned_ucast_eq
        take_bit_nat_eq_self unat_mod)
qed

lemma is_page_allocated_bit:
  "is_page_allocated page s \<longleftrightarrow> bit (mem s (byte_addr (page_bitmap s) page)) (bit_pos page)"
proof -
  have test: "(ucast w :: u32) AND push_bit n 1 \<noteq> 0 \<longleftrightarrow> bit w n" if "n < 8" for w :: u8 and n
    using that by (subst bit_iff_and_push_bit_not_eq_0 [symmetric]) (simp add: bit_ucast_iff)
  show ?thesis
    unfolding is_page_allocated_def Let_def unat_page_to_bit test [OF bit_pos_less]
    by (simp add: byte_addr_def page_to_byte_def PAGES_PER_BYTE_def)
qed

lemma set_page_allocated_bit:
  "set_page_allocated page s = s\<lparr>mem := (mem s)(byte_addr (page_bitmap s) page :=
     Bit_Operations.set_bit (bit_pos page) (mem s (byte_addr (page_bitmap s) page)))\<rparr>"
proof -
  have set: "ucast ((ucast w :: u32) OR push_bit n 1) = Bit_Operations.set_bit n w"
    if "n < 8" for w :: u8 and n
    using that by (intro bit_word_eqI) (auto simp: bit_simps)
  show ?thesis
    unfolding set_page_allocated_def Let_def unat_page_to_bit set [OF bit_pos_less]
    by (simp add: byte_addr_def page_to_byte_def PAGES_PER_BYTE_def)
qed

lemma set_page_free_bit:
  "set_page_free page s = s\<lparr>mem := (mem s)(byte_addr (page_bitmap s) page :=
     Bit_Operations.unset_bit (bit_pos page) (mem s (byte_addr (page_bitmap s) page)))\<rparr>"
proof -
  have unset: "ucast ((ucast w :: u32) AND NOT (push_bit n 1)) = Bit_Operations.unset_bit n w"
    if "n < 8" for w :: u8 and n
    using that by (intro bit_word_eqI) (auto simp: bit_simps)
  show ?thesis
    unfolding set_page_free_def Let_def unat_page_to_bit unset [OF bit_pos_less]
    by (simp add: byte_addr_def page_to_byte_def PAGES_PER_BYTE_def)
qed

text \<open>Distinct pages have distinct bits.\<close>

lemma byte_bit_inject:
  "byte_addr b p = byte_addr b q \<and> bit_pos p = bit_pos q \<longleftrightarrow> p = q"
proof -
  have "p = q" if "p div 8 = q div 8" "unat p mod 8 = unat q mod 8"
  proof -
    from that(1) have "unat (p div 8) = unat (q div 8)" by simp
    then have "unat p div 8 = unat q div 8" by (simp add: unat_div)
    with that(2) have "unat p = unat q" by (metis div_mult_mod_eq)
    then show ?thesis by (simp add: word_unat_eq_iff)
  qed
  then show ?thesis by (auto simp: byte_addr_def bit_pos_def)
qed

text \<open>
  The effect on the bits. None of these needs a bound: the bitmap may be anywhere
  and a page beyond its end still has a bit of its own.
\<close>

lemma is_page_allocated_update_mem_only:
  "mem t = mem s \<Longrightarrow> page_bitmap t = page_bitmap s \<Longrightarrow> is_page_allocated p t = is_page_allocated p s"
  by (simp add: is_page_allocated_bit)

lemma is_page_allocated_set [simp]:
  "is_page_allocated p (set_page_allocated q s) \<longleftrightarrow> p = q \<or> is_page_allocated p s"
  using byte_bit_inject [of "page_bitmap s" p q]
  by (auto simp: is_page_allocated_bit set_page_allocated_bit bit_set_bit_iff)

lemma is_page_allocated_free [simp]:
  "is_page_allocated p (set_page_free q s) \<longleftrightarrow> p \<noteq> q \<and> is_page_allocated p s"
  using byte_bit_inject [of "page_bitmap s" p q]
  by (auto simp: is_page_allocated_bit set_page_free_bit bit_unset_bit_iff)

lemma set_free_inverse:
  assumes "\<not> is_page_allocated p s"
  shows "set_page_free p (set_page_allocated p s) = s"
proof -
  let ?a = "byte_addr (page_bitmap s) p"
  have "unset_bit (bit_pos p) (set_bit (bit_pos p) (mem s ?a)) = mem s ?a"
    using assms by (intro bit_word_eqI)
      (auto simp: is_page_allocated_bit bit_set_bit_iff bit_unset_bit_iff)
  then show ?thesis
    by (simp add: set_page_free_bit set_page_allocated_bit)
qed

lemma set_page_fields [simp]:
  "page_bitmap (set_page_allocated p s) = page_bitmap s"
  "total_pages (set_page_allocated p s) = total_pages s"
  "used_pages (set_page_allocated p s) = used_pages s"
  "page_bitmap (set_page_free p s) = page_bitmap s"
  "total_pages (set_page_free p s) = total_pages s"
  "used_pages (set_page_free p s) = used_pages s"
  by (simp_all add: set_page_allocated_bit set_page_free_bit)

lemma is_page_allocated_used_pages [simp]:
  "is_page_allocated p (s\<lparr>used_pages := n\<rparr>) = is_page_allocated p s"
  by (simp add: is_page_allocated_bit)

section \<open>Allocation\<close>

text \<open>The set of allocated pages, by number.\<close>

definition allocated :: "'a pmm_scheme \<Rightarrow> u64 set" where
  "allocated s = {p. p < total_pages s \<and> is_page_allocated p s}"

definition mark_page :: "u64 \<Rightarrow> 'a pmm_scheme \<Rightarrow> 'a pmm_scheme" where
  "mark_page p s = (set_page_allocated p s)\<lparr>used_pages := used_pages s + 1\<rparr>"

lemma pmm_alloc_from_spec:
  assumes "page \<le> total_pages s" "\<forall>q < page. is_page_allocated q s"
  shows "(\<exists>p < total_pages s. \<not> is_page_allocated p s \<and> (\<forall>q < p. is_page_allocated q s)
             \<and> pmm_alloc_from page s = (p * PAGE_SIZE, mark_page p s))
       \<or> (\<forall>p < total_pages s. is_page_allocated p s) \<and> pmm_alloc_from page s = (0, s)"
  using assms
proof (induction page s rule: pmm_alloc_from.induct)
  case (1 page s)
  consider (none) "\<not> page < total_pages s"
    | (free) "page < total_pages s" "\<not> is_page_allocated page s"
    | (taken) "page < total_pages s" "is_page_allocated page s" by blast
  then show ?case
  proof cases
    case none
    with 1 have "page = total_pages s" by simp
    with 1 show ?thesis by (simp add: pmm_alloc_from.simps [of "total_pages s"])
  next
    case free
    with 1 have "pmm_alloc_from page s = (page * PAGE_SIZE, mark_page page s)"
      by (simp add: pmm_alloc_from.simps [of page] mark_page_def Let_def)
    with free 1 show ?thesis by blast
  next
    case taken
    have "q < page + 1 \<Longrightarrow> q = page \<or> q < page" for q
      by unat_arith
    with taken 1 have "\<forall>q < page + 1. is_page_allocated q s" by blast
    moreover have "page + 1 \<le> total_pages s"
      using taken(1) by (rule inc_le)
    ultimately show ?thesis
      using 1(1) taken by (simp add: pmm_alloc_from.simps [of page])
  qed
qed

lemma pmm_alloc_page_cases:
  obtains (page) p where "p < total_pages s" "\<not> is_page_allocated p s"
      "\<forall>q < p. is_page_allocated q s" "pmm_alloc_page s = (p * PAGE_SIZE, mark_page p s)"
  | (full) "\<forall>p < total_pages s. is_page_allocated p s" "pmm_alloc_page s = (0, s)"
proof -
  have "\<not> q < 0" for q :: u64 by simp
  then show ?thesis
    using pmm_alloc_from_spec [of 0 s] page full unfolding pmm_alloc_page_def by auto
qed

section \<open>The set of allocated pages\<close>

text \<open>
  The abstract allocator: on a set \<open>A\<close> of allocated pages out of \<open>n\<close>, a request
  takes the least page that is not in \<open>A\<close>.
\<close>

definition alloc_spec :: "u64 \<Rightarrow> u64 set \<Rightarrow> u64 option" where
  "alloc_spec n A = (if \<exists>p < n. p \<notin> A then Some (LEAST p. p < n \<and> p \<notin> A) else None)"

lemma alloc_spec_Some:
  "p < n \<Longrightarrow> p \<notin> A \<Longrightarrow> \<forall>q < p. q \<in> A \<Longrightarrow> alloc_spec n A = Some p"
  unfolding alloc_spec_def by (auto intro!: Least_equality leI)

lemma alloc_spec_None: "\<forall>p < n. p \<in> A \<Longrightarrow> alloc_spec n A = None"
  unfolding alloc_spec_def by auto

lemma finite_allocated [simp]: "finite (allocated s)"
  by simp

lemma allocated_mark_page: "p < total_pages s \<Longrightarrow> allocated (mark_page p s) = insert p (allocated s)"
  by (auto simp: allocated_def mark_page_def)

lemma mark_page_fields [simp]:
  "page_bitmap (mark_page p s) = page_bitmap s"
  "total_pages (mark_page p s) = total_pages s"
  "used_pages (mark_page p s) = used_pages s + 1"
  "is_page_allocated q (mark_page p s) \<longleftrightarrow> q = p \<or> is_page_allocated q s"
  by (simp_all add: mark_page_def)

lemma pmm_free_page_eq:
  "pmm_free_page a s =
     (if a div PAGE_SIZE \<in> allocated s
      then (set_page_free (a div PAGE_SIZE) s)\<lparr>used_pages := used_pages s - 1\<rparr> else s)"
  by (auto simp: pmm_free_page_def allocated_def Let_def)

lemma allocated_free_page: "allocated (pmm_free_page a s) = allocated s - {a div PAGE_SIZE}"
  by (auto simp: pmm_free_page_eq allocated_def)

lemma pmm_free_page_fields [simp]:
  "page_bitmap (pmm_free_page a s) = page_bitmap s"
  "total_pages (pmm_free_page a s) = total_pages s"
  by (simp_all add: pmm_free_page_eq)

section \<open>Page numbers and addresses\<close>

lemma unat_page_addr: "p < 2 ^ 52 \<Longrightarrow> unat (p * PAGE_SIZE) = unat p * 4096"
  unfolding PAGE_SIZE_def by (subst unat_mult_no_wrap) (simp_all add: word_less_nat_alt)

lemma page_addr_div: "p < 2 ^ 52 \<Longrightarrow> p * PAGE_SIZE div PAGE_SIZE = p"
  by (simp add: word_unat_eq_iff unat_div unat_page_addr) (simp add: PAGE_SIZE_def)

lemma page_addr_eq_0: "p < 2 ^ 52 \<Longrightarrow> p * PAGE_SIZE = 0 \<longleftrightarrow> p = 0"
  by (metis page_addr_div div_0 mult_zero_left)

section \<open>Reserved pages and the invariant\<close>

definition bitmap_pages :: "u64 \<Rightarrow> u64" where
  "bitmap_pages n = ((n + 7) div 8 + 4095) div 4096"

text \<open>
  The pages \<open>pmm_init\<close> marks: low memory and the kernel image, below 0x180, and
  the pages of the bitmap itself, from 0x140 on.
\<close>

definition reserved :: "u64 \<Rightarrow> u64 set" where
  "reserved n = {p. p < 0x180 \<or> 0x140 \<le> p \<and> p < 0x140 + bitmap_pages n}"

definition pmm_inv :: "'a pmm_scheme \<Rightarrow> bool" where
  "pmm_inv s \<longleftrightarrow> page_bitmap s = 0x140000 \<and> total_pages s \<le> 2 ^ 40 \<and>
     (\<forall>p \<in> reserved (total_pages s). p < total_pages s \<longrightarrow> is_page_allocated p s)"

lemma pmm_inv_page: "pmm_inv s \<Longrightarrow> p < total_pages s \<Longrightarrow> p < 2 ^ 52"
  unfolding pmm_inv_def by (auto elim!: less_le_trans intro: order_trans)

lemma zero_reserved: "0 \<in> reserved n"
  by (simp add: reserved_def)

text \<open>Under the invariant, a granted page is never 0, so the result 0 means that memory is full.\<close>

lemma pmm_alloc_inv_cases:
  assumes "pmm_inv s"
  obtains (granted) p where "p < total_pages s" "p \<notin> reserved (total_pages s)" "p \<notin> allocated s"
      "\<forall>q < p. q \<in> allocated s" "p * PAGE_SIZE \<noteq> 0" "pmm_alloc_page s = (p * PAGE_SIZE, mark_page p s)"
  | (refused) "\<forall>p < total_pages s. p \<in> allocated s" "pmm_alloc_page s = (0, s)"
proof (cases rule: pmm_alloc_page_cases [of s])
  case (page p)
  with assms have nres: "p \<notin> reserved (total_pages s)" by (auto simp: pmm_inv_def)
  then have "p \<noteq> 0" using zero_reserved by metis
  with page_addr_eq_0 [OF pmm_inv_page [OF assms page(1)]] have "p * PAGE_SIZE \<noteq> 0" by simp
  with page nres granted [of p] show ?thesis by (auto simp: allocated_def intro: less_trans)
next
  case full
  with refused show ?thesis by (simp add: allocated_def)
qed

lemma pmm_inv_mark_page: "pmm_inv s \<Longrightarrow> pmm_inv (mark_page p s)"
  by (simp add: pmm_inv_def)

lemma pmm_inv_free_page:
  "pmm_inv s \<Longrightarrow> a div PAGE_SIZE \<notin> reserved (total_pages s) \<Longrightarrow> pmm_inv (pmm_free_page a s)"
  by (auto simp: pmm_inv_def pmm_free_page_eq)

text \<open>The addresses handed out: the allocated pages that are not reserved.\<close>

definition handed_out :: "'a pmm_scheme \<Rightarrow> u64 set" where
  "handed_out s = (\<lambda>p. p * PAGE_SIZE) ` (allocated s - reserved (total_pages s))"

lemma handed_outE:
  assumes "pmm_inv s" "a \<in> handed_out s"
  obtains p where "p \<in> allocated s" "p \<notin> reserved (total_pages s)" "a = p * PAGE_SIZE"
    "a div PAGE_SIZE = p"
  using assms page_addr_div pmm_inv_page unfolding handed_out_def allocated_def by blast

lemma page_addr_inject:
  "p < 2 ^ 52 \<Longrightarrow> q < 2 ^ 52 \<Longrightarrow> p * PAGE_SIZE = q * PAGE_SIZE \<longleftrightarrow> p = q"
  by (metis page_addr_div)

lemma handed_out_mark_page:
  "p < total_pages s \<Longrightarrow> p \<notin> reserved (total_pages s) \<Longrightarrow>
   handed_out (mark_page p s) = insert (p * PAGE_SIZE) (handed_out s)"
  by (auto simp: handed_out_def allocated_mark_page)

lemma handed_out_free_page:
  assumes "pmm_inv s" "a \<in> handed_out s"
  shows "handed_out (pmm_free_page a s) = handed_out s - {a}"
proof -
  from handed_outE [OF assms] obtain p where p: "p \<in> allocated s" "a = p * PAGE_SIZE" "a div PAGE_SIZE = p"
    by metis
  have "q * PAGE_SIZE = a \<longleftrightarrow> q = p" if "q \<in> allocated s" for q
    using that p assms(1) page_addr_inject pmm_inv_page unfolding allocated_def by blast
  with p show ?thesis
    by (auto simp: handed_out_def allocated_free_page)
qed

text \<open>The page allocator keeps the contract of an allocator.\<close>

definition pmm_request :: "unit \<Rightarrow> 'a pmm_scheme \<Rightarrow> (u64 \<times> 'a pmm_scheme) option" where
  "pmm_request u s = Some (pmm_alloc_page s)"

definition pmm_release :: "u64 \<Rightarrow> 'a pmm_scheme \<Rightarrow> 'a pmm_scheme option" where
  "pmm_release a s = Some (pmm_free_page a s)"

interpretation pages: allocator pmm_inv handed_out pmm_request pmm_release
proof unfold_locales
  fix s s' :: "'a pmm_scheme" and u p
  assume inv: "pmm_inv s"
  show "\<exists>p s'. pmm_request u s = Some (p, s')" by (simp add: pmm_request_def)
  show "\<exists>s'. pmm_release p s = Some s'" by (simp add: pmm_release_def)
  { assume "pmm_request u s = Some (p, s')"
    then have al: "pmm_alloc_page s = (p, s')" by (simp add: pmm_request_def)
    show "pmm_inv s'"
      using al inv by (cases rule: pmm_alloc_inv_cases [OF inv]) (auto simp: pmm_inv_mark_page)
    { assume "p \<noteq> 0"
      with al obtain q where q: "q < total_pages s" "q \<notin> reserved (total_pages s)" "q \<notin> allocated s"
          "p = q * PAGE_SIZE" "s' = mark_page q s"
        by (cases rule: pmm_alloc_inv_cases [OF inv]) auto
      then show "handed_out s' = insert p (handed_out s)" by (simp add: handed_out_mark_page)
      show "p \<notin> handed_out s"
        using q handed_outE [OF inv, of p] page_addr_div pmm_inv_page [OF inv] by metis } }
  { assume "pmm_request u s = Some (0, s')"
    then show "handed_out s' = handed_out s"
      by (cases rule: pmm_alloc_inv_cases [OF inv]) (auto simp: pmm_request_def) }
  { assume p: "p \<in> handed_out s" and "pmm_release p s = Some s'"
    then have s': "s' = pmm_free_page p s" by (simp add: pmm_release_def)
    show "pmm_inv s'"
      using handed_outE [OF inv p] pmm_inv_free_page [OF inv] s' by metis
    show "handed_out s' = handed_out s - {p}"
      using handed_out_free_page [OF inv p] s' by simp }
qed

section \<open>Counting\<close>

text \<open>
  The counter moves with the set: what \<open>used_pages\<close> is off by never changes
  after initialisation.
\<close>

definition drift :: "'a pmm_scheme \<Rightarrow> u64" where
  "drift s = used_pages s - of_nat (card (allocated s))"

lemma drift_mark_page:
  "p < total_pages s \<Longrightarrow> p \<notin> allocated s \<Longrightarrow> drift (mark_page p s) = drift s"
  by (simp add: drift_def allocated_mark_page)

lemma drift_free_page: "drift (pmm_free_page a s) = drift s"
proof (cases "a div PAGE_SIZE \<in> allocated s")
  case True
  then have "card (allocated s) = Suc (card (allocated (pmm_free_page a s)))"
    unfolding allocated_free_page by (rule card_Suc_Diff1 [OF finite_allocated, symmetric])
  with True show ?thesis by (simp add: drift_def pmm_free_page_eq)
next
  case False
  then show ?thesis by (simp add: pmm_free_page_eq)
qed

lemma drift_alloc_page: "drift (snd (pmm_alloc_page s)) = drift s"
  by (cases rule: pmm_alloc_page_cases [of s]) (auto simp: drift_mark_page allocated_def)

section \<open>Releasing what was just granted\<close>

lemma pmm_free_mark_page:
  assumes "p < total_pages s" "p < 2 ^ 52" "\<not> is_page_allocated p s"
  shows "pmm_free_page (p * PAGE_SIZE) (mark_page p s) = s"
proof -
  have "set_page_free p (mark_page p s) = (set_page_free p (set_page_allocated p s))\<lparr>used_pages := used_pages s + 1\<rparr>"
    by (simp add: set_page_free_bit mark_page_def set_page_allocated_bit)
  also have "\<dots> = s\<lparr>used_pages := used_pages s + 1\<rparr>"
    by (simp add: set_free_inverse assms(3))
  finally show ?thesis
    using assms by (simp add: pmm_free_page_eq page_addr_div allocated_def)
qed

section \<open>Frames\<close>

definition bitmap_end :: "u64 \<Rightarrow> nat" where
  "bitmap_end n = 0x140000 + (unat n + 7) div 8"

lemma unat_byte_addr:
  "unat (byte_addr 0x140000 p) = 0x140000 + unat p div 8"
proof -
  have "unat p div 8 < 2 ^ 61" by (rule less_mult_imp_div_less) simp
  then show ?thesis
    unfolding byte_addr_def by (subst unat_add_no_wrap) (simp_all add: unat_div)
qed

lemma byte_addr_in_bitmap:
  "p < n \<Longrightarrow> unat (byte_addr 0x140000 p) < bitmap_end n"
  unfolding bitmap_end_def unat_byte_addr word_less_nat_alt by simp

lemma set_page_only_changes:
  assumes "page_bitmap s = 0x140000" "p < n"
  shows "only_changes (mem s) (mem (set_page_allocated p s)) 0x140000 (bitmap_end n)"
    and "only_changes (mem s) (mem (set_page_free p s)) 0x140000 (bitmap_end n)"
  using assms byte_addr_in_bitmap [of p n] unfolding set_page_allocated_bit set_page_free_bit
  by (auto intro!: only_changes_mono [OF store8_only_changes] simp: unat_byte_addr)

lemma mark_page_only_changes:
  "page_bitmap s = 0x140000 \<Longrightarrow> p < n \<Longrightarrow>
   only_changes (mem s) (mem (mark_page p s)) 0x140000 (bitmap_end n)"
  unfolding mark_page_def by (simp add: set_page_only_changes)

lemma pmm_free_page_only_changes:
  "page_bitmap s = 0x140000 \<Longrightarrow>
   only_changes (mem s) (mem (pmm_free_page a s)) 0x140000 (bitmap_end (total_pages s))"
  by (auto simp: pmm_free_page_eq set_page_only_changes allocated_def)

lemma mark_page_mem:
  "mark_page p s = s\<lparr>mem := mem (mark_page p s), used_pages := used_pages s + 1\<rparr>"
  by (simp add: mark_page_def set_page_allocated_bit)

lemma pmm_free_page_mem:
  "pmm_free_page a s = s\<lparr>mem := mem (pmm_free_page a s), used_pages := used_pages (pmm_free_page a s)\<rparr>"
  by (cases s) (simp add: pmm_free_page_eq set_page_free_bit)

text \<open>A change that stays clear of the bitmap changes no page's state.\<close>

lemma is_page_allocated_frame:
  assumes "only_changes (mem s) (mem s') lo hi" "bitmap_end n \<le> lo \<or> hi \<le> 0x140000"
    and "page_bitmap s = 0x140000" "page_bitmap s' = 0x140000" "p < n"
  shows "is_page_allocated p s' = is_page_allocated p s"
proof -
  let ?a = "byte_addr 0x140000 p"
  have "0x140000 \<le> unat ?a" by (simp add: unat_byte_addr)
  with byte_addr_in_bitmap [OF assms(5)] assms(2) have "unat ?a < lo \<or> hi \<le> unat ?a" by auto
  with only_changesD [OF assms(1)] have "mem s' ?a = mem s ?a" by blast
  with assms(3,4) show ?thesis by (simp add: is_page_allocated_bit)
qed

lemma allocated_frame:
  assumes "only_changes (mem s) (mem s') lo hi" "bitmap_end (total_pages s) \<le> lo \<or> hi \<le> 0x140000"
    and "page_bitmap s = 0x140000" "page_bitmap s' = 0x140000" "total_pages s' = total_pages s"
  shows "allocated s' = allocated s"
  using is_page_allocated_frame [OF assms(1-4)] assms(5) by (auto simp: allocated_def)

lemma pmm_inv_allocated:
  "pmm_inv s \<longleftrightarrow> page_bitmap s = 0x140000 \<and> total_pages s \<le> 2 ^ 40 \<and>
     (\<forall>p \<in> reserved (total_pages s). p < total_pages s \<longrightarrow> p \<in> allocated s)"
  by (auto simp: pmm_inv_def allocated_def)

section \<open>Initialisation\<close>

text \<open>Clearing the bitmap.\<close>

lemma zero_bitmap:
  assumes "page_bitmap s = b" "unat b + n \<le> 2 ^ 64"
  shows "\<exists>m. fold (\<lambda>k. clear_bitmap_byte (of_nat k)) [0..<n] s = s\<lparr>mem := m\<rparr>
    \<and> only_changes (mem s) m (unat b) (unat b + n) \<and> (\<forall>k < n. m (b + of_nat k) = 0)"
  using assms(2)
proof (induction n)
  case 0
  then show ?case by (intro exI [of _ "mem s"]) simp
next
  case (Suc n)
  then obtain m where m: "fold (\<lambda>k. clear_bitmap_byte (of_nat k)) [0..<n] s = s\<lparr>mem := m\<rparr>"
      "only_changes (mem s) m (unat b) (unat b + n)" "\<forall>k < n. m (b + of_nat k) = 0"
    by auto
  have a: "unat (b + of_nat n) = unat b + n"
    using Suc.prems by (intro unat_add_of_nat) simp
  have "only_changes (mem s) m (unat b) (unat b + Suc n)"
    using m(2) by (rule only_changes_mono) simp_all
  moreover have "only_changes m (m(b + of_nat n := 0)) (unat b) (unat b + Suc n)"
    by (rule only_changes_mono [OF store8_only_changes]) (simp_all add: a)
  ultimately have "only_changes (mem s) (m(b + of_nat n := 0)) (unat b) (unat b + Suc n)"
    by (rule only_changes_trans)
  moreover have "fold (\<lambda>k. clear_bitmap_byte (of_nat k)) [0..<Suc n] s = s\<lparr>mem := m(b + of_nat n := 0)\<rparr>"
    by (simp add: m(1)) (simp add: clear_bitmap_byte_def assms(1))
  moreover have "\<forall>k < Suc n. (m(b + of_nat n := 0)) (b + of_nat k) = 0"
    using m(3) by (simp add: less_Suc_eq)
  ultimately show ?case by blast
qed

text \<open>Marking a list of pages.\<close>

lemma reserve_page_mark: "reserve_page = mark_page"
  by (intro ext) (simp add: reserve_page_def mark_page_def Let_def)

lemma reserve_pages:
  assumes "page_bitmap s = 0x140000" "\<forall>p \<in> set ps. p < n"
  shows "\<exists>m. fold mark_page ps s = s\<lparr>mem := m, used_pages := used_pages s + of_nat (length ps)\<rparr>
    \<and> only_changes (mem s) m 0x140000 (bitmap_end n)
    \<and> (\<forall>p. is_page_allocated p (fold mark_page ps s) \<longleftrightarrow> p \<in> set ps \<or> is_page_allocated p s)"
  using assms
proof (induction ps arbitrary: s)
  case Nil
  then show ?case by (intro exI [of _ "mem s"]) simp
next
  case (Cons p ps)
  let ?s = "mark_page p s"
  from Cons.IH [of ?s] Cons.prems obtain m where
    m: "fold mark_page ps ?s = ?s\<lparr>mem := m, used_pages := used_pages ?s + of_nat (length ps)\<rparr>"
      "only_changes (mem ?s) m 0x140000 (bitmap_end n)"
      "\<forall>q. is_page_allocated q (fold mark_page ps ?s) \<longleftrightarrow> q \<in> set ps \<or> is_page_allocated q ?s"
    by auto
  have "?s\<lparr>mem := m, used_pages := k\<rparr> = s\<lparr>mem := m, used_pages := k\<rparr>" for k
    by (simp add: mark_page_def set_page_allocated_bit)
  moreover have "only_changes (mem s) m 0x140000 (bitmap_end n)"
    using mark_page_only_changes m(2) Cons.prems by (fastforce intro: only_changes_trans)
  ultimately show ?case
    using m by (intro exI [of _ m]) (auto simp: algebra_simps)
qed

lemma set_word_upt: "hi \<le> 2 ^ 64 \<Longrightarrow>
   (p :: u64) \<in> set (map of_nat [lo..<hi]) \<longleftrightarrow> lo \<le> unat p \<and> unat p < hi"
proof -
  assume "hi \<le> 2 ^ 64"
  then have "p = of_nat k \<longleftrightarrow> unat p = k" if "k < hi" for k
    using that by (auto simp: word_unat_eq_iff)
  then show ?thesis by (auto simp: image_iff)
qed

definition init_pages :: "u64 \<Rightarrow> u64 list" where
  "init_pages n = map of_nat ([0..<0x100] @ [0x100..<0x180] @ [0x140..<0x140 + unat (bitmap_pages n)])"

lemma unat_bitmap_pages:
  "n < 2 ^ 52 \<Longrightarrow> unat (bitmap_pages n) = ((unat n + 7) div 8 + 4095) div 4096"
proof -
  assume n: "n < 2 ^ 52"
  then have "unat n < 2 ^ 52" by (simp add: word_less_nat_alt)
  then have 1: "unat ((n + 7) div 8) = (unat n + 7) div 8"
    by (simp add: unat_div unat_add_no_wrap)
  have "(unat n + 7) div 8 + 4095 < 2 ^ 64"
    using \<open>unat n < 2 ^ 52\<close> by simp
  with 1 show ?thesis
    by (simp add: bitmap_pages_def unat_div unat_add_no_wrap)
qed

lemma bitmap_pages_bound:
  assumes "n < 2 ^ 52"
  shows "unat (bitmap_pages n) < 2 ^ 60"
    and "unat (0x140 + bitmap_pages n) = 0x140 + unat (bitmap_pages n)"
proof -
  from assms have "unat n < 2 ^ 52" by (simp add: word_less_nat_alt)
  then show b: "unat (bitmap_pages n) < 2 ^ 60" by (simp add: unat_bitmap_pages [OF assms])
  then show "unat (0x140 + bitmap_pages n) = 0x140 + unat (bitmap_pages n)"
    by (simp add: unat_add_no_wrap)
qed

text \<open>
  The reserved pages are an initial segment: the bitmap's pages start inside
  the area already reserved for the kernel image.
\<close>

definition reserved_end :: "u64 \<Rightarrow> u64" where
  "reserved_end n = max 0x180 (0x140 + bitmap_pages n)"

lemma unat_reserved_end:
  assumes "n < 2 ^ 52"
  shows "unat (reserved_end n) = max 0x180 (0x140 + unat (bitmap_pages n))"
  using bitmap_pages_bound [OF assms] by (simp add: reserved_end_def max_def word_le_nat_alt)

lemma reserved_segment:
  assumes "n < 2 ^ 52"
  shows "reserved n = {p. p < reserved_end n}"
  using bitmap_pages_bound [OF assms]
  by (auto simp: reserved_def word_less_nat_alt word_le_nat_alt unat_reserved_end [OF assms])

lemma reserved_end_le:
  assumes "n < 2 ^ 52" "0x180 \<le> n"
  shows "reserved_end n \<le> n"
proof -
  from assms(2) have "0x180 \<le> unat n" by (simp add: word_le_nat_alt)
  then have "0x140 + ((unat n + 7) div 8 + 4095) div 4096 \<le> unat n" by arith
  with \<open>0x180 \<le> unat n\<close> show ?thesis
    by (simp add: word_le_nat_alt unat_reserved_end [OF assms(1)] unat_bitmap_pages [OF assms(1)])
qed

lemma set_init_pages:
  assumes "n < 2 ^ 52"
  shows "set (init_pages n) = reserved n"
proof -
  have hi: "0x140 + unat (bitmap_pages n) \<le> 2 ^ 64" using bitmap_pages_bound [OF assms] by simp
  have "p \<in> set (init_pages n) \<longleftrightarrow> unat p < unat (reserved_end n)" for p
    unfolding init_pages_def map_append set_append Un_iff set_word_upt [OF hi]
      unat_reserved_end [OF assms]
    using set_word_upt [where p = p and lo = 0 and hi = "0x100"] set_word_upt [where p = p and lo = "0x100" and hi = "0x180"]
    by (auto simp del: set_map upt_rec_numeral)
  then show ?thesis
    by (auto simp: reserved_segment [OF assms] word_less_nat_alt)
qed

lemma card_segment: "card {p. p < (k :: u64)} = unat k"
proof -
  have "{p. p < k} = of_nat ` {..<unat k}"
    using set_word_upt [of "unat k" _ 0] less_imp_le [OF unsigned_less [of k]]
    by (auto simp: word_less_nat_alt lessThan_atLeast0)
  moreover have "x < 2 ^ 64" if "x < unat k" for x
    using less_trans [OF that unsigned_less] by simp
  then have "inj_on (of_nat :: nat \<Rightarrow> u64) {..<unat k}"
    by (intro inj_on_inverseI [of _ unat]) simp
  ultimately show ?thesis by (simp add: card_image)
qed

text \<open>The loops of \<open>pmm_init\<close> together, before the message is sent.\<close>

definition pmm_cleared :: "u64 \<Rightarrow> 'a pmm_scheme \<Rightarrow> 'a pmm_scheme" where
  "pmm_cleared n s =
     for_loop 0 ((n + 7) div 8) clear_bitmap_byte (s\<lparr>total_pages := n, page_bitmap := 0x140000\<rparr>)"

definition init_message :: cstring where
  "init_message = cstr (''[PMM] Physical Memory Manager initialized'' @ [CHR 0x0A])"

lemma pmm_init_fold:
  assumes "n = total_memory div PAGE_SIZE" "n < 2 ^ 52"
  shows "pmm_init total_memory s =
    serial_writestring init_message (fold mark_page (init_pages n) (pmm_cleared n s))"
proof -
  note bitmap_pages_bound(2) [OF assms(2)]
  moreover have "(n + 8 - 1) div 8 = (n + 7) div 8" "((n + 7) div 8 + 4096 - 1) div 4096 = bitmap_pages n"
    by (simp_all add: bitmap_pages_def add.commute)
  moreover have "total_memory div 4096 = n" by (simp add: assms(1) PAGE_SIZE_def)
  ultimately show ?thesis
    by (simp add: pmm_init_def for_loop_fold [of _ _ mark_page] Let_def
        PAGE_SIZE_def PAGES_PER_BYTE_def pmm_cleared_def init_pages_def init_message_def
        reserve_page_mark fold_map comp_def del: upt_rec_numeral)
qed

lemma pmm_cleared_result:
  assumes "n < 2 ^ 52"
  shows "\<exists>m. pmm_cleared n s = s\<lparr>mem := m, total_pages := n, page_bitmap := 0x140000\<rparr>
    \<and> only_changes (mem s) m 0x140000 (bitmap_end n)
    \<and> (\<forall>p < n. \<not> is_page_allocated p (pmm_cleared n s))"
proof -
  let ?s = "s\<lparr>total_pages := n, page_bitmap := 0x140000\<rparr>" and ?b = "0x140000 :: u64"
  have n: "unat n < 2 ^ 52" using assms by (simp add: word_less_nat_alt)
  then have size: "unat ((n + 7) div 8) = (unat n + 7) div 8"
    by (simp add: unat_div unat_add_no_wrap)
  have "(unat n + 7) div 8 < 2 ^ 60" by (rule less_mult_imp_div_less) (use n in simp)
  then obtain m where m: "pmm_cleared n s = ?s\<lparr>mem := m\<rparr>"
      "only_changes (mem s) m 0x140000 (bitmap_end n)" "\<forall>k < (unat n + 7) div 8. m (?b + of_nat k) = 0"
    using zero_bitmap [of ?s ?b "(unat n + 7) div 8"]
    by (auto simp: pmm_cleared_def for_loop_fold size bitmap_end_def)
  have "\<not> is_page_allocated p (pmm_cleared n s)" if "p < n" for p
  proof -
    have "unat p div 8 < (unat n + 7) div 8" using that by (simp add: word_less_nat_alt)
    then have "byte_addr ?b p = ?b + of_nat (unat p div 8)"
      using \<open>(unat n + 7) div 8 < 2 ^ 60\<close>
      by (simp add: word_unat_eq_iff unat_byte_addr unat_add_of_nat)
    with m(3) \<open>unat p div 8 < (unat n + 7) div 8\<close> have "m (byte_addr ?b p) = 0" by simp
    with m(1) show ?thesis by (simp add: is_page_allocated_bit)
  qed
  with m show ?thesis by (intro exI [of _ m]) simp
qed

lemma pmm_init_result:
  assumes "uart_live s" "n = total_memory div PAGE_SIZE" "0x180 \<le> n"
  obtains m s1 s' where "pmm_init total_memory s = Some s'"
    "s1 = s\<lparr>mem := m, total_pages := n, page_bitmap := 0x140000,
            used_pages := used_pages s + (0x180 + bitmap_pages n)\<rparr>"
    "sends (crlf (content init_message)) s1 s'"
    "only_changes (mem s) m 0x140000 (bitmap_end n)"
    "allocated s' = {p. p < reserved_end n}"
proof -
  have n: "n < 2 ^ 52"
    by (simp add: assms(2) PAGE_SIZE_def word_less_nat_alt unat_div)
      (rule less_mult_imp_div_less, simp)
  let ?c = "pmm_cleared n s"
  from pmm_cleared_result [OF n] obtain m0 where
    c: "?c = s\<lparr>mem := m0, total_pages := n, page_bitmap := 0x140000\<rparr>"
      "only_changes (mem s) m0 0x140000 (bitmap_end n)" "\<forall>p < n. \<not> is_page_allocated p ?c"
    by blast
  have pages: "\<forall>p \<in> set (init_pages n). p < n"
    using reserved_end_le [OF n assms(3)] by (auto simp: set_init_pages [OF n] reserved_segment [OF n])
  let ?s = "fold mark_page (init_pages n) ?c"
  have "page_bitmap ?c = 0x140000" using c(1) by simp
  from reserve_pages [OF this pages] obtain m where
    m: "?s = ?c\<lparr>mem := m, used_pages := used_pages ?c + of_nat (length (init_pages n))\<rparr>"
      "only_changes (mem ?c) m 0x140000 (bitmap_end n)"
      "\<forall>p. is_page_allocated p ?s \<longleftrightarrow> p \<in> set (init_pages n) \<or> is_page_allocated p ?c"
    by blast
  have len: "of_nat (length (init_pages n)) = 0x180 + bitmap_pages n"
    by (simp add: init_pages_def del: upt_rec_numeral)
  let ?s1 = "s\<lparr>mem := m, total_pages := n, page_bitmap := 0x140000,
            used_pages := used_pages s + (0x180 + bitmap_pages n)\<rparr>"
  have s1: "?s = ?s1" using m(1) c(1) len by simp
  have "uart_live ?s1" using assms(1) by (simp add: uart_live_def)
  moreover have "terminated init_message" by (simp add: init_message_def terminated_cstr)
  ultimately obtain s' where s': "serial_writestring init_message ?s1 = Some s'"
      "sends (crlf (content init_message)) ?s1 s'"
    using serial_writestring_sends by blast
  have "only_changes (mem s) m 0x140000 (bitmap_end n)"
    using only_changes_trans [OF c(2)] m(2) c(1) by simp
  moreover have "allocated s' = {p. p < reserved_end n}"
  proof -
    have "allocated s' = allocated ?s1"
      using s'(2) by (auto simp: sends_def allocated_def is_page_allocated_bit)
    also have "\<dots> = {p. p < n \<and> p \<in> reserved n}"
      using m(3) c(3) unfolding s1 by (auto simp: allocated_def set_init_pages [OF n])
    also have "\<dots> = {p. p < reserved_end n}"
      using reserved_end_le [OF n assms(3)] by (auto simp: reserved_segment [OF n])
    finally show ?thesis .
  qed
  ultimately show thesis
    using that [of s' ?s1 m] s' by (simp add: pmm_init_fold [OF assms(2) n] s1)
qed

section \<open>Properties\<close>

text \<open>
  A small machine for the examples: 4096 pages of which the first 0x180 are marked.
\<close>

definition example_pmm :: pmm where
  "example_pmm = \<lparr>mem = \<lambda>x. if 0x140000 \<le> unat x \<and> unat x < 0x140030 then 0xFF else 0, lsr = \<lambda>_. 0x20, lsr_reads = 0,
     ports = [], cr3 = 0, invlpgs = [], terminal_row = 0, terminal_column = 0, terminal_color = 0,
     terminal_buffer = 0xB8000, page_bitmap = 0x140000, total_pages = 0x1000, used_pages = 0x180\<rparr>"

lemma example_pmm_allocated: "allocated example_pmm = {p. p < 0x180}"
proof -
  have "is_page_allocated p example_pmm \<longleftrightarrow> unat p < 0x180" for p
  proof -
    have "(0xFF :: u8) = mask 8" by (simp add: mask_eq_exp_minus_1)
    then have "bit (0xFF :: u8) (bit_pos p)" by (simp only: bit_mask_iff bit_pos_less) simp
    moreover have "0x140000 + unat p div 8 < 0x140030 \<longleftrightarrow> unat p < 0x180" by arith
    ultimately show ?thesis
      unfolding is_page_allocated_bit by (simp add: example_pmm_def unat_byte_addr)
  qed
  then show ?thesis
    by (auto simp: allocated_def word_less_nat_alt) (simp add: example_pmm_def)
qed

lemma example_pmm_fields:
  "total_pages example_pmm = 0x1000" "used_pages example_pmm = 0x180" "page_bitmap example_pmm = 0x140000"
  "uart_live example_pmm"
  by (auto simp: example_pmm_def uart_live_def)

lemma example_pmm_reserved: "reserved 0x1000 = {p. p < 0x180}"
  by (subst reserved_segment) (simp_all add: reserved_end_def bitmap_pages_def)

lemma example_pmm_inv: "pmm_inv example_pmm" "handed_out example_pmm = {}"
  by (simp_all add: pmm_inv_allocated handed_out_def example_pmm_fields example_pmm_reserved example_pmm_allocated)

lemma example_pmm_alloc: "pmm_alloc_page example_pmm = (0x180000, mark_page 0x180 example_pmm)"
  using example_pmm_inv(1)
proof (cases rule: pmm_alloc_inv_cases)
  case (granted p)
  have "\<not> 0x180 < p" using granted(4) by (auto simp: example_pmm_allocated)
  moreover have "\<not> p < 0x180" using granted(3) by (simp add: example_pmm_allocated)
  ultimately have "p = 0x180" by simp
  with granted(6) show ?thesis by (simp add: PAGE_SIZE_def)
next
  case refused
  have "0x200 \<in> allocated example_pmm" using refused(1) by (simp add: example_pmm_fields)
  then show ?thesis by (simp add: example_pmm_allocated)
qed

text \<open>
  C18: \<open>pmm_alloc_page\<close> is first fit on the set of allocated pages: it takes the least page
  that is not allocated and returns its address, or returns 0 and changes nothing when
  every page is allocated.
\<close>

theorem pmm_alloc_first_fit:
  "case alloc_spec (total_pages s) (allocated s) of
     None \<Rightarrow> pmm_alloc_page s = (0, s)
   | Some p \<Rightarrow> fst (pmm_alloc_page s) = p * PAGE_SIZE \<and>
       allocated (snd (pmm_alloc_page s)) = insert p (allocated s) \<and> p \<notin> allocated s \<and>
       used_pages (snd (pmm_alloc_page s)) = used_pages s + 1"
proof (cases rule: pmm_alloc_page_cases [of s])
  case (page p)
  have "\<forall>q < p. q \<in> allocated s" using page(1,3) by (auto simp: allocated_def intro: less_trans)
  moreover have "p \<notin> allocated s" using page(2) by (simp add: allocated_def)
  ultimately have "alloc_spec (total_pages s) (allocated s) = Some p"
    using page(1) by (intro alloc_spec_Some)
  then show ?thesis
    using page \<open>p \<notin> allocated s\<close> by (simp add: allocated_mark_page)
next
  case full
  then have "alloc_spec (total_pages s) (allocated s) = None"
    by (intro alloc_spec_None) (simp add: allocated_def)
  with full show ?thesis by simp
qed

text \<open>
  \<open>pmm_free_page\<close> removes exactly the page of the address from the set of allocated
  pages and counts it, for an address beyond the memory or of a free page it changes
  nothing, and it writes only inside the bitmap.
\<close>

lemma pmm_free_removes:
  "allocated (pmm_free_page a s) = allocated s - {a div PAGE_SIZE} \<and>
   used_pages (pmm_free_page a s) = used_pages s - of_bool (a div PAGE_SIZE \<in> allocated s) \<and>
   (a div PAGE_SIZE \<in> allocated s \<or> pmm_free_page a s = s) \<and>
   (page_bitmap s \<noteq> 0x140000 \<or>
    only_changes (mem s) (mem (pmm_free_page a s)) 0x140000 (0x140000 + (unat (total_pages s) + 7) div 8))"
proof (intro conjI)
  show "allocated (pmm_free_page a s) = allocated s - {a div PAGE_SIZE}" by (rule allocated_free_page)
qed (use pmm_free_page_only_changes [of s a] in \<open>auto simp: pmm_free_page_eq bitmap_end_def\<close>)

lemma pmm_free_removes_witness:
  "allocated (pmm_free_page 0x17F123 example_pmm) = {p. p < 0x17F} \<and>
   only_changes (mem example_pmm) (mem (pmm_free_page 0x17F123 example_pmm)) 0x140000 0x140200"
proof -
  have "{p :: u64. p < 0x180} - {0x17F} = {p. p < 0x17F}"
    by (auto simp: word_less_nat_alt word_unat_eq_iff)
  then show ?thesis
    using pmm_free_removes [of "0x17F123" example_pmm]
    by (simp add: example_pmm_fields example_pmm_allocated PAGE_SIZE_def)
qed

text \<open>
  Releasing a page that was just granted restores the whole state, bitmap and count.
\<close>

lemma pmm_alloc_free_restores:
  assumes "pmm_inv s" "pmm_alloc_page s = (a, s')" "a \<noteq> 0"
  shows "pmm_free_page a s' = s"
  using assms(1)
proof (cases rule: pmm_alloc_inv_cases)
  case (granted p)
  then show ?thesis
    using assms pmm_inv_page [OF assms(1) granted(1)] pmm_free_mark_page [of p s]
    by (auto simp: allocated_def)
next
  case refused
  with assms show ?thesis by simp
qed

lemma pmm_alloc_free_restores_witness:
  "pmm_free_page 0x180000 (snd (pmm_alloc_page example_pmm)) = example_pmm"
  using pmm_alloc_free_restores [OF example_pmm_inv(1) example_pmm_alloc]
  by (simp add: example_pmm_alloc)

text \<open>
  C19: In any sequence of page requests and releases by a client that releases only what
  it holds, the allocator's invariant holds, a granted page is one the client does not hold,
  is not 0 and is not a reserved page, and the pages handed out are exactly those the client
  holds.
\<close>

theorem pages_grants_fresh:
  assumes "client_reach pmm_request pmm_release s0 (s, H)" "pmm_inv s0" "handed_out s0 = {}"
  shows "pmm_inv s \<and> handed_out s = H \<and> (fst (pmm_alloc_page s) \<noteq> 0 \<longrightarrow>
    fst (pmm_alloc_page s) \<notin> H \<and> fst (pmm_alloc_page s) div PAGE_SIZE \<notin> reserved (total_pages s))"
proof -
  have inv: "pmm_inv s" and H: "handed_out s = H"
    using pages.reach_exact [OF assms] by simp_all
  have "fst (pmm_alloc_page s) \<notin> H" if "fst (pmm_alloc_page s) \<noteq> 0"
    by (rule pages.grant_is_fresh [OF assms, of "()" _ "snd (pmm_alloc_page s)"])
      (use that in \<open>simp_all add: pmm_request_def\<close>)
  moreover have "fst (pmm_alloc_page s) div PAGE_SIZE \<notin> reserved (total_pages s)"
    if "fst (pmm_alloc_page s) \<noteq> 0"
    using inv that
    by (cases rule: pmm_alloc_inv_cases) (auto simp: page_addr_div [OF pmm_inv_page [OF inv]])
  ultimately show ?thesis using inv H by simp
qed

theorem pages_grants_fresh_witness:
  "fst (pmm_alloc_page (mark_page 0x180 example_pmm)) \<noteq> 0x180000"
proof -
  have "client_step pmm_request pmm_release (example_pmm, {}) (mark_page 0x180 example_pmm, {0x180000})"
    by (rule client_step.granted [where r = "()"]) (simp_all add: pmm_request_def example_pmm_alloc)
  then have "client_reach pmm_request pmm_release example_pmm (mark_page 0x180 example_pmm, {0x180000})"
    by (rule client_reach.step [OF client_reach.start])
  from pages_grants_fresh [OF this example_pmm_inv] show ?thesis by force
qed

lemma pmm_inv_init:
  assumes "page_bitmap s = 0x140000" "total_pages s < 2 ^ 40" "0x180 \<le> total_pages s"
    "allocated s = {p. p < reserved_end (total_pages s)}"
  shows "pmm_inv s"
proof -
  have "total_pages s < 2 ^ 52" by (rule less_trans [OF assms(2)]) simp
  with assms show ?thesis by (auto simp: pmm_inv_allocated reserved_segment)
qed

text \<open>
  C17: \<open>pmm_init\<close> with a live UART and between 0x180 and \<open>2 ^ 40\<close> pages returns with the
  invariant: the allocated pages are the low megabyte, the kernel image and the bitmap,
  everything else is free, and no memory outside the bitmap is written.
\<close>

theorem pmm_init_reserves:
  assumes "uart_live s" "0x180000 \<le> total_memory" "total_memory < 2 ^ 52"
  shows "\<exists>s'. pmm_init total_memory s = Some s' \<and> pmm_inv s' \<and> handed_out s' = {} \<and>
    total_pages s' = total_memory div 4096 \<and> allocated s' = reserved (total_pages s') \<and>
    only_changes (mem s) (mem s') 0x140000 (bitmap_end (total_memory div 4096))"
proof -
  let ?n = "total_memory div PAGE_SIZE"
  have "unat total_memory div 4096 < 2 ^ 40"
    using assms(3) by (simp add: word_less_nat_alt less_mult_imp_div_less)
  then have n: "0x180 \<le> ?n" "?n < 2 ^ 40"
    using assms(2) by (simp_all add: PAGE_SIZE_def word_le_nat_alt word_less_nat_alt unat_div)
  show ?thesis
  proof (rule pmm_init_result [OF assms(1) refl n(1)])
    fix m s1 s'
    assume r: "pmm_init total_memory s = Some s'"
      "s1 = s\<lparr>mem := m, total_pages := ?n, page_bitmap := 0x140000,
            used_pages := used_pages s + (0x180 + bitmap_pages ?n)\<rparr>"
      "sends (crlf (content init_message)) s1 s'" "only_changes (mem s) m 0x140000 (bitmap_end ?n)"
      "allocated s' = {p. p < reserved_end ?n}"
    have f: "total_pages s' = ?n" "page_bitmap s' = 0x140000" "mem s' = m"
      using r(2,3) by (auto simp: sends_def)
    have inv: "pmm_inv s'" by (rule pmm_inv_init; (simp only: f n r(5))?)
    have "?n < 2 ^ 52" by (rule less_trans [OF n(2)]) simp
    then have res: "allocated s' = reserved ?n" by (simp add: r(5) reserved_segment)
    with r inv show ?thesis by (simp add: f handed_out_def) (simp add: PAGE_SIZE_def)
  qed
qed

theorem pmm_init_reserves_witness:
  "\<exists>s'. pmm_init 0x1000000 example_pmm = Some s' \<and> allocated s' = {p. p < 0x180}"
  using pmm_init_reserves [OF example_pmm_fields(4), of "0x1000000"]
  by (auto simp: example_pmm_reserved)

text \<open>
  Initialised with 4 GiB, as the kernel does, \<open>pmm_init\<close> counts 416 used pages although
  384 are allocated: the 32 pages of the bitmap lie inside the area reserved for the
  kernel and are counted twice, so the reported number of free pages is 32 too low.
\<close>

lemma pmm_init_counts_bitmap_twice:
  assumes "uart_live s" "used_pages s = 0"
  shows "\<exists>s'. pmm_init 0x100000000 s = Some s' \<and> card (allocated s') = 384 \<and>
    pmm_get_used_pages s' = 416 \<and> pmm_get_total_pages s' = 0x100000 \<and>
    pmm_get_free_pages s' = 1048160 \<and> card {p. p < total_pages s' \<and> p \<notin> allocated s'} = 1048192"
proof (rule pmm_init_result [OF assms(1) refl])
  let ?n = "0x100000000 div PAGE_SIZE"
  have n: "?n = 0x100000" "bitmap_pages ?n = 32" "reserved_end ?n = 0x180"
    by (simp_all add: PAGE_SIZE_def bitmap_pages_def reserved_end_def)
  then show "0x180 \<le> ?n" by simp
  fix m s1 s'
  assume r: "pmm_init 0x100000000 s = Some s'"
    "s1 = s\<lparr>mem := m, total_pages := ?n, page_bitmap := 0x140000,
            used_pages := used_pages s + (0x180 + bitmap_pages ?n)\<rparr>"
    "sends (crlf (content init_message)) s1 s'" "allocated s' = {p. p < reserved_end ?n}"
  have f: "total_pages s' = 0x100000" "used_pages s' = 416"
    using r(2,3) assms(2) n by (auto simp: sends_def)
  have alloc: "allocated s' = {p. p < 0x180}" using r(4) n by simp
  have "{p. p < total_pages s' \<and> p \<notin> allocated s'} = {p. p < 0x100000} - {p. p < 0x180}"
    by (auto simp: f alloc)
  also have "card \<dots> = card {p. p < (0x100000 :: u64)} - card {p. p < (0x180 :: u64)}"
    by (rule card_Diff_subset) (auto intro: less_trans)
  finally show ?thesis
    using r(1) f alloc card_segment [of "0x180"] card_segment [of "0x100000"]
    by (simp add: pmm_get_used_pages_def pmm_get_total_pages_def pmm_get_free_pages_def)
qed

lemma pmm_init_counts_bitmap_twice_witness:
  "\<exists>s'. pmm_init 0x100000000 (example_pmm\<lparr>used_pages := 0\<rparr>) = Some s' \<and> pmm_get_used_pages s' = 416"
  using pmm_init_counts_bitmap_twice [of "example_pmm\<lparr>used_pages := 0\<rparr>"]
  by (auto simp: example_pmm_def uart_live_def)

text \<open>
  After initialisation the error of the page count never changes: both operations move
  the counter exactly with the set of allocated pages.
\<close>

lemma page_count_drift:
  "used_pages (snd (pmm_alloc_page s)) - of_nat (card (allocated (snd (pmm_alloc_page s)))) =
     used_pages s - of_nat (card (allocated s)) \<and>
   used_pages (pmm_free_page a s) - of_nat (card (allocated (pmm_free_page a s))) =
     used_pages s - of_nat (card (allocated s))"
  using drift_alloc_page [of s] drift_free_page [of a s] by (simp add: drift_def)

text \<open>
  Page 0 can be released although it is reserved; the next request then takes page 0
  and returns 0, which its caller cannot tell from a refusal, while the page is gone.
\<close>

lemma page_zero_lost:
  assumes "0 \<in> allocated s"
  shows "fst (pmm_alloc_page (pmm_free_page 0 s)) = 0 \<and>
    allocated (pmm_free_page 0 s) = allocated s - {0} \<and>
    allocated (snd (pmm_alloc_page (pmm_free_page 0 s))) = allocated s"
proof -
  let ?t = "pmm_free_page 0 s"
  have free: "\<not> is_page_allocated 0 ?t" "0 < total_pages ?t"
    using assms by (simp_all add: pmm_free_page_eq allocated_def)
  then have "pmm_alloc_page ?t = (0, mark_page 0 ?t)"
    by (simp add: pmm_alloc_page_def pmm_alloc_from.simps [of 0] mark_page_def Let_def)
  with free(2) assms show ?thesis
    by (auto simp: allocated_mark_page allocated_free_page)
qed

lemma page_zero_lost_witness:
  "fst (pmm_alloc_page (pmm_free_page 0 example_pmm)) = 0 \<and>
   0 \<in> allocated (snd (pmm_alloc_page (pmm_free_page 0 example_pmm)))"
  using page_zero_lost [of example_pmm] by (simp add: example_pmm_allocated)

end
