(* ===== verification/PageMapper.thy ===== *)
theory PageMapper
  imports Prelude
begin

text \<open>
  The contract of a page mapper towards its clients: a lookup from virtual
  addresses to leaf entries, a map operation that may fail and an unmap
  operation, for the addresses the contract covers. The client lemmas reduce any
  sequence of requests to updates of a finite function.
\<close>

section \<open>Requests\<close>

datatype 'r request = Map u64 'r | Unmap u64

text \<open>
  A run of requests on the implementation; \<open>map_op\<close> returns whether it
  succeeded. The log lists the outcome of each request.
\<close>

fun run_requests ::
  "(u64 \<Rightarrow> 'r \<Rightarrow> 's \<Rightarrow> bool \<times> 's) \<Rightarrow> (u64 \<Rightarrow> 's \<Rightarrow> 's) \<Rightarrow> 'r request list \<Rightarrow> 's \<Rightarrow> bool list \<times> 's" where
  "run_requests map_op unmap_op [] s = ([], s)"
| "run_requests map_op unmap_op (Map v e # rs) s =
     (let (ok, s') = map_op v e s; (oks, s'') = run_requests map_op unmap_op rs s' in (ok # oks, s''))"
| "run_requests map_op unmap_op (Unmap v # rs) s =
     (let (oks, s') = run_requests map_op unmap_op rs (unmap_op v s) in (True # oks, s'))"

text \<open>The same run on the abstract function, given the outcomes.\<close>

fun replay :: "(u64 \<Rightarrow> u64 \<Rightarrow> bool) \<Rightarrow> ('r \<Rightarrow> 'e) \<Rightarrow> 'r request list \<Rightarrow> bool list \<Rightarrow>
    (u64 \<Rightarrow> 'e option) \<Rightarrow> u64 \<Rightarrow> 'e option" where
  "replay same entry (Map v r # rs) (ok # oks) f =
     replay same entry rs oks (if ok then (\<lambda>w. if same w v then Some (entry r) else f w) else f)"
| "replay same entry (Unmap v # rs) (ok # oks) f =
     replay same entry rs oks (\<lambda>w. if same w v then None else f w)"
| "replay same entry _ _ f = f"

fun target :: "'r request \<Rightarrow> u64" where
  "target (Map v e) = v"
| "target (Unmap v) = v"

section \<open>The contract\<close>

locale page_mapper =
  fixes inv :: "'s \<Rightarrow> bool"
    and covers :: "u64 \<Rightarrow> bool"
    and same :: "u64 \<Rightarrow> u64 \<Rightarrow> bool"
    and lookup :: "'s \<Rightarrow> u64 \<Rightarrow> 'e option"
    and entry :: "'r \<Rightarrow> 'e"
    and map_op :: "u64 \<Rightarrow> 'r \<Rightarrow> 's \<Rightarrow> bool \<times> 's"
    and unmap_op :: "u64 \<Rightarrow> 's \<Rightarrow> 's"
  assumes map_inv: "inv s \<Longrightarrow> covers v \<Longrightarrow> map_op v e s = (ok, s') \<Longrightarrow> inv s'"
    and map_lookup: "inv s \<Longrightarrow> covers v \<Longrightarrow> covers w \<Longrightarrow> map_op v e s = (True, s') \<Longrightarrow>
      lookup s' w = (if same w v then Some (entry e) else lookup s w)"
    and map_failed: "inv s \<Longrightarrow> covers v \<Longrightarrow> covers w \<Longrightarrow> map_op v e s = (False, s') \<Longrightarrow>
      lookup s' w = lookup s w"
    and unmap_inv: "inv s \<Longrightarrow> covers v \<Longrightarrow> inv (unmap_op v s)"
    and unmap_lookup: "inv s \<Longrightarrow> covers v \<Longrightarrow> covers w \<Longrightarrow>
      lookup (unmap_op v s) w = (if same w v then None else lookup s w)"
begin

lemma replay_cong:
  "(\<And>w. covers w \<Longrightarrow> f w = g w) \<Longrightarrow> covers w \<Longrightarrow> replay same entry rs oks f w = replay same entry rs oks g w"
proof (induction same entry rs oks f arbitrary: g rule: replay.induct)
  case (1 same entry v e rs ok oks f)
  show ?case
    unfolding replay.simps by (rule 1(1)) (use 1(2,3) in auto)
next
  case (2 same entry v rs ok oks f)
  show ?case
    unfolding replay.simps by (rule 2(1)) (use 2(2,3) in auto)
qed auto

lemma run_replays:
  assumes "inv s" "\<forall>r \<in> set rs. covers (target r)" "run_requests map_op unmap_op rs s = (oks, s')"
  shows "inv s' \<and> (\<forall>w. covers w \<longrightarrow> lookup s' w = replay same entry rs oks (lookup s) w)"
  using assms
proof (induction rs arbitrary: s oks)
  case Nil
  then show ?case by simp
next
  case (Cons r rs)
  show ?case
  proof (cases r)
    case (Map v e)
    obtain ok s1 where s1: "map_op v e s = (ok, s1)" by (cases "map_op v e s")
    obtain oks' where run: "run_requests map_op unmap_op rs s1 = (oks', s')" "oks = ok # oks'"
      using Cons.prems(3) Map s1 by (auto split: prod.splits)
    have cv: "covers v" using Cons.prems(2) Map by simp
    have "inv s1" using map_inv [OF Cons.prems(1) cv s1] .
    with Cons run(1) have tail: "inv s'" "\<And>w. covers w \<Longrightarrow> lookup s' w = replay same entry rs oks' (lookup s1) w"
      by simp_all
    let ?f = "if ok then (\<lambda>w. if same w v then Some (entry e) else lookup s w) else lookup s"
    have "lookup s1 w = ?f w" if "covers w" for w
      using s1 map_lookup [OF Cons.prems(1) cv that] map_failed [OF Cons.prems(1) cv that]
      by (cases ok) auto
    then have "replay same entry rs oks' (lookup s1) w = replay same entry rs oks' ?f w" if "covers w" for w
      using that by (rule replay_cong)
    with tail run(2) Map show ?thesis by simp
  next
    case (Unmap v)
    obtain oks' where run: "run_requests map_op unmap_op rs (unmap_op v s) = (oks', s')" "oks = True # oks'"
      using Cons.prems(3) Unmap by (auto split: prod.splits)
    have cv: "covers v" using Cons.prems(2) Unmap by simp
    have "inv (unmap_op v s)" using unmap_inv [OF Cons.prems(1) cv] .
    with Cons run(1) have tail: "inv s'"
        "\<And>w. covers w \<Longrightarrow> lookup s' w = replay same entry rs oks' (lookup (unmap_op v s)) w"
      by simp_all
    let ?f = "\<lambda>w. if same w v then None else lookup s w"
    have "replay same entry rs oks' (lookup (unmap_op v s)) w = replay same entry rs oks' ?f w" if "covers w" for w
      using unmap_lookup [OF Cons.prems(1) cv] that by (rule replay_cong)
    with tail run(2) Unmap show ?thesis by simp
  qed
qed

end

end
