(* ===== verification/Vmm.thy ===== *)
theory Vmm
  imports Pmm PageMapper "HOL-Library.Sublist"
begin

text \<open>
  The virtual memory manager, \<open>kernel/memory/vmm.c\<close> and \<open>vmm.h\<close>: four-level
  x86-64 page tables that live in the shared memory, walked and edited through
  the pointers stored in their entries. The code dereferences physical addresses
  directly (the loader's identity map), and so does the model. The lemmas abstract
  the tables to a lookup from virtual pages to leaf entries, for the part of the
  tree whose tables are proper: distinct, allocated and clear of the bitmap.
\<close>

section \<open>State and operations\<close>

type_synonym pte_t = u64

definition PT_PRESENT :: u64 where "PT_PRESENT = push_bit 0 1"
definition PT_WRITABLE :: u64 where "PT_WRITABLE = push_bit 1 1"
definition PT_USER :: u64 where "PT_USER = push_bit 2 1"
definition PT_WRITETHROUGH :: u64 where "PT_WRITETHROUGH = push_bit 3 1"
definition PT_CACHE_DISABLE :: u64 where "PT_CACHE_DISABLE = push_bit 4 1"

definition PML4_INDEX :: "u64 \<Rightarrow> u64" where "PML4_INDEX addr = drop_bit 39 addr AND 0x1FF"
definition PDPT_INDEX :: "u64 \<Rightarrow> u64" where "PDPT_INDEX addr = drop_bit 30 addr AND 0x1FF"
definition PD_INDEX :: "u64 \<Rightarrow> u64" where "PD_INDEX addr = drop_bit 21 addr AND 0x1FF"
definition PT_INDEX :: "u64 \<Rightarrow> u64" where "PT_INDEX addr = drop_bit 12 addr AND 0x1FF"

definition PT_ADDR_MASK :: u64 where "PT_ADDR_MASK = 0x000FFFFFFFFFF000"

record vmm = pmm +
  pml4 :: u64

definition get_cr3 :: "'a machine_scheme \<Rightarrow> u64" where
  "get_cr3 s = cr3 s"

definition set_cr3 :: "u64 \<Rightarrow> 'a machine_scheme \<Rightarrow> 'a machine_scheme" where
  "set_cr3 v s = s\<lparr>cr3 := v\<rparr>"

text \<open>\<open>table[i]\<close> of an array of 8-byte entries, read and written.\<close>

definition pte :: "memory \<Rightarrow> u64 \<Rightarrow> u64 \<Rightarrow> pte_t" where
  "pte m table i = load64 m (table + 8 * i)"

definition set_pte :: "u64 \<Rightarrow> u64 \<Rightarrow> pte_t \<Rightarrow> 'a machine_scheme \<Rightarrow> 'a machine_scheme" where
  "set_pte table i e s = s\<lparr>mem := store64 (mem s) (table + 8 * i) e\<rparr>"

definition invlpg :: "u64 \<Rightarrow> 'a machine_scheme \<Rightarrow> 'a machine_scheme" where
  "invlpg virt s = s\<lparr>invlpgs := invlpgs s @ [virt]\<rparr>"

text \<open>The null pointer is the address 0, as in the code. The loop's \<open>int i\<close> counts to 512.\<close>

definition alloc_page_table :: "'a pmm_scheme \<Rightarrow> u64 \<times> 'a pmm_scheme" where
  "alloc_page_table s =
     (let (phys, s) = pmm_alloc_page s
      in if phys = 0 then (0, s)
         else (phys, for_loop 0 512 (\<lambda>i. set_pte phys i 0) s))"

definition get_or_create_table ::
  "u64 \<Rightarrow> u64 \<Rightarrow> u64 \<Rightarrow> 'a pmm_scheme \<Rightarrow> u64 \<times> 'a pmm_scheme" where
  "get_or_create_table parent index flags s =
     (if pte (mem s) parent index AND PT_PRESENT \<noteq> 0
      then (pte (mem s) parent index AND PT_ADDR_MASK, s)
      else let (table, s) = alloc_page_table s
           in if table = 0 then (0, s)
              else (table, set_pte parent index (table OR flags OR PT_PRESENT) s))"

definition vmm_init :: "'a vmm_scheme \<Rightarrow> 'a vmm_scheme option" where
  "vmm_init s =
     (let cr3 = get_cr3 s;
          s = s\<lparr>pml4 := cr3\<rparr>
      in serial_writestring
           (cstr (''[VMM] Virtual Memory Manager initialized'' @ [CHR 0x0A])) s)"

definition vmm_map_page ::
  "u64 \<Rightarrow> u64 \<Rightarrow> u64 \<Rightarrow> 'a vmm_scheme \<Rightarrow> bool \<times> 'a vmm_scheme" where
  "vmm_map_page virt phys flags s =
     (let pml4_idx = PML4_INDEX virt;
          pdpt_idx = PDPT_INDEX virt;
          pd_idx = PD_INDEX virt;
          pt_idx = PT_INDEX virt;
          (pdpt, s) = get_or_create_table (pml4 s) pml4_idx PT_WRITABLE s
      in if pdpt = 0 then (False, s)
         else let (pd, s) = get_or_create_table pdpt pdpt_idx PT_WRITABLE s
              in if pd = 0 then (False, s)
                 else let (pt, s) = get_or_create_table pd pd_idx PT_WRITABLE s
                      in if pt = 0 then (False, s)
                         else let s = set_pte pt pt_idx ((phys AND PT_ADDR_MASK) OR flags OR PT_PRESENT) s
                              in (True, invlpg virt s))"

definition vmm_unmap_page :: "u64 \<Rightarrow> 'a vmm_scheme \<Rightarrow> 'a vmm_scheme" where
  "vmm_unmap_page virt s =
     (let pml4_idx = PML4_INDEX virt;
          pdpt_idx = PDPT_INDEX virt;
          pd_idx = PD_INDEX virt;
          pt_idx = PT_INDEX virt
      in if pte (mem s) (pml4 s) pml4_idx AND PT_PRESENT = 0 then s
         else let pdpt = pte (mem s) (pml4 s) pml4_idx AND PT_ADDR_MASK
              in if pte (mem s) pdpt pdpt_idx AND PT_PRESENT = 0 then s
                 else let pd = pte (mem s) pdpt pdpt_idx AND PT_ADDR_MASK
                      in if pte (mem s) pd pd_idx AND PT_PRESENT = 0 then s
                         else let pt = pte (mem s) pd pd_idx AND PT_ADDR_MASK
                              in invlpg virt (set_pte pt pt_idx 0 s))"

definition vmm_get_physical :: "u64 \<Rightarrow> 'a vmm_scheme \<Rightarrow> u64" where
  "vmm_get_physical virt s =
     (let pml4_idx = PML4_INDEX virt;
          pdpt_idx = PDPT_INDEX virt;
          pd_idx = PD_INDEX virt;
          pt_idx = PT_INDEX virt
      in if pte (mem s) (pml4 s) pml4_idx AND PT_PRESENT = 0 then 0
         else let pdpt = pte (mem s) (pml4 s) pml4_idx AND PT_ADDR_MASK
              in if pte (mem s) pdpt pdpt_idx AND PT_PRESENT = 0 then 0
                 else let pd = pte (mem s) pdpt pdpt_idx AND PT_ADDR_MASK
                      in if pte (mem s) pd pd_idx AND PT_PRESENT = 0 then 0
                         else let pt = pte (mem s) pd pd_idx AND PT_ADDR_MASK
                              in if pte (mem s) pt pt_idx AND PT_PRESENT = 0 then 0
                                 else let phys_base = pte (mem s) pt pt_idx AND PT_ADDR_MASK;
                                          offset = virt AND 0xFFF
                                      in phys_base + offset)"

definition vmm_is_mapped :: "u64 \<Rightarrow> 'a vmm_scheme \<Rightarrow> bool" where
  "vmm_is_mapped virt s \<longleftrightarrow> vmm_get_physical virt s \<noteq> 0"

section \<open>Entries and table addresses\<close>

abbreviation present :: "pte_t \<Rightarrow> bool" where
  "present e \<equiv> e AND PT_PRESENT \<noteq> 0"

abbreviation pt_addr :: "pte_t \<Rightarrow> u64" where
  "pt_addr e \<equiv> e AND PT_ADDR_MASK"

lemma bit_PT_ADDR_MASK: "bit PT_ADDR_MASK n \<longleftrightarrow> 12 \<le> n \<and> n < 52"
proof -
  have "PT_ADDR_MASK = push_bit 12 (mask 40)"
    by (simp add: PT_ADDR_MASK_def mask_eq_exp_minus_1 push_bit_eq_mult)
  moreover have "bit (push_bit 12 (mask 40) :: u64) n \<longleftrightarrow> 12 \<le> n \<and> n < 52"
    by (auto simp: bit_simps)
  ultimately show ?thesis by simp
qed

lemma present_iff: "present e \<longleftrightarrow> bit e 0"
  by (simp add: PT_PRESENT_def bit_iff_and_push_bit_not_eq_0)

lemma pt_addr_idem [simp]: "pt_addr (pt_addr e) = pt_addr e"
  by (simp add: and.assoc)

text \<open>A frame address is one the mask leaves alone: page-aligned and below \<open>2 ^ 52\<close>.\<close>

definition frame_addr :: "u64 \<Rightarrow> bool" where
  "frame_addr t \<longleftrightarrow> pt_addr t = t"

lemma frame_addr_pt_addr [simp]: "frame_addr (pt_addr e)"
  by (simp add: frame_addr_def)

lemma frame_addr_bit: "frame_addr t \<Longrightarrow> bit t n \<Longrightarrow> 12 \<le> n \<and> n < 52"
  unfolding frame_addr_def by (metis bit_and_iff bit_PT_ADDR_MASK)

lemma frame_addr_unat:
  assumes "frame_addr t"
  shows "unat t mod 4096 = 0" "unat t < 2 ^ 52"
proof -
  have "take_bit 12 t = 0"
    by (rule bit_word_eqI) (auto simp: bit_simps dest!: frame_addr_bit [OF assms])
  then have "take_bit 12 (unat t) = 0"
    by (metis unsigned_take_bit_eq unsigned_0)
  then show "unat t mod 4096 = 0" by (simp add: take_bit_eq_mod)
  have "take_bit 52 t = t"
    by (rule bit_word_eqI) (auto simp: bit_simps dest: frame_addr_bit [OF assms])
  then have "take_bit 52 (unat t) = unat t"
    by (metis unsigned_take_bit_eq)
  then show "unat t < 2 ^ 52" by (simp add: take_bit_nat_eq_self_iff)
qed

lemma frame_addr_page:
  assumes "p < 2 ^ 40"
  shows "frame_addr (p * PAGE_SIZE)"
proof -
  have p: "p * PAGE_SIZE = push_bit 12 p"
    by (simp add: PAGE_SIZE_def push_bit_eq_mult)
  have "take_bit 40 (unat p) = unat p"
    using assms by (simp add: word_less_nat_alt take_bit_nat_eq_self)
  then have "take_bit 40 p = p"
    by (metis unsigned_take_bit_eq unsigned_word_eqI)
  then have "bit p n \<Longrightarrow> n < 40" for n by (metis bit_take_bit_iff)
  then show ?thesis
    unfolding frame_addr_def p
    by (intro bit_word_eqI) (auto simp: bit_simps bit_PT_ADDR_MASK, fastforce)
qed

lemma frame_addr_separate:
  assumes "frame_addr t" "frame_addr u" "t \<noteq> u"
  shows "unat t + 4096 \<le> unat u \<or> unat u + 4096 \<le> unat t"
proof -
  obtain a b where ab: "unat t = 4096 * a" "unat u = 4096 * b"
    using frame_addr_unat(1) [OF assms(1)] frame_addr_unat(1) [OF assms(2)]
    by (metis mod_0_imp_dvd dvdE)
  have "unat t \<noteq> unat u" using assms(3) by (simp add: word_unat_eq_iff)
  with ab have "Suc a \<le> b \<or> Suc b \<le> a" by auto
  then show ?thesis unfolding ab by (elim disjE) simp_all
qed

lemma unat_entry_addr:
  assumes "frame_addr t" "i < 512"
  shows "unat (t + 8 * i) = unat t + 8 * unat i"
proof -
  have "unat i < 512" using assms(2) by (simp add: word_less_nat_alt)
  moreover then have "unat (8 * i) = 8 * unat i"
    by (subst unat_mult_no_wrap) simp_all
  ultimately show ?thesis
    using frame_addr_unat(2) [OF assms(1)] by (subst unat_add_no_wrap) simp_all
qed

lemma index_less [simp]:
  "PML4_INDEX v < 512" "PDPT_INDEX v < 512" "PD_INDEX v < 512" "PT_INDEX v < 512"
proof -
  have "w AND 0x1FF < 512" for w :: u64
  proof -
    have "w AND 0x1FF \<le> 0x1FF" by (rule word_and_le1)
    then show ?thesis by (simp add: word_le_nat_alt word_less_nat_alt)
  qed
  then show "PML4_INDEX v < 512" "PDPT_INDEX v < 512" "PD_INDEX v < 512" "PT_INDEX v < 512"
    by (simp_all add: PML4_INDEX_def PDPT_INDEX_def PD_INDEX_def PT_INDEX_def)
qed

lemma pte_store_same:
  "frame_addr t \<Longrightarrow> i < 512 \<Longrightarrow> pte (store64 m (t + 8 * i) e) t i = e"
  using frame_addr_unat(2) [of t]
  by (simp add: pte_def mem_simps unat_entry_addr word_less_nat_alt)

lemma pte_store_other:
  assumes "frame_addr t" "i < 512" "frame_addr u" "j < 512" "u \<noteq> t \<or> j \<noteq> i"
  shows "pte (store64 m (t + 8 * i) e) u j = pte m u j"
proof -
  have b: "unat i < 512" "unat j < 512" using assms by (simp_all add: word_less_nat_alt)
  have "unat t + 8 * unat i + 8 \<le> unat u + 8 * unat j \<or> unat u + 8 * unat j + 8 \<le> unat t + 8 * unat i"
  proof (cases "u = t")
    case True
    with assms(5) have "unat j \<noteq> unat i" by (simp add: word_unat_eq_iff)
    with True show ?thesis by auto
  next
    case False
    with frame_addr_separate [OF assms(1,3)] b show ?thesis by auto
  qed
  then show ?thesis
    using b frame_addr_unat(2) [OF assms(1)] frame_addr_unat(2) [OF assms(3)]
    unfolding pte_def by (intro load64_store64_other) (simp_all add: unat_entry_addr assms)
qed

lemma pte_frame:
  assumes "only_changes m m' lo hi" "frame_addr t" "i < 512" "unat t + 4096 \<le> lo \<or> hi \<le> unat t"
  shows "pte m' t i = pte m t i"
proof -
  have "unat i < 512" using assms(3) by (simp add: word_less_nat_alt)
  then show ?thesis
    using frame_addr_unat(2) [OF assms(2)] assms(4)
    unfolding pte_def by (intro load64_frame [OF assms(1)]) (auto simp: unat_entry_addr assms(2,3))
qed

section \<open>Walking the tables\<close>

text \<open>
  \<open>walk m t is\<close> follows present entries from the table \<open>t\<close> along the indices
  \<open>is\<close>; \<open>leaf m t v\<close> is the present leaf entry of the virtual address \<open>v\<close>.
\<close>

fun walk :: "memory \<Rightarrow> u64 \<Rightarrow> u64 list \<Rightarrow> u64 option" where
  "walk m t [] = Some t"
| "walk m t (i # is) = (if present (pte m t i) then walk m (pt_addr (pte m t i)) is else None)"

definition path_of :: "u64 \<Rightarrow> u64 list" where
  "path_of v = [PML4_INDEX v, PDPT_INDEX v, PD_INDEX v]"

definition leaf :: "memory \<Rightarrow> u64 \<Rightarrow> u64 \<Rightarrow> pte_t option" where
  "leaf m root v =
     (case walk m root (path_of v) of
        None \<Rightarrow> None
      | Some t \<Rightarrow> if present (pte m t (PT_INDEX v)) then Some (pte m t (PT_INDEX v)) else None)"

text \<open>
  What the processor does with an address (4-level paging, present bits and page sizes; access
  rights and the sign extension of addresses are not part of it): an entry with bit 7 set maps a
  page of 1 GiB in the second level and of 2 MiB in the third.
\<close>

definition mmu_translate :: "memory \<Rightarrow> u64 \<Rightarrow> u64 \<Rightarrow> u64 option" where
  "mmu_translate m root v =
     (let e4 = pte m (pt_addr root) (PML4_INDEX v);
          e3 = pte m (pt_addr e4) (PDPT_INDEX v);
          e2 = pte m (pt_addr e3) (PD_INDEX v);
          e1 = pte m (pt_addr e2) (PT_INDEX v)
      in if \<not> present e4 \<or> \<not> present e3 then None
         else if bit e3 7 then Some ((e3 AND 0x000FFFFFC0000000) + (v AND 0x3FFFFFFF))
         else if \<not> present e2 then None
         else if bit e2 7 then Some ((e2 AND 0x000FFFFFFFE00000) + (v AND 0x1FFFFF))
         else if \<not> present e1 then None
         else Some (pt_addr e1 + (v AND 0xFFF)))"

lemma walk_append: "walk m t (xs @ ys) = Option.bind (walk m t xs) (\<lambda>u. walk m u ys)"
  by (induction xs arbitrary: t) simp_all

lemma walk_snoc:
  "walk m t (xs @ [i]) =
     Option.bind (walk m t xs) (\<lambda>u. if present (pte m u i) then Some (pt_addr (pte m u i)) else None)"
  by (cases "walk m t xs") (simp_all add: walk_append)

lemma walk_frame_addr: "walk m t ps = Some u \<Longrightarrow> ps \<noteq> [] \<Longrightarrow> frame_addr u"
  by (induction ps rule: rev_induct) (auto simp: walk_snoc split: Option.bind_splits if_splits)

text \<open>The code's lookup is the leaf lookup.\<close>

lemma vmm_get_physical_leaf:
  "vmm_get_physical v s =
     (case leaf (mem s) (pml4 s) v of None \<Rightarrow> 0 | Some e \<Rightarrow> pt_addr e + (v AND 0xFFF))"
  by (simp add: vmm_get_physical_def leaf_def path_of_def Let_def)

section \<open>Proper trees\<close>

text \<open>
  The paths below the top-level entries \<open>I\<close>: one to three valid indices, the first
  in \<open>I\<close>. The tree is proper below \<open>I\<close> when the tables on those paths are
  pairwise distinct, distinct from the root, held by the page allocator, and
  clear of the page bitmap. Entries of the root outside \<open>I\<close> are unconstrained
  (the loader's huge-page mapping lives there).
\<close>

definition paths :: "u64 set \<Rightarrow> u64 list set" where
  "paths I = {ps. ps \<noteq> [] \<and> length ps \<le> 3 \<and> hd ps \<in> I \<and> (\<forall>i \<in> set ps. i < 512)}"

definition table_page :: "'a pmm_scheme \<Rightarrow> u64 \<Rightarrow> bool" where
  "table_page s t \<longleftrightarrow> t div PAGE_SIZE \<in> allocated s \<and>
     (unat t + 4096 \<le> 0x140000 \<or> bitmap_end (total_pages s) \<le> unat t)"

definition vmm_wf :: "u64 set \<Rightarrow> 'a vmm_scheme \<Rightarrow> bool" where
  "vmm_wf I s \<longleftrightarrow> pmm_inv s \<and> frame_addr (pml4 s) \<and> table_page s (pml4 s) \<and>
     (\<forall>ps \<in> paths I. \<forall>t. walk (mem s) (pml4 s) ps = Some t \<longrightarrow>
        t \<noteq> 0 \<and> t \<noteq> pml4 s \<and> table_page s t) \<and>
     (\<forall>ps \<in> paths I. \<forall>qs \<in> paths I. \<forall>t. walk (mem s) (pml4 s) ps = Some t \<longrightarrow>
        walk (mem s) (pml4 s) qs = Some t \<longrightarrow> ps = qs)"

text \<open>
  No present entry above the leaves has the bit \<open>b\<close>. Bit 7 makes an entry a large page; bit 2,
  \<open>PT_USER\<close>, lets user mode pass.
\<close>

definition clear_tree :: "nat \<Rightarrow> u64 set \<Rightarrow> memory \<Rightarrow> u64 \<Rightarrow> bool" where
  "clear_tree b I m root \<longleftrightarrow> (\<forall>ps i t. ps @ [i] \<in> paths I \<longrightarrow> walk m root ps = Some t \<longrightarrow>
     present (pte m t i) \<longrightarrow> \<not> bit (pte m t i) b)"

abbreviation small_tree :: "u64 set \<Rightarrow> memory \<Rightarrow> u64 \<Rightarrow> bool" where
  "small_tree \<equiv> clear_tree 7"

abbreviation supervisor_tree :: "u64 set \<Rightarrow> memory \<Rightarrow> u64 \<Rightarrow> bool" where
  "supervisor_tree \<equiv> clear_tree 2"

lemma clear_treeD:
  "clear_tree b I m root \<Longrightarrow> ps @ [i] \<in> paths I \<Longrightarrow> walk m root ps = Some t \<Longrightarrow>
   present (pte m t i) \<Longrightarrow> \<not> bit (pte m t i) b"
  by (auto simp: clear_tree_def)

text \<open>The tables of the proper part, the root included.\<close>

definition tables :: "u64 set \<Rightarrow> 'a vmm_scheme \<Rightarrow> u64 set" where
  "tables I s = {t. \<exists>ps \<in> insert [] (paths I). walk (mem s) (pml4 s) ps = Some t}"

lemma paths_snoc: "ps @ [i] \<in> paths I \<Longrightarrow> ps \<in> insert [] (paths I) \<and> i < 512"
  by (cases ps) (auto simp: paths_def)

lemma path_of_paths: "PML4_INDEX v \<in> I \<Longrightarrow> path_of v \<in> paths I"
  by (simp add: paths_def path_of_def)

lemma tables_facts:
  assumes "vmm_wf I s" "t \<in> tables I s"
  shows "frame_addr t" "table_page s t"
proof -
  from assms(2) obtain ps where ps: "ps \<in> insert [] (paths I)" "walk (mem s) (pml4 s) ps = Some t"
    unfolding tables_def by blast
  show "frame_addr t"
    using ps assms(1) walk_frame_addr [OF ps(2)] by (cases "ps = []") (auto simp: vmm_wf_def)
  show "table_page s t"
    using ps assms(1) unfolding vmm_wf_def by (cases "ps = []") auto
qed

text \<open>
  The path to a table is unique, also for the root.
\<close>

lemma path_unique:
  assumes "vmm_wf I s" "ps \<in> insert [] (paths I)" "qs \<in> insert [] (paths I)"
    and "walk (mem s) (pml4 s) ps = Some t" "walk (mem s) (pml4 s) qs = Some t"
  shows "ps = qs"
proof (cases "ps = [] \<or> qs = []")
  case True
  with assms show ?thesis unfolding vmm_wf_def by (metis insertE option.inject walk.simps(1))
next
  case False
  with assms show ?thesis unfolding vmm_wf_def by blast
qed

section \<open>Changing one entry\<close>

text \<open>
  \<open>entry_update I s t i e m\<close>: on the tables of \<open>s\<close> the memory \<open>m\<close> differs from
  that of \<open>s\<close> in the entry \<open>i\<close> of \<open>t\<close> only, which is \<open>e\<close>.
\<close>

definition entry_update :: "u64 set \<Rightarrow> 'a vmm_scheme \<Rightarrow> u64 \<Rightarrow> u64 \<Rightarrow> pte_t \<Rightarrow> memory \<Rightarrow> bool" where
  "entry_update I s t i e m \<longleftrightarrow>
     (\<forall>u \<in> tables I s. \<forall>j < 512. pte m u j = (if u = t \<and> j = i then e else pte (mem s) u j))"

text \<open>Paths that do not pass through the entry are walked as before.\<close>

lemma walk_update_other:
  assumes wf: "vmm_wf I s" and upd: "entry_update I s t i e m"
    and t: "ps \<in> insert [] (paths I)" "walk (mem s) (pml4 s) ps = Some t"
    and qs: "qs \<in> insert [] (paths I)" "\<not> prefix (ps @ [i]) qs"
  shows "walk m (pml4 s) qs = walk (mem s) (pml4 s) qs"
  using qs
proof (induction qs rule: rev_induct)
  case Nil
  then show ?case by simp
next
  case (snoc j qs)
  then have qs: "qs \<in> insert [] (paths I)" "j < 512"
    using paths_snoc by auto
  have IH: "walk m (pml4 s) qs = walk (mem s) (pml4 s) qs"
    using snoc.IH [OF qs(1)] snoc.prems(2) prefix_prefix by blast
  show ?case
  proof (cases "walk (mem s) (pml4 s) qs")
    case None
    with IH show ?thesis by (simp add: walk_snoc)
  next
    case (Some u)
    then have "u \<in> tables I s" using qs unfolding tables_def by blast
    moreover have "\<not> (u = t \<and> j = i)"
      using path_unique [OF wf t(1) qs(1) t(2)] Some snoc.prems(2) by (auto simp: prefix_def)
    moreover have "pte m u j = (if u = t \<and> j = i then e else pte (mem s) u j)"
      using upd qs(2) calculation(1) unfolding entry_update_def by blast
    ultimately have "pte m u j = pte (mem s) u j" by presburger
    with IH Some show ?thesis by (simp add: walk_snoc)
  qed
qed

lemma walk_update_here:
  assumes "vmm_wf I s" "entry_update I s t i e m"
    and "ps \<in> insert [] (paths I)" "walk (mem s) (pml4 s) ps = Some t" "i < 512"
  shows "walk m (pml4 s) (ps @ [i]) = (if present e then Some (pt_addr e) else None)"
proof -
  have "walk m (pml4 s) ps = Some t"
    using walk_update_other [OF assms(1-4) assms(3)] assms(4) by simp
  moreover have "t \<in> tables I s" using assms(3,4) unfolding tables_def by blast
  ultimately show ?thesis
    using assms(2,5) by (simp add: walk_snoc entry_update_def)
qed

section \<open>Creating a table\<close>

lemma set_pte_fields [simp]:
  "pml4 (set_pte t i e s) = pml4 s" "page_bitmap (set_pte t i e s') = page_bitmap s'"
  "total_pages (set_pte t i e s') = total_pages s'" "used_pages (set_pte t i e s') = used_pages s'"
  "mem (set_pte t i e s'') = store64 (mem s'') (t + 8 * i) e"
  by (simp_all add: set_pte_def)

text \<open>Clearing a fresh page: all 512 entries, nothing outside the page.\<close>

lemma clear_table:
  assumes "frame_addr t"
  shows "\<exists>m. for_loop 0 512 (\<lambda>i. set_pte t i 0) s = s\<lparr>mem := m\<rparr>
    \<and> only_changes (mem s) m (unat t) (unat t + 4096) \<and> (\<forall>i < 512. pte m t i = 0)"
proof -
  let ?P = "\<lambda>k s'. \<exists>m. s' = s\<lparr>mem := m\<rparr> \<and> only_changes (mem s) m (unat t) (unat t + 4096)
    \<and> (\<forall>i. unat i < k \<longrightarrow> pte m t i = 0)"
  have "?P 512 (fold (\<lambda>k. set_pte t (of_nat k) 0) [0..<512] s)"
  proof (rule fold_invariant_upt [where P = ?P])
    show "?P 0 s" by (intro exI [of _ "mem s"]) simp
  next
    fix k s'
    assume k: "k < 512" and "?P k s'"
    then obtain m where m: "s' = s\<lparr>mem := m\<rparr>" "only_changes (mem s) m (unat t) (unat t + 4096)"
      "\<forall>i. unat i < k \<longrightarrow> pte m t i = 0" by blast
    let ?i = "of_nat k :: u64" and ?m = "store64 m (t + 8 * of_nat k) 0"
    have i: "?i < 512" "unat ?i = k" using k by (simp_all add: word_less_nat_alt)
    have "only_changes m ?m (unat t) (unat t + 4096)"
      using store64_only_changes [of "t + 8 * ?i" m 0] unat_entry_addr [OF assms i(1)] i(2) k
        frame_addr_unat(2) [OF assms] by (auto elim!: only_changes_mono)
    then have "only_changes (mem s) ?m (unat t) (unat t + 4096)"
      by (rule only_changes_trans [OF m(2)])
    moreover have "pte ?m t j = 0" if "unat j < Suc k" for j
    proof (cases "j = ?i")
      case True
      with i show ?thesis by (simp add: pte_store_same [OF assms])
    next
      case False
      then have "unat j < k" using that i(2) by (auto simp: less_Suc_eq word_unat_eq_iff)
      with k m(3) False show ?thesis
        using pte_store_other [OF assms i(1) assms, of j] by (simp add: word_less_nat_alt)
    qed
    ultimately show "?P (Suc k) (set_pte t ?i 0 s')"
      by (intro exI [of _ ?m]) (simp add: m(1) set_pte_def)
  qed simp
  then show ?thesis
    by (auto simp: for_loop_fold word_less_nat_alt)
qed

text \<open>
  A fresh table: zeroed, at a page that was not allocated, so no table of the
  proper part; of the old tables not one entry has changed.
\<close>

lemma alloc_page_table_cases:
  assumes wf: "vmm_wf I s"
  obtains (full) "\<forall>p < total_pages s. p \<in> allocated s" "alloc_page_table s = (0, s)"
  | (fresh) p q m where "q = p * PAGE_SIZE" "q \<noteq> 0" "frame_addr q" "p < total_pages s"
      "p \<notin> allocated s" "p \<notin> reserved (total_pages s)" "q div PAGE_SIZE = p" "q \<notin> tables I s"
      "alloc_page_table s = (q, (mark_page p s)\<lparr>mem := m\<rparr>)"
      "\<forall>u \<in> tables I s. \<forall>j < 512. pte m u j = pte (mem s) u j"
      "\<forall>j < 512. pte m q j = 0"
      "only_changes (mem (mark_page p s)) m (unat q) (unat q + 4096)"
proof -
  have inv: "pmm_inv s" using wf by (simp add: vmm_wf_def)
  then have n: "total_pages s \<le> 2 ^ 40" "page_bitmap s = 0x140000" by (simp_all add: pmm_inv_def)
  from inv show thesis
  proof (cases rule: pmm_alloc_inv_cases)
    case refused
    then show ?thesis by (intro full) (simp_all add: alloc_page_table_def)
  next
    case (granted p)
    let ?q = "p * PAGE_SIZE" and ?s = "mark_page p s"
    have "p < 2 ^ 40" using granted(1) n(1) by simp
    then have q: "frame_addr ?q" by (rule frame_addr_page)
    have div: "?q div PAGE_SIZE = p" using page_addr_div pmm_inv_page [OF inv granted(1)] by simp
    from clear_table [OF q, of ?s] obtain m where
      m: "for_loop 0 512 (\<lambda>i. set_pte ?q i 0) ?s = ?s\<lparr>mem := m\<rparr>"
        "only_changes (mem ?s) m (unat ?q) (unat ?q + 4096)" "\<forall>i < 512. pte m ?q i = 0"
      by blast
    have fresh_q: "?q \<notin> tables I s"
      using tables_facts(2) [OF wf, of ?q] granted(3) div by (auto simp: table_page_def)
    have "pte m u j = pte (mem s) u j" if u: "u \<in> tables I s" and j: "j < 512" for u j
    proof -
      have ne: "u \<noteq> ?q" using u fresh_q by blast
      from tables_facts [OF wf u] have fu: "frame_addr u"
        and clear: "unat u + 4096 \<le> 0x140000 \<or> bitmap_end (total_pages s) \<le> unat u"
        by (simp_all add: table_page_def)
      have "pte m u j = pte (mem ?s) u j"
        by (rule pte_frame [OF m(2) fu j]) (use frame_addr_separate [OF fu q ne] in auto)
      also have "\<dots> = pte (mem s) u j"
        by (rule pte_frame [OF mark_page_only_changes [OF n(2) granted(1)] fu j clear])
      finally show ?thesis .
    qed
    then show ?thesis
      using fresh [of ?q p m] granted q div fresh_q m by (simp add: alloc_page_table_def)
  qed
qed

text \<open>A page outside the reserved ones does not meet the bitmap.\<close>

lemma unreserved_clear_of_bitmap:
  assumes "p < n" "n \<le> 2 ^ 40" "p \<notin> reserved n"
  shows "bitmap_end n \<le> unat (p * PAGE_SIZE)"
proof -
  have n52: "n < 2 ^ 52" using assms(2) by (rule le_less_trans) simp
  have p52: "p < 2 ^ 52" using assms(1) n52 by simp
  have "unat (reserved_end n) \<le> unat p"
    using assms(3) by (simp add: reserved_segment [OF n52] not_less word_le_nat_alt)
  then have "0x140 + unat (bitmap_pages n) \<le> unat p" by (simp add: unat_reserved_end [OF n52])
  then have "(0x140 + unat (bitmap_pages n)) * 4096 \<le> unat p * 4096" by (rule mult_le_mono1)
  moreover have "(unat n + 7) div 8 \<le> unat (bitmap_pages n) * 4096"
    unfolding unat_bitmap_pages [OF n52] by simp
  ultimately show ?thesis
    by (simp add: bitmap_end_def unat_page_addr [OF p52])
qed

text \<open>The entry of a new table, and what it decodes to.\<close>

lemma new_entry:
  assumes "frame_addr q" "pt_addr flags = 0"
  shows "present (q OR flags OR PT_PRESENT)" "pt_addr (q OR flags OR PT_PRESENT) = q"
proof -
  show "present (q OR flags OR PT_PRESENT)"
    by (simp add: present_iff bit_simps) (simp add: PT_PRESENT_def)
  have "pt_addr PT_PRESENT = 0" by (simp add: PT_PRESENT_def PT_ADDR_MASK_def)
  with assms show "pt_addr (q OR flags OR PT_PRESENT) = q"
    by (simp add: and.commute [of _ PT_ADDR_MASK] bit.conj_disj_distrib frame_addr_def)
qed

lemma extended_walk:
  assumes "walk m root ps = Some q" "\<forall>j < 512. pte m q j = 0" "\<forall>i \<in> set qs. i < 512" "qs \<noteq> []"
  shows "walk m root (ps @ qs) = None"
  using assms by (cases qs) (simp_all add: walk_append)

text \<open>
  Hanging an empty table \<open>q\<close> into an absent entry: the tables of the new state
  are the old ones and \<open>q\<close>, and no leaf entry changes.
\<close>

lemma hang_table:
  assumes wf: "vmm_wf I s" and t: "ps \<in> insert [] (paths I)" "walk (mem s) (pml4 s) ps = Some t"
    and i: "ps @ [i] \<in> paths I" and absent: "\<not> present (pte (mem s) t i)"
    and upd: "entry_update I s t i e m" and e: "present e" "pt_addr e = q"
    and q: "q \<notin> tables I s" "\<forall>j < 512. pte m q j = 0"
  shows "qs \<in> paths I \<Longrightarrow> walk m (pml4 s) qs = Some u \<Longrightarrow>
      qs = ps @ [i] \<and> u = q \<or> walk (mem s) (pml4 s) qs = Some u \<and> u \<in> tables I s"
    and "length ps \<le> 2 \<Longrightarrow> PML4_INDEX v \<in> I \<Longrightarrow> leaf m (pml4 s) v = leaf (mem s) (pml4 s) v"
proof -
  have i512: "i < 512" using paths_snoc [OF i] by blast
  have here: "walk m (pml4 s) (ps @ [i]) = Some q"
    using walk_update_here [OF wf upd t i512] e by simp
  have was_none: "walk (mem s) (pml4 s) (ps @ [i] @ js) = None" for js
    using t(2) absent by (simp add: walk_append)
  { assume qs: "qs \<in> paths I" "walk m (pml4 s) qs = Some u"
    show "qs = ps @ [i] \<and> u = q \<or> walk (mem s) (pml4 s) qs = Some u \<and> u \<in> tables I s"
    proof (cases "prefix (ps @ [i]) qs")
      case True
      then obtain js where js: "qs = (ps @ [i]) @ js" by (auto elim: prefixE)
      then have "js = []"
        using extended_walk [OF here q(2), of js] qs by (auto simp: paths_def)
      with js here qs(2) show ?thesis by simp
    next
      case False
      then have "walk (mem s) (pml4 s) qs = Some u"
        using walk_update_other [OF wf upd t _ False] qs by simp
      with qs(1) show ?thesis unfolding tables_def by blast
    qed }
  assume short: "length ps \<le> 2" and v: "PML4_INDEX v \<in> I"
  show "leaf m (pml4 s) v = leaf (mem s) (pml4 s) v"
  proof (cases "prefix (ps @ [i]) (path_of v)")
    case True
    then obtain js where js: "path_of v = ps @ [i] @ js" by (auto elim: prefixE)
    then have "leaf (mem s) (pml4 s) v = None" by (simp only: leaf_def was_none option.case)
    moreover have "leaf m (pml4 s) v = None"
    proof (cases "js = []")
      case True
      with js here q(2) show ?thesis by (simp add: leaf_def)
    next
      case False
      have "\<forall>j \<in> set js. j < 512" using path_of_paths [OF v] js by (simp add: paths_def)
      from extended_walk [OF here q(2) this False] js show ?thesis by (simp add: leaf_def)
    qed
    ultimately show ?thesis by simp
  next
    case False
    with walk_update_other [OF wf upd t _ False] path_of_paths [OF v]
    have same: "walk m (pml4 s) (path_of v) = walk (mem s) (pml4 s) (path_of v)" by simp
    have "pte m u (PT_INDEX v) = pte (mem s) u (PT_INDEX v)"
      if u: "walk (mem s) (pml4 s) (path_of v) = Some u" for u
    proof -
      have "path_of v \<noteq> ps" using short by (auto simp: path_of_def)
      then have "u \<noteq> t"
        using path_unique [OF wf _ t(1) u] t(2) path_of_paths [OF v] by blast
      moreover have "u \<in> tables I s" using u path_of_paths [OF v] unfolding tables_def by blast
      ultimately show ?thesis using upd by (simp add: entry_update_def)
    qed
    with same show ?thesis by (simp add: leaf_def split: option.split)
  qed
qed

lemma hang_clear:
  assumes wf: "vmm_wf I s" and t: "ps \<in> insert [] (paths I)" "walk (mem s) (pml4 s) ps = Some t"
    and i: "ps @ [i] \<in> paths I" and absent: "\<not> present (pte (mem s) t i)"
    and upd: "entry_update I s t i e m" and e: "present e" "pt_addr e = q" "\<not> bit e b"
    and q: "q \<notin> tables I s" "\<forall>j < 512. pte m q j = 0" and small: "clear_tree b I (mem s) (pml4 s)"
  shows "clear_tree b I m (pml4 s)"
  unfolding clear_tree_def
proof (intro allI impI)
  fix qs j u
  assume qs: "qs @ [j] \<in> paths I" "walk m (pml4 s) qs = Some u" and p: "present (pte m u j)"
  have j: "j < 512" and qs': "qs \<in> insert [] (paths I)" using paths_snoc [OF qs(1)] by auto
  have old: "\<not> bit (pte m u j) b" if "walk (mem s) (pml4 s) qs = Some u"
  proof -
    have "u \<in> tables I s" using that qs' unfolding tables_def by blast
    then have "pte m u j = (if u = t \<and> j = i then e else pte (mem s) u j)"
      using upd j unfolding entry_update_def by blast
    with p e(3) clear_treeD [OF small qs(1) that] show ?thesis by (auto split: if_splits)
  qed
  show "\<not> bit (pte m u j) b"
  proof (cases "qs = []")
    case True
    with qs(2) old show ?thesis by simp
  next
    case False
    with qs' have "qs \<in> paths I" by simp
    from hang_table(1) [OF wf t i absent upd e(1,2) q this qs(2)] show ?thesis
      using old p q(2) j by (auto simp: PT_PRESENT_def)
  qed
qed

text \<open>
  \<open>keeps_entries I p root m m'\<close>: every table of the tree under \<open>root\<close> is still in its place in
  \<open>m'\<close>, and of its entries only those on the path \<open>p\<close> may have changed.
\<close>

definition keeps_entries :: "u64 set \<Rightarrow> u64 list \<Rightarrow> u64 \<Rightarrow> memory \<Rightarrow> memory \<Rightarrow> bool" where
  "keeps_entries I p root m m' \<longleftrightarrow> (\<forall>ps \<in> insert [] (paths I). \<forall>u. walk m root ps = Some u \<longrightarrow>
     walk m' root ps = Some u \<and> (\<forall>j < 512. \<not> prefix (ps @ [j]) p \<longrightarrow> pte m' u j = pte m u j))"

lemma keeps_entries_refl [simp]: "keeps_entries I p root m m"
  by (simp add: keeps_entries_def)

lemma keeps_entries_trans:
  "keeps_entries I p root m m' \<Longrightarrow> keeps_entries I p root m' m'' \<Longrightarrow> keeps_entries I p root m m''"
  unfolding keeps_entries_def by (metis (no_types, lifting))

lemma keeps_entriesD:
  assumes "keeps_entries I p root m m'" "ps \<in> insert [] (paths I)" "walk m root ps = Some u"
  shows "walk m' root ps = Some u" "j < 512 \<Longrightarrow> \<not> prefix (ps @ [j]) p \<Longrightarrow> pte m' u j = pte m u j"
  using assms unfolding keeps_entries_def by blast+

lemma update_keeps:
  assumes wf: "vmm_wf I s" and t: "ps \<in> insert [] (paths I)" "walk (mem s) (pml4 s) ps = Some t"
    and upd: "entry_update I s t i e m" and p: "prefix (ps @ [i]) p"
    and out: "\<And>qs u. qs \<in> insert [] (paths I) \<Longrightarrow> walk (mem s) (pml4 s) qs = Some u \<Longrightarrow> \<not> prefix (ps @ [i]) qs"
  shows "keeps_entries I p (pml4 s) (mem s) m"
  unfolding keeps_entries_def
proof (intro ballI allI impI conjI)
  fix qs u j
  assume qs: "qs \<in> insert [] (paths I)" "walk (mem s) (pml4 s) qs = Some u"
  show "walk m (pml4 s) qs = Some u"
    using walk_update_other [OF wf upd t qs(1) out [OF qs]] qs(2) by simp
  assume j: "j < 512" "\<not> prefix (qs @ [j]) p"
  have "\<not> (u = t \<and> j = i)" using path_unique [OF wf qs(1) t(1) qs(2)] t(2) j(2) p by auto
  moreover have "u \<in> tables I s" using qs unfolding tables_def by blast
  ultimately show "pte m u j = pte (mem s) u j"
    using upd j(1) unfolding entry_update_def by auto
qed

lemma hang_keeps:
  assumes wf: "vmm_wf I s" and t: "ps \<in> insert [] (paths I)" "walk (mem s) (pml4 s) ps = Some t"
    and absent: "\<not> present (pte (mem s) t i)" and upd: "entry_update I s t i e m" and p: "prefix (ps @ [i]) p"
  shows "keeps_entries I p (pml4 s) (mem s) m"
proof (rule update_keeps [OF wf t upd p])
  fix qs u
  assume "walk (mem s) (pml4 s) qs = Some u"
  moreover have "walk (mem s) (pml4 s) ((ps @ [i]) @ js) = None" for js
    using t(2) absent by (simp add: walk_append)
  ultimately show "\<not> prefix (ps @ [i]) qs" by (auto elim!: prefixE)
qed

text \<open>
  \<open>untouched I s x\<close>: the byte \<open>x\<close> lies in an allocated page, in no table of the proper
  part and not in the bitmap. \<open>grows k I s s'\<close>: at most \<open>k\<close> pages were taken and no
  such byte has changed.
\<close>

definition untouched :: "u64 set \<Rightarrow> 'a vmm_scheme \<Rightarrow> u64 \<Rightarrow> bool" where
  "untouched I s x \<longleftrightarrow> x div PAGE_SIZE \<in> allocated s \<and>
     (unat x < 0x140000 \<or> bitmap_end (total_pages s) \<le> unat x) \<and>
     (\<forall>t \<in> tables I s. \<not> (unat t \<le> unat x \<and> unat x < unat t + 4096))"

definition grows :: "nat \<Rightarrow> u64 set \<Rightarrow> 'a vmm_scheme \<Rightarrow> 'a vmm_scheme \<Rightarrow> bool" where
  "grows k I s s' \<longleftrightarrow> allocated s \<subseteq> allocated s' \<and> card (allocated s') \<le> card (allocated s) + k \<and>
     (\<forall>x. untouched I s x \<longrightarrow> untouched I s' x \<and> mem s' x = mem s x)"

lemma grows_refl [simp]: "grows k I s s"
  by (simp add: grows_def)

lemma grows_trans: "grows k I s s' \<Longrightarrow> grows l I s' s'' \<Longrightarrow> grows (k + l) I s s''"
  by (auto simp: grows_def)

lemma grows_mono: "grows k I s s' \<Longrightarrow> k \<le> l \<Longrightarrow> grows l I s s'"
  by (auto simp: grows_def)

lemma in_page_div:
  assumes "frame_addr q" "unat q \<le> unat x" "unat x < unat q + 4096"
  shows "x div PAGE_SIZE = q div PAGE_SIZE"
proof -
  have "unat q mod 4096 = 0" by (rule frame_addr_unat(1) [OF assms(1)])
  then obtain k where "unat q = 4096 * k" by (auto simp: mod_eq_0_iff_dvd)
  with assms(2,3) have "unat x div 4096 = k" "unat q div 4096 = k"
    by (auto intro!: div_nat_eqI)
  then show ?thesis by (simp add: word_unat_eq_iff unat_div PAGE_SIZE_def)
qed

text \<open>The pages after a table \<open>q\<close> was cleared and entered into \<open>t\<close>.\<close>

lemma created_pages:
  assumes inv: "pmm_inv s" and p: "p < total_pages s" "p \<notin> reserved (total_pages s)" "q = p * PAGE_SIZE"
      "q div PAGE_SIZE = p"
    and chg: "only_changes (mem (mark_page p s)) m (unat q) (unat q + 4096)"
      "only_changes m m' (unat t) (unat t + 4096)" and t: "table_page s t"
    and s'_def: "s' = s\<lparr>mem := m', used_pages := n\<rparr>"
  shows "allocated s' = insert p (allocated s)" "table_page s' q" "table_page s u \<Longrightarrow> table_page s' u"
proof -
  have bm: "page_bitmap s = 0x140000" "total_pages s \<le> 2 ^ 40" using inv by (simp_all add: pmm_inv_def)
  have clear_q: "bitmap_end (total_pages s) \<le> unat q"
    using unreserved_clear_of_bitmap [OF p(1) bm(2) p(2)] p(3) by simp
  let ?s1 = "(mark_page p s)\<lparr>mem := m\<rparr>"
  have "allocated ?s1 = allocated (mark_page p s)"
    by (rule allocated_frame) (use chg(1) clear_q bm in auto)
  moreover have "allocated s' = allocated ?s1"
    by (rule allocated_frame [of _ _ "unat t" "unat t + 4096"])
      (use chg(2) t bm in \<open>auto simp: table_page_def s'_def\<close>)
  ultimately show alloc: "allocated s' = insert p (allocated s)"
    using allocated_mark_page [OF p(1)] by simp
  show "table_page s' q" using alloc clear_q p(4) by (simp add: table_page_def s'_def)
  show "table_page s u \<Longrightarrow> table_page s' u" using alloc by (simp add: table_page_def s'_def)
qed

text \<open>The tree after a new table was hung in: it is proper again, and only \<open>q\<close> joined it.\<close>

lemma created_wf:
  fixes s :: "'a vmm_scheme"
  assumes wf: "vmm_wf I s" and pages: "allocated (s\<lparr>mem := m, used_pages := n\<rparr>) = insert p (allocated s)"
      "table_page (s\<lparr>mem := m, used_pages := n\<rparr>) q"
      "\<And>u. table_page s u \<Longrightarrow> table_page (s\<lparr>mem := m, used_pages := n\<rparr>) u"
    and q: "q \<noteq> 0" "q \<notin> tables I s"
    and hang: "\<And>qs u. qs \<in> paths I \<Longrightarrow> walk m (pml4 s) qs = Some u \<Longrightarrow>
      qs = ps @ [i] \<and> u = q \<or> walk (mem s) (pml4 s) qs = Some u \<and> u \<in> tables I s"
  shows "vmm_wf I (s\<lparr>mem := m, used_pages := n\<rparr>)"
    and "tables I (s\<lparr>mem := m, used_pages := n\<rparr>) \<subseteq> insert q (tables I s)"
proof -
  let ?s = "s\<lparr>mem := m, used_pages := n\<rparr>"
  have root: "pml4 s \<in> tables I s" by (auto simp: tables_def intro: bexI [of _ "[]"])
  show "tables I ?s \<subseteq> insert q (tables I s)"
    using hang root by (fastforce simp: tables_def)
  show "vmm_wf I ?s"
    unfolding vmm_wf_def
  proof (intro conjI)
    show "pmm_inv ?s" using wf pages(1) by (simp add: vmm_wf_def pmm_inv_allocated)
    show "frame_addr (pml4 ?s)" "table_page ?s (pml4 ?s)"
      using wf pages(3) by (simp_all add: vmm_wf_def)
    show "\<forall>qs \<in> paths I. \<forall>u. walk (mem ?s) (pml4 ?s) qs = Some u \<longrightarrow>
        u \<noteq> 0 \<and> u \<noteq> pml4 ?s \<and> table_page ?s u"
    proof (intro ballI allI impI)
      fix qs u assume qs: "qs \<in> paths I" "walk (mem ?s) (pml4 ?s) qs = Some u"
      with hang [of qs u] consider (new) "u = q" | (old) "walk (mem s) (pml4 s) qs = Some u" by auto
      then show "u \<noteq> 0 \<and> u \<noteq> pml4 ?s \<and> table_page ?s u"
      proof cases
        case new
        with q root pages(2) show ?thesis by auto
      next
        case old
        with wf qs(1) have "u \<noteq> 0 \<and> u \<noteq> pml4 s \<and> table_page s u" unfolding vmm_wf_def by blast
        with pages(3) show ?thesis by simp
      qed
    qed
    show "\<forall>qs \<in> paths I. \<forall>qs' \<in> paths I. \<forall>u. walk (mem ?s) (pml4 ?s) qs = Some u \<longrightarrow>
        walk (mem ?s) (pml4 ?s) qs' = Some u \<longrightarrow> qs = qs'"
      using hang path_unique [OF wf] q(2) by simp (metis insertI2)
  qed
qed

lemma created_grows:
  assumes inv: "pmm_inv s" and p: "p < total_pages s" "p \<notin> allocated s" "frame_addr q" "q div PAGE_SIZE = p"
    and chg: "only_changes (mem (mark_page p s)) m (unat q) (unat q + 4096)"
      "only_changes m m' (unat t) (unat t + 4096)" and t: "t \<in> tables I s"
    and alloc: "allocated (s\<lparr>mem := m', used_pages := n\<rparr>) = insert p (allocated s)"
    and tabs: "tables I (s\<lparr>mem := m', used_pages := n\<rparr>) \<subseteq> insert q (tables I s)"
  shows "grows 1 I s (s\<lparr>mem := m', used_pages := n\<rparr>)"
proof -
  let ?s = "s\<lparr>mem := m', used_pages := n\<rparr>"
  have bm: "page_bitmap s = 0x140000" using inv by (simp add: pmm_inv_def)
  have "untouched I ?s x \<and> m' x = mem s x" if x: "untouched I s x" for x
  proof -
    have page: "x div PAGE_SIZE \<in> allocated s"
      and bits: "unat x < 0x140000 \<or> bitmap_end (total_pages s) \<le> unat x"
      and out: "\<And>u. u \<in> tables I s \<Longrightarrow> \<not> (unat u \<le> unat x \<and> unat x < unat u + 4096)"
      using x by (auto simp: untouched_def)
    have outq: "\<not> (unat q \<le> unat x \<and> unat x < unat q + 4096)"
      using in_page_div [OF p(3)] page p(2,4) by metis
    have "m' x = m x" using out [OF t] by (intro only_changesD [OF chg(2)]) auto
    also have "m x = mem (mark_page p s) x" using outq by (intro only_changesD [OF chg(1)]) auto
    also have "\<dots> = mem s x" using bits by (intro only_changesD [OF mark_page_only_changes [OF bm p(1)]])
    finally have "m' x = mem s x" .
    moreover have "untouched I ?s x"
      using page bits out outq tabs alloc unfolding untouched_def by auto
    ultimately show ?thesis by simp
  qed
  then show ?thesis
    using alloc p(2) by (auto simp: grows_def card_insert_if)
qed

lemma get_or_create_table_cases:
  assumes wf: "vmm_wf I s" and t: "ps \<in> insert [] (paths I)" "walk (mem s) (pml4 s) ps = Some t"
    and i: "ps @ [i] \<in> paths I" and short: "length ps \<le> 2" and flags: "pt_addr flags = 0" "\<not> bit flags 2" "\<not> bit flags 7"
  obtains (full) "get_or_create_table t i flags s = (0, s)" "\<forall>p < total_pages s. p \<in> allocated s"
  | (table) q m n where "get_or_create_table t i flags s = (q, s\<lparr>mem := m, used_pages := n\<rparr>)" "q \<noteq> 0"
      "vmm_wf I (s\<lparr>mem := m, used_pages := n\<rparr>)" "walk m (pml4 s) (ps @ [i]) = Some q"
      "\<forall>v. PML4_INDEX v \<in> I \<longrightarrow> leaf m (pml4 s) v = leaf (mem s) (pml4 s) v"
      "grows 1 I s (s\<lparr>mem := m, used_pages := n\<rparr>)"
      "\<forall>b \<in> {2, 7}. clear_tree b I (mem s) (pml4 s) \<longrightarrow> clear_tree b I m (pml4 s)"
      "\<forall>p. prefix (ps @ [i]) p \<longrightarrow> keeps_entries I p (pml4 s) (mem s) m"
proof (cases "present (pte (mem s) t i)")
  case True
  let ?q = "pt_addr (pte (mem s) t i)"
  have w: "walk (mem s) (pml4 s) (ps @ [i]) = Some ?q" using t(2) True by (simp add: walk_snoc)
  with wf i have "?q \<noteq> 0" unfolding vmm_wf_def by blast
  with True w wf table [where q = ?q and m = "mem s" and n = "used_pages s"] show ?thesis
    by (simp add: get_or_create_table_def)
next
  case absent: False
  have tin: "t \<in> tables I s" using t unfolding tables_def by blast
  from tables_facts [OF wf tin] have tf: "frame_addr t" and tp: "table_page s t" .
  have i512: "i < 512" using paths_snoc [OF i] by blast
  have inv: "pmm_inv s" using wf by (simp add: vmm_wf_def)
  from wf show ?thesis
  proof (cases rule: alloc_page_table_cases)
    case full
    with absent that(1) show ?thesis by (simp add: get_or_create_table_def)
  next
    case (fresh p q m)
    let ?e = "q OR flags OR PT_PRESENT" and ?n = "used_pages s + 1"
    let ?m = "store64 m (t + 8 * i) ?e"
    let ?s = "s\<lparr>mem := ?m, used_pages := ?n\<rparr>"
    have result: "get_or_create_table t i flags s = (q, ?s)"
      using absent fresh(2,9) by (simp add: get_or_create_table_def set_pte_def mark_page_def set_page_allocated_bit)
    have qt: "q \<noteq> t" using fresh(8) tin by blast
    have upd: "entry_update I s t i ?e ?m"
      unfolding entry_update_def
      using fresh(10) tables_facts(1) [OF wf] pte_store_same [OF tf i512] pte_store_other [OF tf i512]
      by auto
    have zero: "\<forall>j < 512. pte ?m q j = 0"
      using fresh(11) pte_store_other [OF tf i512 fresh(3)] qt by simp
    note e = new_entry [OF fresh(3) flags(1)]
    have "\<not> bit q 7" "\<not> bit q 2" using frame_addr_bit [OF fresh(3), of 7] frame_addr_bit [OF fresh(3), of 2] by auto
    then have "\<not> bit ?e 7" "\<not> bit ?e 2" using flags(2,3) by (simp_all add: bit_simps) (simp_all add: PT_PRESENT_def)
    then have clear: "\<forall>b \<in> {2, 7}. clear_tree b I (mem s) (pml4 s) \<longrightarrow> clear_tree b I ?m (pml4 s)"
      using hang_clear [OF wf t i absent upd e _ fresh(8) zero] by blast
    note hang = hang_table [OF wf t i absent upd e fresh(8) zero]
    have chg: "only_changes m ?m (unat t) (unat t + 4096)"
      using store64_only_changes [of "t + 8 * i" m ?e] unat_entry_addr [OF tf i512] i512
        frame_addr_unat(2) [OF tf] by (auto elim!: only_changes_mono simp: word_less_nat_alt)
    note pages = created_pages [OF inv fresh(4,6,1,7,12) chg tp refl, where n = ?n]
    note created = created_wf [OF wf pages fresh(2,8) hang(1)]
    have "grows 1 I s ?s"
      by (rule created_grows [OF inv fresh(4,5,3,7,12) chg tin pages(1) created(2)])
    moreover have "walk ?m (pml4 s) (ps @ [i]) = Some q"
      using walk_update_here [OF wf upd t i512] e by simp
    ultimately show ?thesis
      using that(2) [where q = q and m = ?m and n = ?n] result fresh(2) hang(2) [OF short] created(1)
        clear hang_keeps [OF wf t absent upd] by blast
  qed
qed

section \<open>Leaf entries\<close>

text \<open>Two addresses in the same virtual page: equal bits 12 to 47.\<close>

definition same_page :: "u64 \<Rightarrow> u64 \<Rightarrow> bool" where
  "same_page v w \<longleftrightarrow> drop_bit 12 (take_bit 48 v) = drop_bit 12 (take_bit 48 w)"

lemma bit_index:
  "bit (PML4_INDEX v) n \<longleftrightarrow> n < 9 \<and> bit v (39 + n)"
  "bit (PDPT_INDEX v) n \<longleftrightarrow> n < 9 \<and> bit v (30 + n)"
  "bit (PD_INDEX v) n \<longleftrightarrow> n < 9 \<and> bit v (21 + n)"
  "bit (PT_INDEX v) n \<longleftrightarrow> n < 9 \<and> bit v (12 + n)"
proof -
  have m: "(0x1FF :: u64) = mask 9" by (simp add: mask_eq_exp_minus_1)
  show
    "bit (PML4_INDEX v) n \<longleftrightarrow> n < 9 \<and> bit v (39 + n)"
    "bit (PDPT_INDEX v) n \<longleftrightarrow> n < 9 \<and> bit v (30 + n)"
    "bit (PD_INDEX v) n \<longleftrightarrow> n < 9 \<and> bit v (21 + n)"
    "bit (PT_INDEX v) n \<longleftrightarrow> n < 9 \<and> bit v (12 + n)"
    unfolding PML4_INDEX_def PDPT_INDEX_def PD_INDEX_def PT_INDEX_def m
    by (auto simp: bit_simps)
qed

lemma same_page_bits: "same_page v w \<longleftrightarrow> (\<forall>n. 12 \<le> n \<and> n < 48 \<longrightarrow> bit v n = bit w n)"
proof
  assume same: "same_page v w"
  show "\<forall>n. 12 \<le> n \<and> n < 48 \<longrightarrow> bit v n = bit w n"
  proof (intro allI impI)
    fix n :: nat assume n: "12 \<le> n \<and> n < 48"
    from same have "bit (drop_bit 12 (take_bit 48 v)) (n - 12) = bit (drop_bit 12 (take_bit 48 w)) (n - 12)"
      by (simp only: same_page_def)
    with n show "bit v n = bit w n" by (simp add: bit_simps)
  qed
next
  assume "\<forall>n. 12 \<le> n \<and> n < 48 \<longrightarrow> bit v n = bit w n"
  then show "same_page v w"
    unfolding same_page_def by (intro bit_word_eqI) (auto simp: bit_simps)
qed

lemma same_page_indices:
  "same_page v w \<longleftrightarrow> path_of v = path_of w \<and> PT_INDEX v = PT_INDEX w"
proof
  assume "same_page v w"
  then show "path_of v = path_of w \<and> PT_INDEX v = PT_INDEX w"
    by (auto simp: path_of_def same_page_bits bit_index intro!: bit_word_eqI)
next
  assume eq: "path_of v = path_of w \<and> PT_INDEX v = PT_INDEX w"
  then have bits: "k < 9 \<Longrightarrow> bit v (39 + k) = bit w (39 + k)" "k < 9 \<Longrightarrow> bit v (30 + k) = bit w (30 + k)"
    "k < 9 \<Longrightarrow> bit v (21 + k) = bit w (21 + k)" "k < 9 \<Longrightarrow> bit v (12 + k) = bit w (12 + k)" for k
    using bit_index [of v k] bit_index [of w k] by (simp_all add: path_of_def)
  show "same_page v w"
    unfolding same_page_bits
  proof (intro allI impI)
    fix n :: nat assume n: "12 \<le> n \<and> n < 48"
    then consider "n < 21" | "21 \<le> n" "n < 30" | "30 \<le> n" "n < 39" | "39 \<le> n" by linarith
    then show "bit v n = bit w n"
      using n bits(4) [of "n - 12"] bits(3) [of "n - 21"] bits(2) [of "n - 30"] bits(1) [of "n - 39"]
      by cases auto
  qed
qed

text \<open>Storing a leaf entry changes the lookup of one page and nothing else.\<close>

lemma leaf_store:
  fixes e :: pte_t
  assumes wf: "vmm_wf I s" and v: "PML4_INDEX v \<in> I" and t: "walk (mem s) (pml4 s) (path_of v) = Some t"
  defines "s' \<equiv> set_pte t (PT_INDEX v) e s"
  shows "vmm_wf I s'"
    and "PML4_INDEX w \<in> I \<Longrightarrow> leaf (mem s') (pml4 s') w =
      (if same_page w v then (if present e then Some e else None) else leaf (mem s) (pml4 s) w)"
    and "clear_tree b I (mem s) (pml4 s) \<Longrightarrow> clear_tree b I (mem s') (pml4 s')"
    and "keeps_entries I (path_of v @ [PT_INDEX v]) (pml4 s) (mem s) (mem s')"
proof -
  let ?i = "PT_INDEX v"
  have pv: "path_of v \<in> insert [] (paths I)" using path_of_paths [OF v] by blast
  then have tin: "t \<in> tables I s" using t unfolding tables_def by blast
  from tables_facts [OF wf tin] have tf: "frame_addr t" and tp: "table_page s t" .
  have upd: "entry_update I s t ?i e (mem s')"
    unfolding entry_update_def s'_def
    using tables_facts(1) [OF wf] pte_store_same [OF tf index_less(4)] pte_store_other [OF tf index_less(4)]
    by auto
  have same_walk: "walk (mem s') (pml4 s) qs = walk (mem s) (pml4 s) qs" if "qs \<in> paths I" for qs
  proof (rule walk_update_other [OF wf upd pv t])
    show "\<not> prefix (path_of v @ [?i]) qs"
      using that prefix_length_le by (fastforce simp: paths_def path_of_def)
  qed (use that in simp)
  have bm: "page_bitmap s = 0x140000" using wf by (simp add: vmm_wf_def pmm_inv_def)
  have "only_changes (mem s) (mem s') (unat t) (unat t + 4096)"
    using store64_only_changes [of "t + 8 * ?i" "mem s" e] unat_entry_addr [OF tf index_less(4) [of v]]
      index_less(4) [of v] frame_addr_unat(2) [OF tf]
    by (auto elim!: only_changes_mono simp: word_less_nat_alt s'_def)
  then have alloc: "allocated s' = allocated s"
    by (rule allocated_frame) (use tp bm in \<open>auto simp: table_page_def s'_def\<close>)
  have fields: "pml4 s' = pml4 s" "total_pages s' = total_pages s" "page_bitmap s' = page_bitmap s"
    by (simp_all add: s'_def)
  have keep: "table_page s' u = table_page s u" for u
    by (simp add: table_page_def alloc fields)
  show "vmm_wf I s'"
    using wf same_walk unfolding vmm_wf_def by (simp add: fields keep pmm_inv_allocated alloc)
  show "keeps_entries I (path_of v @ [?i]) (pml4 s) (mem s) (mem s')"
  proof (rule update_keeps [OF wf pv t upd])
    fix qs assume "qs \<in> insert [] (paths I)"
    then show "\<not> prefix (path_of v @ [?i]) qs"
      using prefix_length_le by (fastforce simp: paths_def path_of_def)
  qed simp
  show "clear_tree b I (mem s') (pml4 s')" if small: "clear_tree b I (mem s) (pml4 s)"
    unfolding clear_tree_def fields
  proof (intro allI impI)
    fix qs j u
    assume qs: "qs @ [j] \<in> paths I" "walk (mem s') (pml4 s) qs = Some u" and p: "present (pte (mem s') u j)"
    have qs': "qs \<in> insert [] (paths I)" and j: "j < 512" using paths_snoc [OF qs(1)] by auto
    then have w: "walk (mem s) (pml4 s) qs = Some u" using qs(2) same_walk by (cases "qs = []") auto
    have "length qs \<le> 2" using qs(1) by (simp add: paths_def)
    then have "qs \<noteq> path_of v" by (auto simp: path_of_def)
    then have "u \<noteq> t" using path_unique [OF wf qs' pv w] t by auto
    moreover have "u \<in> tables I s" using w qs' unfolding tables_def by blast
    ultimately have "pte (mem s') u j = pte (mem s) u j"
      using upd j unfolding entry_update_def by auto
    with clear_treeD [OF small qs(1) w] p show "\<not> bit (pte (mem s') u j) b" by simp
  qed
  assume w: "PML4_INDEX w \<in> I"
  note pw = path_of_paths [OF w]
  show "leaf (mem s') (pml4 s') w =
      (if same_page w v then (if present e then Some e else None) else leaf (mem s) (pml4 s) w)"
  proof (cases "walk (mem s) (pml4 s) (path_of w)")
    case None
    with t have "\<not> same_page w v" by (auto simp: same_page_indices)
    with None show ?thesis by (simp add: leaf_def fields same_walk [OF pw])
  next
    case (Some u)
    have "u = t \<longleftrightarrow> path_of w = path_of v"
      using path_unique [OF wf _ pv Some] t Some pw by auto
    moreover have "u \<in> tables I s" using Some pw unfolding tables_def by blast
    then have "pte (mem s') u (PT_INDEX w) =
        (if u = t \<and> PT_INDEX w = ?i then e else pte (mem s) u (PT_INDEX w))"
      using upd by (simp add: entry_update_def)
    ultimately have "pte (mem s') u (PT_INDEX w) = (if same_page w v then e else pte (mem s) u (PT_INDEX w))"
      by (simp add: same_page_indices)
    with Some show ?thesis by (simp add: leaf_def fields same_walk [OF pw])
  qed
qed

section \<open>Mapping and unmapping\<close>

text \<open>
  \<open>prepared k I s s'\<close>: what creating at most \<open>k\<close> tables on the way down leaves: only
  memory and the page count may have changed, the tree is still proper, no lookup
  differs and no byte of another allocated page has changed.
\<close>

definition prepared :: "nat \<Rightarrow> u64 set \<Rightarrow> u64 list \<Rightarrow> 'a vmm_scheme \<Rightarrow> 'a vmm_scheme \<Rightarrow> bool" where
  "prepared k I p s s' \<longleftrightarrow> (\<exists>m n. s' = s\<lparr>mem := m, used_pages := n\<rparr>) \<and> vmm_wf I s' \<and> grows k I s s' \<and>
     (\<forall>v. PML4_INDEX v \<in> I \<longrightarrow> leaf (mem s') (pml4 s') v = leaf (mem s) (pml4 s) v) \<and>
     (\<forall>b \<in> {2, 7}. clear_tree b I (mem s) (pml4 s) \<longrightarrow> clear_tree b I (mem s') (pml4 s')) \<and>
     keeps_entries I p (pml4 s) (mem s) (mem s')"

lemma prepared_refl: "vmm_wf I s \<Longrightarrow> prepared k I p s s"
  unfolding prepared_def by (intro conjI exI [of _ "mem s"] exI [of _ "used_pages s"]) simp_all

lemma prepared_mono: "prepared k I p s s' \<Longrightarrow> k \<le> l \<Longrightarrow> prepared l I p s s'"
  unfolding prepared_def using grows_mono by blast

lemma prepared_trans:
  assumes "prepared k I p s s'" "prepared l I p s' s''"
  shows "prepared (k + l) I p s s''"
proof -
  from assms obtain m n where "s'' = s\<lparr>mem := m, used_pages := n\<rparr>"
    unfolding prepared_def by fastforce
  with assms grows_trans [of k I s s' l s''] show ?thesis unfolding prepared_def
    by (auto intro: keeps_entries_trans)
qed

text \<open>One level down.\<close>

lemma get_or_create_table_prepares:
  assumes wf: "vmm_wf I s" and t: "ps \<in> insert [] (paths I)" "walk (mem s) (pml4 s) ps = Some t"
    and i: "ps @ [i] \<in> paths I" and short: "length ps \<le> 2" and p: "prefix (ps @ [i]) p"
    and result: "get_or_create_table t i PT_WRITABLE s = (q, s')"
  shows "prepared 1 I p s s' \<and> pml4 s' = pml4 s \<and>
    (if q = 0 then s' = s \<and> (\<forall>p < total_pages s. p \<in> allocated s) else walk (mem s') (pml4 s') (ps @ [i]) = Some q)"
proof -
  have "pt_addr PT_WRITABLE = 0" "\<not> bit PT_WRITABLE 2" "\<not> bit PT_WRITABLE 7" by (simp_all add: PT_WRITABLE_def PT_ADDR_MASK_def)
  from get_or_create_table_cases [OF wf t i short this]
  show ?thesis
  proof cases
    case 1
    with result prepared_refl [OF wf] show ?thesis by auto
  next
    case (2 r m n)
    with result have "q = r" "s' = s\<lparr>mem := m, used_pages := n\<rparr>" by auto
    with 2 p show ?thesis by (auto simp: prepared_def)
  qed
qed

lemma path_prefixes:
  assumes "PML4_INDEX v \<in> I"
  shows "[] @ [PML4_INDEX v] \<in> paths I" "[PML4_INDEX v] @ [PDPT_INDEX v] \<in> paths I"
    "[PML4_INDEX v, PDPT_INDEX v] @ [PD_INDEX v] \<in> paths I"
  using assms by (simp_all add: paths_def)

text \<open>
  \<open>vmm_map_page\<close> either runs out of pages on the way down or stores the leaf entry
  in the table it reached.
\<close>

definition map_entry :: "u64 \<Rightarrow> u64 \<Rightarrow> pte_t" where
  "map_entry phys flags = (phys AND PT_ADDR_MASK) OR flags OR PT_PRESENT"

lemma vmm_map_page_cases:
  assumes wf: "vmm_wf I s" and v: "PML4_INDEX v \<in> I"
  obtains (failed) s1 where "vmm_map_page v phys flags s = (False, s1)" "prepared 2 I (path_of v @ [PT_INDEX v]) s s1"
      "\<forall>p < total_pages s1. p \<in> allocated s1"
  | (mapped) s1 t where "prepared 3 I (path_of v @ [PT_INDEX v]) s s1" "walk (mem s1) (pml4 s1) (path_of v) = Some t"
      "vmm_map_page v phys flags s = (True, invlpg v (set_pte t (PT_INDEX v) (map_entry phys flags) s1))"
proof -
  note paths = path_prefixes [OF v]
  have prefixes: "prefix ([] @ [PML4_INDEX v]) (path_of v @ [PT_INDEX v])"
    "prefix ([PML4_INDEX v] @ [PDPT_INDEX v]) (path_of v @ [PT_INDEX v])"
    "prefix ([PML4_INDEX v, PDPT_INDEX v] @ [PD_INDEX v]) (path_of v @ [PT_INDEX v])"
    by (simp_all add: path_of_def)
  obtain pdpt s1 where r1: "get_or_create_table (pml4 s) (PML4_INDEX v) PT_WRITABLE s = (pdpt, s1)"
    by fastforce
  from get_or_create_table_prepares [OF wf _ _ paths(1) _ prefixes(1) r1]
  have p1: "prepared 1 I (path_of v @ [PT_INDEX v]) s s1" and c1: "if pdpt = 0 then s1 = s \<and> (\<forall>p < total_pages s. p \<in> allocated s)
      else walk (mem s1) (pml4 s1) [PML4_INDEX v] = Some pdpt" by (auto simp del: walk.simps(2))
  show thesis
  proof (cases "pdpt = 0")
    case True
    with failed [of s] r1 prepared_refl [OF wf, of 2] c1 show ?thesis by (simp add: vmm_map_page_def)
  next
    case n1: False
    obtain pd s2 where r2: "get_or_create_table pdpt (PDPT_INDEX v) PT_WRITABLE s1 = (pd, s2)"
      by fastforce
    from p1 have wf1: "vmm_wf I s1" by (simp add: prepared_def)
    have "[PML4_INDEX v] \<in> insert [] (paths I)" using paths(1) by simp
    from get_or_create_table_prepares [OF wf1 this _ paths(2) _ prefixes(2) r2] n1 c1
    have p2: "prepared (1 + 1) I (path_of v @ [PT_INDEX v]) s s2" and c2: "if pd = 0 then s2 = s1 \<and> (\<forall>p < total_pages s1. p \<in> allocated s1)
        else walk (mem s2) (pml4 s2) [PML4_INDEX v, PDPT_INDEX v] = Some pd"
      using prepared_trans [OF p1] by (auto simp del: walk.simps(2))
    show ?thesis
    proof (cases "pd = 0")
      case True
      with failed [of s1] r1 r2 n1 prepared_mono [OF p1, of 2] c2 show ?thesis by (simp add: vmm_map_page_def)
    next
      case n2: False
      obtain pt s3 where r3: "get_or_create_table pd (PD_INDEX v) PT_WRITABLE s2 = (pt, s3)"
        by fastforce
      from p2 have wf2: "vmm_wf I s2" by (simp add: prepared_def)
      have "[PML4_INDEX v, PDPT_INDEX v] \<in> insert [] (paths I)" using paths(2) by simp
      from get_or_create_table_prepares [OF wf2 this _ paths(3) _ prefixes(3) r3] n2 c2
      have p3: "prepared (1 + 1 + 1) I (path_of v @ [PT_INDEX v]) s s3" and c3: "if pt = 0 then s3 = s2 \<and> (\<forall>p < total_pages s2. p \<in> allocated s2)
          else walk (mem s3) (pml4 s3) (path_of v) = Some pt"
        using prepared_trans [OF p2] by (auto simp: path_of_def simp del: walk.simps(2))
      show ?thesis
      proof (cases "pt = 0")
        case True
        with failed [of s2] r1 r2 r3 n1 n2 prepared_mono [OF p2, of 2] c3 show ?thesis by (simp add: vmm_map_page_def)
      next
        case False
        with mapped [of s3 pt] r1 r2 r3 n1 n2 prepared_mono [OF p3, of 3] c3 show ?thesis
          by (simp add: vmm_map_page_def map_entry_def)
      qed
    qed
  qed
qed

lemma vmm_unmap_page_cases:
  "vmm_unmap_page v s =
     (case walk (mem s) (pml4 s) (path_of v) of
        None \<Rightarrow> s | Some t \<Rightarrow> invlpg v (set_pte t (PT_INDEX v) 0 s))"
  by (simp add: vmm_unmap_page_def path_of_def Let_def)

lemma invlpg_fields [simp]:
  "mem (invlpg v s) = mem s" "pml4 (invlpg v s') = pml4 s'"
  "page_bitmap (invlpg v p) = page_bitmap p" "total_pages (invlpg v p) = total_pages p"
  by (simp_all add: invlpg_def)

lemma vmm_wf_invlpg [simp]: "vmm_wf I (invlpg v s) = vmm_wf I s"
proof -
  have "allocated (invlpg v s) = allocated s"
    by (auto simp: allocated_def is_page_allocated_bit)
  then show ?thesis by (simp add: vmm_wf_def pmm_inv_allocated table_page_def)
qed

text \<open>The entry stored by a successful map is present and decodes to the frame asked for.\<close>

lemma present_map_entry: "present (map_entry phys flags)"
  by (simp add: map_entry_def present_iff bit_simps) (simp add: PT_PRESENT_def)

lemma pt_addr_map_entry: "pt_addr flags = 0 \<Longrightarrow> pt_addr (map_entry phys flags) = pt_addr phys"
  unfolding map_entry_def by (rule new_entry(2)) simp_all

section \<open>The contract of the page mapper\<close>

definition vmm_lookup :: "'a vmm_scheme \<Rightarrow> u64 \<Rightarrow> pte_t option" where
  "vmm_lookup s v = leaf (mem s) (pml4 s) v"

text \<open>A request carries the physical address and the flags.\<close>

definition vmm_map_op :: "u64 \<Rightarrow> u64 \<times> u64 \<Rightarrow> 'a vmm_scheme \<Rightarrow> bool \<times> 'a vmm_scheme" where
  "vmm_map_op v r s = vmm_map_page v (fst r) (snd r) s"

definition covered :: "u64 set \<Rightarrow> u64 \<Rightarrow> bool" where
  "covered I v \<longleftrightarrow> PML4_INDEX v \<in> I"

text \<open>Of the entries of existing tables only those on the way to the page change.\<close>

lemma vmm_map_keeps_entries:
  assumes "vmm_wf I s" "PML4_INDEX v \<in> I" "vmm_map_page v phys flags s = (ok, s')"
  shows "keeps_entries I (path_of v @ [PT_INDEX v]) (pml4 s) (mem s) (mem s')"
    "\<exists>m n i. s' = s\<lparr>mem := m, used_pages := n, invlpgs := i\<rparr>"
proof -
  show "keeps_entries I (path_of v @ [PT_INDEX v]) (pml4 s) (mem s) (mem s')"
    using assms(1,2)
  proof (cases rule: vmm_map_page_cases [where phys = phys and flags = flags])
    case (failed s1)
    with assms(3) show ?thesis by (auto simp: prepared_def)
  next
    case (mapped s1 t)
    then have "vmm_wf I s1" "pml4 s1 = pml4 s" "keeps_entries I (path_of v @ [PT_INDEX v]) (pml4 s) (mem s) (mem s1)"
      by (auto simp: prepared_def)
    with leaf_store(4) [OF this(1) assms(2) mapped(2)] mapped(3) assms(3) show ?thesis
      by (auto intro: keeps_entries_trans)
  qed
  show "\<exists>m n i. s' = s\<lparr>mem := m, used_pages := n, invlpgs := i\<rparr>"
    using assms(1,2)
  proof (cases rule: vmm_map_page_cases [where phys = phys and flags = flags])
    case (failed s1)
    with assms(3) obtain m n where "s' = s\<lparr>mem := m, used_pages := n\<rparr>" by (auto simp: prepared_def)
    then show ?thesis by (intro exI [of _ m] exI [of _ n] exI [of _ "invlpgs s"]) simp
  next
    case (mapped s1 t)
    with assms(3) obtain m n where "s1 = s\<lparr>mem := m, used_pages := n\<rparr>" "s' = invlpg v (set_pte t (PT_INDEX v) (map_entry phys flags) s1)"
      by (auto simp: prepared_def)
    then show ?thesis
      by (intro exI [of _ "store64 m (t + 8 * PT_INDEX v) (map_entry phys flags)"] exI [of _ n]
          exI [of _ "invlpgs s @ [v]"]) (simp add: invlpg_def set_pte_def)
  qed
qed

lemma vmm_map_wf:
  assumes "vmm_wf I s" "PML4_INDEX v \<in> I" "vmm_map_page v phys flags s = (ok, s')"
  shows "vmm_wf I s'"
  using assms(1,2)
proof (cases rule: vmm_map_page_cases [where phys = phys and flags = flags])
  case (failed s1)
  with assms(3) show ?thesis by (simp add: prepared_def)
next
  case (mapped s1 t)
  then have "vmm_wf I s1" by (simp add: prepared_def)
  with leaf_store(1) [OF _ assms(2) mapped(2)] assms(3) mapped(3) show ?thesis by auto
qed

lemma vmm_map_lookup:
  assumes "vmm_wf I s" "PML4_INDEX v \<in> I" "PML4_INDEX w \<in> I"
    and "vmm_map_page v phys flags s = (ok, s')"
  shows "vmm_lookup s' w =
    (if ok \<and> same_page w v then Some (map_entry phys flags) else vmm_lookup s w)"
  using assms(1,2)
proof (cases rule: vmm_map_page_cases [where phys = phys and flags = flags])
  case (failed s1)
  with assms(3,4) show ?thesis by (auto simp: prepared_def vmm_lookup_def)
next
  case (mapped s1 t)
  then have "vmm_wf I s1" by (simp add: prepared_def)
  from leaf_store(2) [OF this assms(2) mapped(2) assms(3), of "map_entry phys flags"]
  show ?thesis
    using mapped assms(3,4) by (auto simp: prepared_def vmm_lookup_def present_map_entry)
qed

lemma vmm_map_clear:
  assumes "vmm_wf I s" "clear_tree b I (mem s) (pml4 s)" "PML4_INDEX v \<in> I" "vmm_map_page v phys flags s = (ok, s')"
    and "b \<in> {2, 7}"
  shows "clear_tree b I (mem s') (pml4 s')"
  using assms(1,3)
proof (cases rule: vmm_map_page_cases [where phys = phys and flags = flags])
  case (failed s1)
  with assms(2,4,5) show ?thesis by (auto simp: prepared_def)
next
  case (mapped s1 t)
  then have "vmm_wf I s1" "clear_tree b I (mem s1) (pml4 s1)" using assms(2,5) by (auto simp: prepared_def)
  with leaf_store(3) [OF this(1) assms(3) mapped(2)] assms(4) mapped(3) show ?thesis by auto
qed

lemmas vmm_map_small = vmm_map_clear [where b = 7, simplified]

lemma vmm_unmap_clear:
  assumes "vmm_wf I s" "clear_tree b I (mem s) (pml4 s)" "PML4_INDEX v \<in> I"
  shows "clear_tree b I (mem (vmm_unmap_page v s)) (pml4 (vmm_unmap_page v s))"
  using leaf_store(3) [OF assms(1,3) _ assms(2)] assms(2)
  by (simp add: vmm_unmap_page_cases split: option.split)

text \<open>Where the tree is proper and has no large pages, the processor finds what the lookup finds.\<close>

lemma mmu_leaf:
  assumes "vmm_wf I s" "small_tree I (mem s) (pml4 s)" "PML4_INDEX v \<in> I"
  shows "mmu_translate (mem s) (pml4 s) v = map_option (\<lambda>e. pt_addr e + (v AND 0xFFF)) (leaf (mem s) (pml4 s) v)"
proof -
  have root: "pt_addr (pml4 s) = pml4 s" using assms(1) by (simp add: vmm_wf_def frame_addr_def)
  let ?e4 = "pte (mem s) (pml4 s) (PML4_INDEX v)"
  let ?e3 = "pte (mem s) (pt_addr ?e4) (PDPT_INDEX v)"
  let ?e2 = "pte (mem s) (pt_addr ?e3) (PD_INDEX v)"
  note prefixes = path_prefixes [OF assms(3)]
  have "present ?e4 \<Longrightarrow> present ?e3 \<Longrightarrow> \<not> bit ?e3 7"
    using clear_treeD [OF assms(2) prefixes(2)] by simp
  moreover have "present ?e4 \<Longrightarrow> present ?e3 \<Longrightarrow> present ?e2 \<Longrightarrow> \<not> bit ?e2 7"
    using clear_treeD [OF assms(2) prefixes(3)] by simp
  ultimately show ?thesis
    unfolding mmu_translate_def leaf_def path_of_def Let_def root by simp
qed

lemma vmm_unmap_wf:
  assumes "vmm_wf I s" "PML4_INDEX v \<in> I"
  shows "vmm_wf I (vmm_unmap_page v s)"
  using assms leaf_store(1) [OF assms, of _ 0]
  by (auto simp: vmm_unmap_page_cases split: option.split)

lemma vmm_unmap_lookup:
  assumes "vmm_wf I s" "PML4_INDEX v \<in> I" "PML4_INDEX w \<in> I"
  shows "vmm_lookup (vmm_unmap_page v s) w = (if same_page w v then None else vmm_lookup s w)"
proof (cases "walk (mem s) (pml4 s) (path_of v)")
  case None
  then have "same_page w v \<Longrightarrow> vmm_lookup s w = None"
    by (simp add: same_page_indices vmm_lookup_def leaf_def)
  with None show ?thesis by (simp add: vmm_unmap_page_cases)
next
  case (Some t)
  with leaf_store(2) [OF assms(1,2) Some assms(3), of 0] show ?thesis
    by (simp add: vmm_unmap_page_cases vmm_lookup_def)
qed

text \<open>The contract also keeps directories free of the bits in \<open>B\<close>: large pages, user access.\<close>

abbreviation clear_trees :: "nat set \<Rightarrow> u64 set \<Rightarrow> 'a vmm_scheme \<Rightarrow> bool" where
  "clear_trees B I s \<equiv> \<forall>b \<in> B \<inter> {2, 7}. clear_tree b I (mem s) (pml4 s)"

interpretation mapper: page_mapper "\<lambda>s. vmm_wf I s \<and> clear_trees B I s" "covered I" same_page vmm_lookup
    "\<lambda>r. map_entry (fst r) (snd r)" vmm_map_op vmm_unmap_page for I B
proof unfold_locales
  fix s s' :: "'a vmm_scheme" and v w r ok
  assume inv: "vmm_wf I s \<and> clear_trees B I s" and v: "covered I v"
  then have wf: "vmm_wf I s" by simp
  let ?u = "vmm_unmap_page v s"
  show "vmm_wf I ?u \<and> clear_trees B I ?u"
    using vmm_unmap_wf [of I s v] vmm_unmap_clear [of I s _ v] inv v unfolding covered_def by blast
  show "vmm_wf I s' \<and> clear_trees B I s'" if "vmm_map_op v r s = (ok, s')"
    using vmm_map_wf vmm_map_clear inv v that unfolding covered_def vmm_map_op_def by blast
  assume w: "covered I w"
  show "vmm_lookup (vmm_unmap_page v s) w = (if same_page w v then None else vmm_lookup s w)"
    by (rule vmm_unmap_lookup [OF wf]) (use v w in \<open>simp_all add: covered_def\<close>)
  show "vmm_lookup s' w = (if same_page w v then Some (map_entry (fst r) (snd r)) else vmm_lookup s w)"
    if "vmm_map_op v r s = (True, s')"
    using vmm_map_lookup [OF wf _ _ that [unfolded vmm_map_op_def]] v w by (simp add: covered_def)
  show "vmm_lookup s' w = vmm_lookup s w" if "vmm_map_op v r s = (False, s')"
    using vmm_map_lookup [OF wf _ _ that [unfolded vmm_map_op_def]] v w by (simp add: covered_def)
qed

section \<open>Properties\<close>

lemma vmm_get_physical_lookup:
  "vmm_get_physical v s = (case vmm_lookup s v of None \<Rightarrow> 0 | Some e \<Rightarrow> pt_addr e + (v AND 0xFFF))"
  by (simp add: vmm_get_physical_leaf vmm_lookup_def)

text \<open>An empty top-level table at 0x1000 over the example page allocator.\<close>

definition example_vmm :: vmm where
  "example_vmm = pmm.extend (pmm.truncate example_pmm) (vmm.fields 0x1000)"

lemma example_vmm_fields:
  "mem example_vmm = mem example_pmm" "pml4 example_vmm = 0x1000" "total_pages example_vmm = 0x1000"
  "page_bitmap example_vmm = 0x140000" "allocated example_vmm = {p. p < 0x180}"
proof -
  show f: "mem example_vmm = mem example_pmm" "pml4 example_vmm = 0x1000" "total_pages example_vmm = 0x1000"
    "page_bitmap example_vmm = 0x140000"
    by (simp_all add: example_vmm_def example_pmm_def pmm.defs vmm.defs)
  have "allocated example_vmm = allocated example_pmm"
    unfolding allocated_def is_page_allocated_bit f by (simp add: example_pmm_fields)
  then show "allocated example_vmm = {p. p < 0x180}" by (simp add: example_pmm_allocated)
qed

lemma example_vmm_root: "i < 512 \<Longrightarrow> pte (mem example_vmm) 0x1000 i = 0"
proof -
  assume i: "i < 512"
  have "only_changes (\<lambda>_. 0) (mem example_vmm) 0x140000 0x140030"
    by (simp add: only_changes_def example_vmm_fields) (auto simp: example_pmm_def)
  then have "pte (mem example_vmm) 0x1000 i = pte (\<lambda>_. 0) 0x1000 i"
    by (rule pte_frame) (simp_all add: i frame_addr_def PT_ADDR_MASK_def)
  also have "load_bytes n (\<lambda>_. 0) a = (0 :: u64)" for n a
    by (induction n arbitrary: a) simp_all
  then have "pte (\<lambda>_. 0) 0x1000 i = 0" by (simp add: pte_def load64_def)
  finally show ?thesis .
qed

lemma example_vmm_walk: "ps \<in> paths I \<Longrightarrow> walk (mem example_vmm) 0x1000 ps = None"
  by (cases ps) (auto simp: paths_def example_vmm_root)

lemma example_vmm_wf: "vmm_wf I example_vmm"
proof -
  have "pmm_inv example_vmm"
    by (simp add: pmm_inv_allocated example_vmm_fields example_pmm_reserved)
  moreover have "table_page example_vmm 0x1000"
    by (simp add: table_page_def example_vmm_fields PAGE_SIZE_def)
  moreover have "frame_addr 0x1000" by (simp add: frame_addr_def PT_ADDR_MASK_def)
  ultimately show ?thesis
    unfolding vmm_wf_def example_vmm_fields(2) by (simp add: example_vmm_walk)
qed

lemma vmm_map_result:
  assumes wf: "vmm_wf I s" and v: "PML4_INDEX v \<in> I" and res: "vmm_map_page v phys flags s = (ok, s')"
  shows "(ok \<or> (\<forall>p < total_pages s. p \<in> allocated s') \<and> card (allocated s') \<le> card (allocated s) + 2) \<and>
    grows 3 I s s'"
  using wf v
proof (cases rule: vmm_map_page_cases [where phys = phys and flags = flags])
  case (failed s1)
  then have "total_pages s1 = total_pages s" by (auto simp: prepared_def)
  with failed res grows_mono [of 2 I s s1 3] show ?thesis by (auto simp: prepared_def grows_def)
next
  case (mapped s1 t)
  let ?i = "PT_INDEX v" and ?e = "map_entry phys flags"
  have wf1: "vmm_wf I s1" and g: "grows 3 I s s1" using mapped(1) by (simp_all add: prepared_def)
  have ok: "ok" and s': "s' = invlpg v (set_pte t ?i ?e s1)" using mapped(3) res by simp_all
  have tin: "t \<in> tables I s1" using mapped(2) path_of_paths [OF v] unfolding tables_def by blast
  from tables_facts [OF wf1 tin] have tf: "frame_addr t" and tp: "table_page s1 t" .
  have chg: "only_changes (mem s1) (mem s') (unat t) (unat t + 4096)"
    using store64_only_changes [of "t + 8 * ?i" "mem s1" ?e] unat_entry_addr [OF tf index_less(4) [of v]]
      index_less(4) [of v] frame_addr_unat(2) [OF tf]
    by (auto elim!: only_changes_mono simp: word_less_nat_alt s')
  have bm: "page_bitmap s1 = 0x140000" using wf1 by (simp add: vmm_wf_def pmm_inv_def)
  have alloc: "allocated s' = allocated s1"
    by (rule allocated_frame [OF chg]) (use tp bm in \<open>auto simp: table_page_def s'\<close>)
  have same_walk: "walk (mem s') (pml4 s1) qs = walk (mem s1) (pml4 s1) qs" if "qs \<in> insert [] (paths I)" for qs
  proof (rule walk_update_other [OF wf1 _ _ mapped(2)])
    show "entry_update I s1 t ?i ?e (mem s')"
      unfolding entry_update_def s' using tables_facts(1) [OF wf1] pte_store_same [OF tf index_less(4)]
        pte_store_other [OF tf index_less(4)] by auto
    show "path_of v \<in> insert [] (paths I)" using path_of_paths [OF v] by blast
    show "\<not> prefix (path_of v @ [?i]) qs"
      using that prefix_length_le by (fastforce simp: paths_def path_of_def)
  qed (use that in simp)
  have tabs: "tables I s' = tables I s1"
    using same_walk by (auto simp: tables_def s')
  have "untouched I s' x \<and> mem s' x = mem s1 x" if x: "untouched I s1 x" for x
  proof -
    have "unat x < unat t \<or> unat t + 4096 \<le> unat x" using x tin by (auto simp: untouched_def)
    from only_changesD [OF chg this] show ?thesis
      using x by (simp add: untouched_def tabs alloc) (simp add: s')
  qed
  then have "grows 0 I s1 s'" by (simp add: grows_def alloc)
  with grows_trans [OF g, of 0 s'] ok show ?thesis by simp
qed

text \<open>
  C8: A successful \<open>vmm_map_page\<close> makes every address of the page translate to the frame
  asked for plus its offset; the translation of every other covered address is as
  before, and the tables stay proper.
\<close>

theorem vmm_map_translates:
  assumes "vmm_wf I s" "PML4_INDEX v \<in> I" "flags AND PT_ADDR_MASK = 0"
    and "vmm_map_page v phys flags s = (True, s')"
  shows "vmm_wf I s' \<and> (\<forall>w. PML4_INDEX w \<in> I \<longrightarrow> vmm_get_physical w s' =
    (if same_page w v then (phys AND PT_ADDR_MASK) + (w AND 0xFFF) else vmm_get_physical w s))"
  using vmm_map_wf [OF assms(1,2,4)] vmm_map_lookup [OF assms(1,2) _ assms(4)]
  by (auto simp: vmm_get_physical_lookup pt_addr_map_entry [OF assms(3)])

text \<open>
  C24: A \<open>vmm_map_page\<close> that fails has found every page of memory allocated; the tables
  stay proper and no translation has changed.
\<close>

theorem vmm_map_failure:
  assumes "vmm_wf I s" "PML4_INDEX v \<in> I" "vmm_map_page v phys flags s = (False, s')"
  shows "vmm_wf I s' \<and> (\<forall>p < total_pages s. p \<in> allocated s') \<and>
    (\<forall>w. PML4_INDEX w \<in> I \<longrightarrow> vmm_get_physical w s' = vmm_get_physical w s)"
  using vmm_map_wf [OF assms] vmm_map_lookup [OF assms(1,2) _ assms(3)] vmm_map_result [OF assms]
  by (auto simp: vmm_get_physical_lookup)

text \<open>
  C23: Three free pages are always enough: when at least three pages are free \<open>vmm_map_page\<close>
  succeeds, whatever tables exist already, and it takes at most three pages.
\<close>

theorem vmm_map_succeeds:
  assumes "vmm_wf I s" "PML4_INDEX v \<in> I" "card (allocated s) + 3 \<le> unat (total_pages s)"
  shows "\<exists>s'. vmm_map_page v phys flags s = (True, s') \<and> card (allocated s') \<le> card (allocated s) + 3"
proof -
  obtain ok s' where res: "vmm_map_page v phys flags s = (ok, s')" by fastforce
  note r = vmm_map_result [OF assms(1,2) res]
  have "card {p. p < total_pages s} \<le> card (allocated s')" if "\<not> ok"
    using r that by (intro card_mono) auto
  then have ok using r assms(3) card_segment [of "total_pages s"] by fastforce
  with res r show ?thesis by (auto simp: grows_def)
qed

lemma example_vmm_map:
  "\<exists>s'. vmm_map_page 0x8000000000 phys flags example_vmm = (True, s') \<and> card (allocated s') \<le> 387"
proof -
  have "card (allocated example_vmm) = 0x180" by (simp add: example_vmm_fields card_segment)
  then show ?thesis
    using vmm_map_result [OF example_vmm_wf [of UNIV], of "0x8000000000" phys flags]
      card_mono [of "allocated (snd (vmm_map_page 0x8000000000 phys flags example_vmm))" "{p. p < 0x1000}"]
    by (cases "vmm_map_page 0x8000000000 phys flags example_vmm")
      (auto simp: grows_def card_segment example_vmm_fields)
qed

theorem vmm_map_succeeds_witness:
  "\<exists>s'. vmm_map_page 0x8000000000 0x5000 PT_WRITABLE example_vmm = (True, s') \<and>
     card (allocated s') \<le> card (allocated example_vmm) + 3"
  by (rule vmm_map_succeeds [OF example_vmm_wf [of UNIV]]) (simp_all add: example_vmm_fields card_segment)

theorem vmm_map_translates_witness:
  "\<exists>s'. vmm_map_page 0x8000000000 0x5000 PT_WRITABLE example_vmm = (True, s') \<and>
     vmm_get_physical 0x8000000123 s' = 0x5123"
proof -
  obtain s' where s': "vmm_map_page 0x8000000000 0x5000 PT_WRITABLE example_vmm = (True, s')"
    using example_vmm_map by blast
  have "same_page 0x8000000123 0x8000000000"
    by (simp add: same_page_def take_bit_eq_mod drop_bit_eq_div)
  moreover have "PT_WRITABLE AND PT_ADDR_MASK = 0" by (simp add: PT_WRITABLE_def PT_ADDR_MASK_def)
  ultimately show ?thesis
    using vmm_map_translates [OF example_vmm_wf [of UNIV] _ _ s'] s'
    by (simp add: PT_ADDR_MASK_def)
qed

text \<open>The same machine with only the 0x180 pages that are taken: no page is left.\<close>

definition full_vmm :: vmm where
  "full_vmm = example_vmm\<lparr>total_pages := 0x180\<rparr>"

lemma full_vmm_fields:
  "mem full_vmm = mem example_vmm" "pml4 full_vmm = 0x1000" "page_bitmap full_vmm = 0x140000"
  "total_pages full_vmm = 0x180"
  by (simp_all add: full_vmm_def example_vmm_fields [unfolded example_vmm_fields(1)])

lemma full_vmm_allocated: "allocated full_vmm = {p. p < 0x180}"
proof -
  have "p < 0x180 \<Longrightarrow> p \<in> allocated example_vmm" for p by (simp add: example_vmm_fields)
  moreover have "is_page_allocated p full_vmm = is_page_allocated p example_vmm" for p
    by (simp add: is_page_allocated_bit full_vmm_def)
  ultimately show ?thesis by (auto simp: allocated_def full_vmm_fields)
qed

lemma full_vmm_wf: "vmm_wf I full_vmm"
proof -
  have "reserved 0x180 = {p. p < 0x180}"
    by (subst reserved_segment) (simp_all add: reserved_end_def bitmap_pages_def)
  then have "pmm_inv full_vmm"
    by (simp add: pmm_inv_allocated full_vmm_fields full_vmm_allocated)
  moreover have "table_page full_vmm 0x1000"
    by (simp add: table_page_def full_vmm_allocated PAGE_SIZE_def)
  moreover have "frame_addr 0x1000" by (simp add: frame_addr_def PT_ADDR_MASK_def)
  ultimately show ?thesis
    unfolding vmm_wf_def full_vmm_fields(1,2) by (simp add: example_vmm_walk)
qed

lemma full_vmm_map: "vmm_map_page v phys flags full_vmm = (False, full_vmm)"
proof -
  have "pmm_alloc_page full_vmm = (0, full_vmm)"
    using conjunct1 [OF full_vmm_wf [unfolded vmm_wf_def]]
    by (cases rule: pmm_alloc_inv_cases) (simp_all add: full_vmm_allocated full_vmm_fields)
  moreover have "pte (mem full_vmm) 0x1000 (PML4_INDEX v) = 0"
    unfolding full_vmm_fields by (rule example_vmm_root) (rule index_less)
  ultimately show ?thesis
    by (simp add: vmm_map_page_def get_or_create_table_def alloc_page_table_def full_vmm_fields)
qed

theorem vmm_map_failure_witness:
  "vmm_map_page 0x8000000000 0x5000 PT_WRITABLE full_vmm = (False, full_vmm) \<and>
   vmm_wf UNIV full_vmm \<and> 0x17F \<in> allocated full_vmm"
  using vmm_map_failure [OF full_vmm_wf [of UNIV] _ full_vmm_map [of "0x8000000000" "0x5000" PT_WRITABLE]]
  by (simp add: full_vmm_map full_vmm_fields)

text \<open>
  C25: After \<open>vmm_unmap_page\<close> no address of the page translates; every other covered
  translation is as before, and the tables stay proper.
\<close>

theorem vmm_unmap_translates:
  assumes "vmm_wf I s" "PML4_INDEX v \<in> I"
  shows "vmm_wf I (vmm_unmap_page v s) \<and> (\<forall>w. PML4_INDEX w \<in> I \<longrightarrow>
    vmm_get_physical w (vmm_unmap_page v s) = (if same_page w v then 0 else vmm_get_physical w s))"
  using vmm_unmap_wf [OF assms] vmm_unmap_lookup [OF assms]
  by (auto simp: vmm_get_physical_lookup)

theorem vmm_unmap_translates_witness:
  "\<exists>s'. vmm_map_page 0x8000000000 0x5000 PT_WRITABLE example_vmm = (True, s') \<and>
     vmm_get_physical 0x8000000000 (vmm_unmap_page 0x8000000000 s') = 0"
proof -
  obtain s' where s': "vmm_map_page 0x8000000000 0x5000 PT_WRITABLE example_vmm = (True, s')"
    using example_vmm_map by blast
  have "vmm_wf UNIV s'" by (rule vmm_map_wf [OF example_vmm_wf _ s']) simp
  from vmm_unmap_translates [OF this, of "0x8000000000"] s' show ?thesis by (simp add: same_page_def)
qed

text \<open>
  Any sequence of map and unmap requests on covered addresses acts on the
  translations like the same sequence of updates of a function from pages to entries,
  in which the failed requests are left out.
\<close>

lemma vmm_requests_replay:
  assumes "vmm_wf I s" "\<forall>r \<in> set rs. PML4_INDEX (target r) \<in> I"
    and "run_requests vmm_map_op vmm_unmap_page rs s = (oks, s')"
  shows "vmm_wf I s' \<and> (\<forall>w. PML4_INDEX w \<in> I \<longrightarrow>
    vmm_lookup s' w = replay same_page (\<lambda>r. map_entry (fst r) (snd r)) rs oks (vmm_lookup s) w)"
  using mapper.run_replays [of I s "{}", OF _ _ assms(3)] assms(1,2) by (simp add: covered_def)

lemma vmm_requests_replay_witness:
  "\<exists>ok s'. run_requests vmm_map_op vmm_unmap_page [Map 0x8000000000 (0x5000, 0), Unmap 0x8000000000] example_vmm
      = ([ok, True], s') \<and> vmm_lookup s' 0x8000000000 = None"
proof -
  obtain ok s' where run: "run_requests vmm_map_op vmm_unmap_page
      [Map 0x8000000000 (0x5000, 0), Unmap 0x8000000000] example_vmm = ([ok, True], s')"
    by (cases "vmm_map_op 0x8000000000 (0x5000, 0) example_vmm") simp
  from vmm_requests_replay [OF example_vmm_wf [of UNIV] _ run] run show ?thesis by (simp add: same_page_def)
qed

text \<open>
  C9: The processor agrees: from tables without large pages, after any sequence of map and unmap
  requests it translates an address to the frame of the last request for its page that was met,
  plus the offset, and faults where there is none.
\<close>

theorem vmm_requests_hardware:
  assumes "vmm_wf I s" "small_tree I (mem s) (pml4 s)" "\<forall>r \<in> set rs. PML4_INDEX (target r) \<in> I"
    and "run_requests vmm_map_op vmm_unmap_page rs s = (oks, s')"
  shows "\<forall>w. PML4_INDEX w \<in> I \<longrightarrow> mmu_translate (mem s') (pml4 s') w =
    map_option (\<lambda>e. (e AND PT_ADDR_MASK) + (w AND 0xFFF))
      (replay same_page (\<lambda>r. map_entry (fst r) (snd r)) rs oks (vmm_lookup s) w)"
  using mapper.run_replays [of I s "{7}", OF _ _ assms(4)] assms(1,2,3) mmu_leaf [of I s']
  by (simp add: covered_def vmm_lookup_def)

lemma example_vmm_small: "clear_tree b I (mem example_vmm) 0x1000"
proof -
  have "\<not> present (pte (mem example_vmm) t i)" if "ps @ [i] \<in> paths I" "walk (mem example_vmm) 0x1000 ps = Some t" for ps i t
  proof (cases "ps = []")
    case True
    with that show ?thesis by (simp add: paths_def example_vmm_root PT_PRESENT_def)
  next
    case False
    with that(1) have "ps \<in> paths I" using paths_snoc by blast
    with that(2) show ?thesis by (simp add: example_vmm_walk)
  qed
  then show ?thesis unfolding clear_tree_def by blast
qed

theorem vmm_requests_hardware_witness:
  "\<exists>s'. run_requests vmm_map_op vmm_unmap_page [Map 0x8000000000 (0x5000, PT_WRITABLE)] example_vmm = ([True], s') \<and>
     mmu_translate (mem s') (pml4 s') 0x8000000123 = Some 0x5123"
proof -
  obtain s' where "vmm_map_page 0x8000000000 0x5000 PT_WRITABLE example_vmm = (True, s')"
    using example_vmm_map [of "0x5000"] by blast
  then have run: "run_requests vmm_map_op vmm_unmap_page [Map 0x8000000000 (0x5000, PT_WRITABLE)] example_vmm = ([True], s')"
    by (simp add: vmm_map_op_def)
  have small: "small_tree UNIV (mem example_vmm) (pml4 example_vmm)"
    using example_vmm_small by (simp add: example_vmm_fields)
  from vmm_requests_hardware [OF example_vmm_wf small _ run]
  have "mmu_translate (mem s') (pml4 s') 0x8000000123 = Some (pt_addr (map_entry 0x5000 PT_WRITABLE) + 0x123)"
    by (simp add: same_page_def)
  then have "mmu_translate (mem s') (pml4 s') 0x8000000123 = Some 0x5123"
    by (simp add: map_entry_def PT_WRITABLE_def PT_PRESENT_def PT_ADDR_MASK_def)
  with run show ?thesis by blast
qed

text \<open>
  What the processor asks before it lets user mode reach an address: \<open>PT_USER\<close> in every entry on
  the way to the page.
\<close>

definition user_access :: "memory \<Rightarrow> u64 \<Rightarrow> u64 \<Rightarrow> bool" where
  "user_access m root v \<longleftrightarrow>
     (let e4 = pte m (pt_addr root) (PML4_INDEX v);
          e3 = pte m (pt_addr e4) (PDPT_INDEX v);
          e2 = pte m (pt_addr e3) (PD_INDEX v);
          e1 = pte m (pt_addr e2) (PT_INDEX v);
          user = (\<lambda>e. present e \<and> e AND PT_USER \<noteq> 0)
      in user e4 \<and> user e3 \<and> (bit e3 7 \<or> user e2 \<and> (bit e2 7 \<or> user e1)))"

lemma PT_USER_bit: "e AND PT_USER \<noteq> 0 \<longleftrightarrow> bit e 2"
proof -
  have "PT_USER = push_bit 2 1" by (simp add: PT_USER_def)
  then show ?thesis by (metis and_exp_eq_0_iff_not_bit push_bit_of_1)
qed

text \<open>
  C16: The flag \<open>PT_USER\<close> of a request has no effect: \<open>vmm_map_page\<close> makes the directory entries on
  the way writable and present only, so from tables without it in a directory, as the boot leaves
  them, no sequence of map and unmap requests, whatever their flags, lets user mode reach any
  address. In the witness the page is mapped with the flag, and the leaf entry has it.
\<close>

theorem user_pages_unreachable:
  assumes "vmm_wf I s" "supervisor_tree I (mem s) (pml4 s)" "\<forall>r \<in> set rs. PML4_INDEX (target r) \<in> I"
    and "run_requests vmm_map_op vmm_unmap_page rs s = (oks, s')" "PML4_INDEX w \<in> I"
  shows "\<not> user_access (mem s') (pml4 s') w"
proof -
  have "vmm_wf I s'" "supervisor_tree I (mem s') (pml4 s')"
    using mapper.run_replays [of I s "{2}", OF _ _ assms(4)] assms(1,2,3) by (simp_all add: covered_def)
  moreover have "pt_addr (pml4 s') = pml4 s'" using \<open>vmm_wf I s'\<close> by (simp add: vmm_wf_def frame_addr_def)
  ultimately show ?thesis
    using clear_treeD [OF _ path_prefixes(1) [OF assms(5)], of 2 "mem s'" "pml4 s'"]
    by (auto simp: user_access_def Let_def PT_USER_bit)
qed

theorem user_pages_unreachable_witness:
  "\<exists>s'. run_requests vmm_map_op vmm_unmap_page [Map 0x8000000000 (0x5000, PT_WRITABLE OR PT_USER)] example_vmm =
      ([True], s') \<and>
     vmm_lookup s' 0x8000000000 = Some 0x5007 \<and> \<not> user_access (mem s') (pml4 s') 0x8000000000"
proof -
  let ?f = "PT_WRITABLE OR PT_USER"
  obtain s' where map: "vmm_map_page 0x8000000000 0x5000 ?f example_vmm = (True, s')"
    using example_vmm_map [of "0x5000" ?f] by blast
  then have run: "run_requests vmm_map_op vmm_unmap_page [Map 0x8000000000 (0x5000, ?f)] example_vmm = ([True], s')"
    by (simp add: vmm_map_op_def)
  have "vmm_lookup s' 0x8000000000 = Some (map_entry 0x5000 ?f)"
    using vmm_map_lookup [OF example_vmm_wf [of UNIV] _ _ map, of "0x8000000000"] by (simp add: same_page_def)
  moreover have "map_entry 0x5000 ?f = 0x5007"
    by (simp add: map_entry_def PT_WRITABLE_def PT_USER_def PT_PRESENT_def PT_ADDR_MASK_def)
  moreover have "supervisor_tree UNIV (mem example_vmm) (pml4 example_vmm)"
    using example_vmm_small by (simp add: example_vmm_fields)
  ultimately show ?thesis
    using user_pages_unreachable [OF example_vmm_wf _ _ run] run by simp
qed



text \<open>
  \<open>vmm_is_mapped\<close> answers no exactly for an address without a leaf entry and for one
  that translates to physical address 0; so the first byte of a page mapped to frame 0
  is reported as not mapped although its entry is present.
\<close>

lemma vmm_is_mapped_frame_0:
  assumes "vmm_wf I s" "PML4_INDEX v \<in> I" "flags AND PT_ADDR_MASK = 0" "v AND 0xFFF = 0"
    and "vmm_map_page v 0 flags s = (True, s')"
  shows "(\<forall>w. vmm_is_mapped w s' \<longleftrightarrow>
      (\<exists>e. vmm_lookup s' w = Some e \<and> (e AND PT_ADDR_MASK) + (w AND 0xFFF) \<noteq> 0)) \<and>
    vmm_lookup s' v = Some (flags OR PT_PRESENT) \<and> \<not> vmm_is_mapped v s'"
proof -
  have "vmm_lookup s' v = Some (map_entry 0 flags)"
    using vmm_map_lookup [OF assms(1,2,2,5)] by (simp add: same_page_def)
  then show ?thesis
    using assms(4) pt_addr_map_entry [OF assms(3), of 0]
    by (auto simp: vmm_is_mapped_def vmm_get_physical_lookup map_entry_def split: option.splits)
qed

lemma vmm_is_mapped_frame_0_witness:
  "\<exists>s'. vmm_map_page 0x8000000000 0 PT_WRITABLE example_vmm = (True, s') \<and>
     vmm_lookup s' 0x8000000000 = Some 3 \<and> \<not> vmm_is_mapped 0x8000000000 s'"
proof -
  obtain s' where s': "vmm_map_page 0x8000000000 0 PT_WRITABLE example_vmm = (True, s')"
    using example_vmm_map [of 0] by blast
  have "PT_WRITABLE AND PT_ADDR_MASK = 0" by (simp add: PT_WRITABLE_def PT_ADDR_MASK_def)
  from vmm_is_mapped_frame_0 [OF example_vmm_wf [of UNIV] _ this _ s'] s' show ?thesis
    by (simp add: PT_WRITABLE_def PT_PRESENT_def PT_ADDR_MASK_def)
qed

end
