(* ===== verification/Kmalloc.thy ===== *)
theory Kmalloc
  imports Vmm
begin

text \<open>
  The kernel heap, \<open>kernel/memory/kmalloc.c\<close> and \<open>kmalloc.h\<close>: first fit over a
  singly linked list of block headers that live in memory at 0x180000, splitting
  on allocation and merging with both neighbours on release. The list is walked
  by following pointers, so the loops are partial functions. Abstractly the heap
  is a list of sized blocks; the lemmas give every operation as an operation on
  that list and prove that the loops end on every well-formed heap.
\<close>

section \<open>State and operations\<close>

text \<open>
  The header \<open>block_header_t\<close>: \<open>size\<close> at offset 0, \<open>is_free\<close> (one byte) at offset
  8, \<open>next\<close> at offset 16; 24 bytes with the padding of the x86-64 ABI.
\<close>

definition HEAP_START :: u64 where "HEAP_START = 0x180000"
definition HEAP_SIZE :: u64 where "HEAP_SIZE = 0x80000"
definition BLOCK_HEADER_SIZE :: u64 where "BLOCK_HEADER_SIZE = 24"

definition blk_size :: "memory \<Rightarrow> u64 \<Rightarrow> u64" where
  "blk_size m b = load64 m b"

definition blk_is_free :: "memory \<Rightarrow> u64 \<Rightarrow> bool" where
  "blk_is_free m b \<longleftrightarrow> m (b + 8) \<noteq> 0"

definition blk_next :: "memory \<Rightarrow> u64 \<Rightarrow> u64" where
  "blk_next m b = load64 m (b + 16)"

definition set_size :: "u64 \<Rightarrow> u64 \<Rightarrow> memory \<Rightarrow> memory" where
  "set_size b v m = store64 m b v"

definition set_is_free :: "u64 \<Rightarrow> bool \<Rightarrow> memory \<Rightarrow> memory" where
  "set_is_free b v m = m(b + 8 := of_bool v)"

definition set_next :: "u64 \<Rightarrow> u64 \<Rightarrow> memory \<Rightarrow> memory" where
  "set_next b v m = store64 m (b + 16) v"

record heap = vmm +
  heap_start :: u64
  total_allocated :: u64

definition align_size :: "u64 \<Rightarrow> u64" where
  "align_size sz = (sz + 15) AND NOT 15"

definition kmalloc_init :: "'a heap_scheme \<Rightarrow> 'a heap_scheme option" where
  "kmalloc_init s =
     (let s = s\<lparr>heap_start := HEAP_START\<rparr>;
          s = s\<lparr>mem := set_size (heap_start s) (HEAP_SIZE - BLOCK_HEADER_SIZE) (mem s)\<rparr>;
          s = s\<lparr>mem := set_is_free (heap_start s) True (mem s)\<rparr>;
          s = s\<lparr>mem := set_next (heap_start s) 0 (mem s)\<rparr>
      in serial_writestring
           (cstr (''[KMALLOC] Kernel heap allocator initialized'' @ [CHR 0x0A])) s)"

text \<open>The split inside the loop of \<open>kmalloc\<close>.\<close>

definition split_block :: "u64 \<Rightarrow> u64 \<Rightarrow> memory \<Rightarrow> memory" where
  "split_block current sz m =
     (if blk_size m current \<ge> sz + BLOCK_HEADER_SIZE + 16
      then let new_block = current + BLOCK_HEADER_SIZE + sz;
               m = set_size new_block (blk_size m current - sz - BLOCK_HEADER_SIZE) m;
               m = set_is_free new_block True m;
               m = set_next new_block (blk_next m current) m;
               m = set_size current sz m
           in set_next current new_block m
      else m)"

text \<open>The body of the loop for the block that is taken.\<close>

definition take_block :: "u64 \<Rightarrow> u64 \<Rightarrow> 'a heap_scheme \<Rightarrow> u64 \<times> 'a heap_scheme" where
  "take_block current sz s =
     (let s = s\<lparr>mem := split_block current sz (mem s)\<rparr>;
          s = s\<lparr>mem := set_is_free current False (mem s)\<rparr>;
          s = s\<lparr>total_allocated := total_allocated s + blk_size (mem s) current\<rparr>
      in (current + BLOCK_HEADER_SIZE, s))"

partial_function (option) kmalloc_from ::
  "u64 \<Rightarrow> u64 \<Rightarrow> 'a heap_scheme \<Rightarrow> (u64 \<times> 'a heap_scheme) option" where
  "kmalloc_from current sz s =
     (if current \<noteq> 0
      then if blk_is_free (mem s) current \<and> blk_size (mem s) current \<ge> sz
           then Some (take_block current sz s)
           else kmalloc_from (blk_next (mem s) current) sz s
      else Some (0, s))"

definition kmalloc :: "u64 \<Rightarrow> 'a heap_scheme \<Rightarrow> (u64 \<times> 'a heap_scheme) option" where
  "kmalloc sz s =
     (if sz = 0 then Some (0, s)
      else let sz = align_size sz in kmalloc_from (heap_start s) sz s)"

text \<open>The search for the predecessor in \<open>kfree\<close>; 0 when there is none.\<close>

partial_function (option) find_prev :: "u64 \<Rightarrow> u64 \<Rightarrow> memory \<Rightarrow> u64 option" where
  "find_prev block current m =
     (if current \<noteq> 0 \<and> blk_next m current \<noteq> block
      then find_prev block (blk_next m current) m
      else Some current)"

text \<open>The two merges of \<open>kfree\<close>: with the next block, and into the previous one.\<close>

definition merge_after :: "u64 \<Rightarrow> memory \<Rightarrow> memory" where
  "merge_after block m =
     (if blk_next m block \<noteq> 0 \<and> blk_is_free m (blk_next m block)
      then let m = set_size block
             (blk_size m block + (BLOCK_HEADER_SIZE + blk_size m (blk_next m block))) m
           in set_next block (blk_next m (blk_next m block)) m
      else m)"

definition merge_before :: "u64 \<Rightarrow> u64 \<Rightarrow> memory \<Rightarrow> memory" where
  "merge_before current block m =
     (if current \<noteq> 0 \<and> blk_is_free m current
      then let m = set_size current
             (blk_size m current + (BLOCK_HEADER_SIZE + blk_size m block)) m
           in set_next current (blk_next m block) m
      else m)"

definition kfree :: "u64 \<Rightarrow> 'a heap_scheme \<Rightarrow> 'a heap_scheme option" where
  "kfree ptr s =
     (if ptr = 0 then Some s
      else let block = ptr - BLOCK_HEADER_SIZE
           in if blk_is_free (mem s) block then Some s
              else let s = s\<lparr>mem := set_is_free block True (mem s)\<rparr>;
                       s = s\<lparr>total_allocated := total_allocated s - blk_size (mem s) block\<rparr>;
                       s = s\<lparr>mem := merge_after block (mem s)\<rparr>
                   in do {
                     current \<leftarrow> find_prev block (heap_start s) (mem s);
                     Some (s\<lparr>mem := merge_before current block (mem s)\<rparr>)
                   })"

definition kmalloc_get_used :: "'a heap_scheme \<Rightarrow> u64" where
  "kmalloc_get_used s = total_allocated s"

partial_function (option) sum_free :: "u64 \<Rightarrow> u64 \<Rightarrow> memory \<Rightarrow> u64 option" where
  "sum_free current free_memory m =
     (if current \<noteq> 0
      then sum_free (blk_next m current)
             (if blk_is_free m current then free_memory + blk_size m current else free_memory) m
      else Some free_memory)"

definition kmalloc_get_free :: "'a heap_scheme \<Rightarrow> u64 option" where
  "kmalloc_get_free s = sum_free (heap_start s) 0 (mem s)"

section \<open>Blocks\<close>

text \<open>
  The abstract heap: the blocks in address order, each with its payload size and
  whether it is free. A list of blocks from address \<open>a\<close> on occupies \<open>span bs\<close> bytes.
\<close>

datatype block = Block (bsize: nat) (bfree: bool)

fun span :: "block list \<Rightarrow> nat" where
  "span [] = 0"
| "span (b # bs) = 24 + bsize b + span bs"

lemma span_append [simp]: "span (xs @ ys) = span xs + span ys"
  by (induction xs) simp_all

text \<open>
  \<open>blocks_at m a bs z\<close>: from address \<open>a\<close> on, memory holds the headers of \<open>bs\<close>, each
  linked to the one that starts where it ends, the last one to \<open>z\<close>.
\<close>

definition header_at :: "memory \<Rightarrow> nat \<Rightarrow> block \<Rightarrow> u64 \<Rightarrow> bool" where
  "header_at m a b z \<longleftrightarrow> blk_size m (of_nat a) = of_nat (bsize b) \<and>
     blk_is_free m (of_nat a) = bfree b \<and> blk_next m (of_nat a) = z"

fun blocks_at :: "memory \<Rightarrow> nat \<Rightarrow> block list \<Rightarrow> u64 \<Rightarrow> bool" where
  "blocks_at m a [] z = True"
| "blocks_at m a (b # bs) z =
     (header_at m a b (if bs = [] then z else of_nat (a + 24 + bsize b)) \<and>
      blocks_at m (a + 24 + bsize b) bs z)"

lemma blocks_at_append:
  "blocks_at m a (xs @ ys) z \<longleftrightarrow>
     blocks_at m a xs (if ys = [] then z else of_nat (a + span xs)) \<and> blocks_at m (a + span xs) ys z"
proof (induction xs arbitrary: a)
  case Nil
  show ?case by (simp only: append_Nil blocks_at.simps(1) span.simps(1) add_0_right simp_thms)
next
  case (Cons b xs)
  let ?a = "a + 24 + bsize b"
  have fin: "a + span (b # xs) = ?a + span xs" by (simp only: span.simps add.assoc)
  have link: "(if xs @ ys = [] then z else of_nat ?a) =
      (if xs = [] then if ys = [] then z else of_nat (?a + span xs) else of_nat ?a)"
    by (cases xs) (simp_all only: append_Nil append_Cons list.distinct(2) if_False span.simps(1)
        add_0_right simp_thms if_True)
  show ?case
    unfolding append_Cons blocks_at.simps(2) fin link Cons.IH [of ?a] by blast
qed

text \<open>Headers depend only on the memory they lie in.\<close>

lemma header_at_agree:
  assumes "agree m m' a (a + 24)" "a + 24 \<le> 2 ^ 64"
  shows "header_at m' a b z = header_at m a b z"
proof -
  have u: "unat (of_nat a :: u64) = a" "unat (of_nat a + 8 :: u64) = a + 8" "unat (of_nat a + 16 :: u64) = a + 16"
    using assms(2) by (simp_all add: unat_add_no_wrap)
  have "load64 m (of_nat a) = load64 m' (of_nat a)" "load64 m (of_nat a + 16) = load64 m' (of_nat a + 16)"
    using assms by (auto intro!: load64_agree agree_sub [OF assms(1)] simp: u)
  moreover have "m (of_nat a + 8) = m' (of_nat a + 8)"
    using assms(1) by (rule agreeD) (simp_all add: u)
  ultimately show ?thesis
    by (simp add: header_at_def blk_size_def blk_next_def blk_is_free_def)
qed

lemma blocks_at_agree:
  "agree m m' a (a + span bs) \<Longrightarrow> a + span bs \<le> 2 ^ 64 \<Longrightarrow> blocks_at m' a bs z = blocks_at m a bs z"
proof (induction bs arbitrary: a)
  case Nil
  then show ?case by simp
next
  case (Cons b bs)
  have "header_at m' a b y = header_at m a b y" for y
    by (rule header_at_agree) (use Cons.prems in \<open>auto elim: agree_sub\<close>)
  moreover have "blocks_at m' (a + 24 + bsize b) bs z = blocks_at m (a + 24 + bsize b) bs z"
    by (rule Cons.IH) (use Cons.prems in \<open>auto elim: agree_sub simp: algebra_simps\<close>)
  ultimately show ?case by simp
qed

lemma blocks_at_frame:
  "only_changes m m' lo hi \<Longrightarrow> a + span bs \<le> lo \<or> hi \<le> a \<Longrightarrow> a + span bs \<le> 2 ^ 64 \<Longrightarrow>
   blocks_at m' a bs z = blocks_at m a bs z"
  using blocks_at_agree [of m' m] only_changes_agree by blast

section \<open>Writing headers\<close>

text \<open>The three field writes of one header, and that they stay inside it.\<close>

lemma header_addr:
  assumes "a + 24 \<le> 2 ^ 64"
  shows "unat (of_nat a :: u64) = a" "unat (of_nat a + 8 :: u64) = a + 8"
    "unat (of_nat a + 16 :: u64) = a + 16"
  using assms by (simp_all add: unat_add_no_wrap)

lemma header_writes:
  assumes "a + 24 \<le> 2 ^ 64"
  shows "only_changes m (set_size (of_nat a) v m) a (a + 24)"
    "only_changes m (set_is_free (of_nat a) f m) a (a + 24)"
    "only_changes m (set_next (of_nat a) v m) a (a + 24)"
  unfolding set_size_def set_is_free_def set_next_def
  using assms
  by (auto intro!: only_changes_mono [OF store64_only_changes] only_changes_mono [OF store8_only_changes]
      simp: header_addr [OF assms])

lemma header_reads:
  assumes "a + 24 \<le> 2 ^ 64"
  shows "blk_size (set_size (of_nat a) v m) (of_nat a) = v"
    "blk_is_free (set_size (of_nat a) v m) (of_nat a) = blk_is_free m (of_nat a)"
    "blk_next (set_size (of_nat a) v m) (of_nat a) = blk_next m (of_nat a)"
    "blk_size (set_is_free (of_nat a) f m) (of_nat a) = blk_size m (of_nat a)"
    "blk_is_free (set_is_free (of_nat a) f m) (of_nat a) = f"
    "blk_next (set_is_free (of_nat a) f m) (of_nat a) = blk_next m (of_nat a)"
    "blk_size (set_next (of_nat a) v m) (of_nat a) = blk_size m (of_nat a)"
    "blk_is_free (set_next (of_nat a) v m) (of_nat a) = blk_is_free m (of_nat a)"
    "blk_next (set_next (of_nat a) v m) (of_nat a) = v"
  unfolding blk_size_def blk_is_free_def blk_next_def set_size_def set_is_free_def set_next_def
  using assms by (simp_all add: mem_simps header_addr [OF assms])

section \<open>The abstract heap\<close>

text \<open>First fit by index, and what is made of the block that fits.\<close>

fun find_fit :: "nat \<Rightarrow> block list \<Rightarrow> nat option" where
  "find_fit n [] = None"
| "find_fit n (b # bs) = (if bfree b \<and> n \<le> bsize b then Some 0 else map_option Suc (find_fit n bs))"

definition carve :: "nat \<Rightarrow> block \<Rightarrow> block list" where
  "carve n b = (if n + 40 \<le> bsize b then [Block n False, Block (bsize b - n - 24) True]
     else [Block (bsize b) False])"

definition alloc_at :: "nat \<Rightarrow> nat \<Rightarrow> block list \<Rightarrow> block list" where
  "alloc_at n i bs = take i bs @ carve n (bs ! i) @ drop (Suc i) bs"

text \<open>Release by index: the block becomes free and free neighbours become one block.\<close>

fun coalesce :: "block list \<Rightarrow> block list" where
  "coalesce (b # c # bs) =
     (if bfree b \<and> bfree c then coalesce (Block (bsize b + (24 + bsize c)) True # bs)
      else b # coalesce (c # bs))"
| "coalesce bs = bs"

definition free_at :: "nat \<Rightarrow> block list \<Rightarrow> block list" where
  "free_at i bs = coalesce (bs[i := Block (bsize (bs ! i)) True])"

text \<open>No two free blocks are neighbours.\<close>

fun settled :: "block list \<Rightarrow> bool" where
  "settled (b # c # bs) = (\<not> (bfree b \<and> bfree c) \<and> settled (c # bs))"
| "settled bs = True"

definition used_bytes :: "block list \<Rightarrow> nat" where
  "used_bytes bs = (\<Sum>b \<leftarrow> bs. if bfree b then 0 else bsize b)"

definition free_bytes :: "block list \<Rightarrow> nat" where
  "free_bytes bs = (\<Sum>b \<leftarrow> bs. if bfree b then bsize b else 0)"

lemma used_bytes_simps [simp]:
  "used_bytes [] = 0" "used_bytes (b # bs) = (if bfree b then 0 else bsize b) + used_bytes bs"
  "used_bytes (xs @ ys) = used_bytes xs + used_bytes ys"
  by (simp_all add: used_bytes_def)

lemma free_bytes_simps [simp]:
  "free_bytes [] = 0" "free_bytes (b # bs) = (if bfree b then bsize b else 0) + free_bytes bs"
  "free_bytes (xs @ ys) = free_bytes xs + free_bytes ys"
  by (simp_all add: free_bytes_def)

lemma span_bytes: "span bs = 24 * length bs + used_bytes bs + free_bytes bs"
  by (induction bs) simp_all

lemma find_fit_Some:
  "find_fit n bs = Some i \<Longrightarrow> i < length bs \<and> bfree (bs ! i) \<and> n \<le> bsize (bs ! i)"
  by (induction bs arbitrary: i) (auto split: if_splits)

lemma find_fit_first:
  "find_fit n bs = Some i \<Longrightarrow> j < i \<Longrightarrow> \<not> (bfree (bs ! j) \<and> n \<le> bsize (bs ! j))"
proof (induction bs arbitrary: i j)
  case (Cons b bs)
  then show ?case by (cases j) (auto split: if_splits)
qed simp

lemma find_fit_None: "find_fit n bs = None \<longleftrightarrow> (\<forall>b \<in> set bs. bfree b \<longrightarrow> bsize b < n)"
  by (induction bs) auto

lemma split_nth: "i < length bs \<Longrightarrow> bs = take i bs @ bs ! i # drop (Suc i) bs"
  by (rule id_take_nth_drop)

lemma carve_facts:
  "carve n b \<noteq> []" "span (carve n b) = 24 + bsize b"
  "bsize b mod 8 = 0 \<Longrightarrow> n mod 8 = 0 \<Longrightarrow> \<forall>c \<in> set (carve n b). bsize c mod 8 = 0"
  "hd (carve n b) = Block (if n + 40 \<le> bsize b then n else bsize b) False"
  by (auto simp: carve_def)

lemma used_bytes_carve:
  "used_bytes (carve n b) = bsize (hd (carve n b))"
  by (simp add: carve_def)

lemma settled_Cons:
  "settled (b # bs) \<longleftrightarrow> settled bs \<and> (bs \<noteq> [] \<longrightarrow> \<not> (bfree b \<and> bfree (hd bs)))"
  by (cases bs) auto

lemma settled_append:
  "settled (xs @ ys) \<longleftrightarrow> settled xs \<and> settled ys \<and>
     (xs \<noteq> [] \<and> ys \<noteq> [] \<longrightarrow> \<not> (bfree (last xs) \<and> bfree (hd ys)))"
  by (induction xs) (auto simp: settled_Cons)

lemma coalesce_settled: "settled bs \<Longrightarrow> coalesce bs = bs"
  by (induction bs rule: coalesce.induct) auto

lemma settled_coalesce: "settled (coalesce bs)"
proof (induction bs rule: coalesce.induct)
  case (1 b c bs)
  show ?case
  proof (cases "bfree b \<and> bfree c")
    case False
    have "bfree (hd (coalesce (c # bs))) = bfree c" for bs
      by (induction "c # bs" arbitrary: c bs rule: coalesce.induct) auto
    moreover have "coalesce (c # bs) \<noteq> []" for bs
      by (induction "c # bs" arbitrary: c bs rule: coalesce.induct) auto
    ultimately show ?thesis using 1 False by (auto simp: settled_Cons)
  qed (use 1 in auto)
qed auto

lemma coalesce_keeps:
  "span (coalesce bs) = span bs" "used_bytes (coalesce bs) = used_bytes bs"
  by (induction bs rule: coalesce.induct) auto

lemma coalesce_mod_8:
  "\<forall>b \<in> set bs. bsize b mod 8 = 0 \<Longrightarrow> \<forall>b \<in> set (coalesce bs). bsize b mod 8 = 0"
  by (induction bs rule: coalesce.induct) (auto simp: mod_eq_0_iff_dvd)

text \<open>What a release does around the freed block, neighbour by neighbour.\<close>

fun merge_next :: "block list \<Rightarrow> block list" where
  "merge_next (b # c # bs) =
     (if bfree c then Block (bsize b + (24 + bsize c)) (bfree b) # bs else b # c # bs)"
| "merge_next bs = bs"

lemma coalesce_prefix:
  "settled xs \<Longrightarrow> zs \<noteq> [] \<Longrightarrow> xs = [] \<or> \<not> (bfree (last xs) \<and> bfree (hd zs)) \<Longrightarrow>
   coalesce (xs @ zs) = xs @ coalesce zs"
proof (induction xs)
  case (Cons x xs)
  then show ?case
    by (cases xs; cases zs) (auto simp: settled_Cons)
qed simp

lemma coalesce_merge_next:
  assumes "settled bs" "bfree f" shows "coalesce (f # bs) = merge_next (f # bs)"
proof (cases bs)
  case (Cons c cs)
  then show ?thesis
    using assms by (cases cs) (auto simp: coalesce_settled)
qed simp

lemma coalesce_zipper:
  assumes "settled xs" "settled ys" "bfree f"
  shows "coalesce (xs @ f # ys) =
     (if xs \<noteq> [] \<and> bfree (last xs) then butlast xs @ merge_next (last xs # merge_next (f # ys))
      else xs @ merge_next (f # ys))"
proof (cases "xs \<noteq> [] \<and> bfree (last xs)")
  case False
  then show ?thesis
    using assms by (subst coalesce_prefix) (auto simp: coalesce_merge_next)
next
  case True
  define ps p where "ps = butlast xs" and "p = last xs"
  have xs: "xs = ps @ [p]" using True by (simp add: ps_def p_def)
  have p: "bfree p" using True by (simp add: p_def)
  have "coalesce (ps @ p # f # ys) = ps @ coalesce (p # f # ys)"
    using assms(1) p unfolding xs by (subst coalesce_prefix) (auto simp: settled_append)
  also have "coalesce (p # f # ys) = merge_next (Block (bsize p + (24 + bsize f)) True # ys)"
    using assms p by (simp add: coalesce_merge_next)
  also have "\<dots> = merge_next (p # merge_next (f # ys))"
    using assms(2,3) p by (cases ys) (auto simp: settled_Cons)
  finally show ?thesis using True unfolding xs by simp
qed

section \<open>Walking the list\<close>

text \<open>The pointer to the first block of a list that starts at \<open>a\<close>.\<close>

definition head_ptr :: "nat \<Rightarrow> block list \<Rightarrow> u64" where
  "head_ptr a bs = (if bs = [] then 0 else of_nat a)"

lemma of_nat_neq_0: "0 < a \<Longrightarrow> a < 2 ^ 64 \<Longrightarrow> (of_nat a :: u64) \<noteq> 0"
  using of_nat_eq_u64 [of a 0] by simp

lemma of_nat_le_u64: "m < 2 ^ 64 \<Longrightarrow> n < 2 ^ 64 \<Longrightarrow> (of_nat m :: u64) \<le> of_nat n \<longleftrightarrow> m \<le> n"
  by (simp add: word_le_nat_alt)

lemma blocks_at_Cons_head:
  "blocks_at m a (b # bs) 0 \<longleftrightarrow>
     header_at m a b (head_ptr (a + 24 + bsize b) bs) \<and> blocks_at m (a + 24 + bsize b) bs 0"
  by (simp add: head_ptr_def)

lemma kmalloc_from_walk:
  assumes "blocks_at (mem s) a bs 0" "0 < a" "a + span bs < 2 ^ 64" "n < 2 ^ 64"
  shows "kmalloc_from (head_ptr a bs) (of_nat n) s =
    Some (case find_fit n bs of None \<Rightarrow> (0, s)
      | Some i \<Rightarrow> take_block (of_nat (a + span (take i bs))) (of_nat n) s)"
  using assms
proof (induction bs arbitrary: a)
  case Nil
  then show ?case by (simp add: head_ptr_def kmalloc_from.simps)
next
  case (Cons b bs)
  let ?a = "a + 24 + bsize b"
  have hdr: "header_at (mem s) a b (head_ptr ?a bs)" and rest: "blocks_at (mem s) ?a bs 0"
    using Cons.prems(1) unfolding blocks_at_Cons_head by auto
  have nz: "(of_nat a :: u64) \<noteq> 0" by (rule of_nat_neq_0) (use Cons.prems in auto)
  have le: "(of_nat n :: u64) \<le> of_nat (bsize b) \<longleftrightarrow> n \<le> bsize b"
    by (rule of_nat_le_u64) (use Cons.prems in auto)
  have IH: "kmalloc_from (head_ptr ?a bs) (of_nat n) s =
    Some (case find_fit n bs of None \<Rightarrow> (0, s)
      | Some i \<Rightarrow> take_block (of_nat (?a + span (take i bs))) (of_nat n) s)"
    by (rule Cons.IH [OF rest]) (use Cons.prems in auto)
  have head: "head_ptr a (b # bs) = of_nat a" by (simp add: head_ptr_def)
  show ?case
  proof (cases "bfree b \<and> n \<le> bsize b")
    case True
    then show ?thesis
      unfolding head using hdr nz by (subst kmalloc_from.simps) (simp add: header_at_def le)
  next
    case False
    then have "kmalloc_from (of_nat a) (of_nat n) s = kmalloc_from (head_ptr ?a bs) (of_nat n) s"
      using hdr nz by (subst kmalloc_from.simps) (auto simp: header_at_def le)
    with False show ?thesis
      unfolding head IH by (auto split: option.splits simp: add.assoc)
  qed
qed

lemma find_prev_found:
  assumes "blocks_at m a (xs @ p # b # ys) z" "0 < a" "a + span (xs @ p # b # ys) < 2 ^ 64"
  shows "find_prev (of_nat (a + span (xs @ [p]))) (of_nat a) m = Some (of_nat (a + span xs))"
  using assms
proof (induction xs arbitrary: a)
  case Nil
  then have "(of_nat a :: u64) \<noteq> 0" by (intro of_nat_neq_0) auto
  with Nil show ?case
    by (subst find_prev.simps) (simp add: header_at_def add.assoc)
next
  case (Cons x xs)
  let ?a = "a + 24 + bsize x" and ?t = "a + span ((x # xs) @ [p])"
  have nz: "(of_nat a :: u64) \<noteq> 0" by (rule of_nat_neq_0) (use Cons.prems in auto)
  have hdr: "blk_next m (of_nat a) = of_nat ?a"
    using Cons.prems(1) by (simp only: append_Cons blocks_at.simps header_at_def) simp
  have ne: "(of_nat ?a :: u64) \<noteq> of_nat ?t"
    using Cons.prems(3) by (subst of_nat_eq_u64) auto
  have "find_prev (of_nat ?t) (of_nat a) m = find_prev (of_nat ?t) (of_nat ?a) m"
    using nz ne by (subst find_prev.simps) (simp add: hdr del: of_nat_add span.simps span_append)
  moreover have "find_prev (of_nat (?a + span (xs @ [p]))) (of_nat ?a) m = Some (of_nat (?a + span xs))"
    by (rule Cons.IH) (use Cons.prems in \<open>simp_all add: add.assoc\<close>)
  ultimately show ?case by (simp add: add.assoc)
qed

lemma find_prev_none:
  assumes "blocks_at m a bs 0" "0 < t" "t \<le> a" "a + span bs < 2 ^ 64"
  shows "find_prev (of_nat t) (head_ptr a bs) m = Some 0"
  using assms
proof (induction bs arbitrary: a)
  case Nil
  then show ?case by (simp add: head_ptr_def find_prev.simps)
next
  case (Cons b bs)
  let ?a = "a + 24 + bsize b"
  have nz: "(of_nat a :: u64) \<noteq> 0" by (rule of_nat_neq_0) (use Cons.prems in auto)
  have tz: "(of_nat t :: u64) \<noteq> 0" by (rule of_nat_neq_0) (use Cons.prems in auto)
  have ne: "head_ptr ?a bs \<noteq> of_nat t"
    using Cons.prems tz of_nat_eq_u64 [of ?a t] by (auto simp: head_ptr_def)
  have hdr: "blk_next m (of_nat a) = head_ptr ?a bs" and rest: "blocks_at m ?a bs 0"
    using Cons.prems(1) unfolding blocks_at_Cons_head header_at_def by auto
  have "find_prev (of_nat t) (of_nat a) m = find_prev (of_nat t) (head_ptr ?a bs) m"
    using nz ne by (subst find_prev.simps) (simp add: hdr)
  also have "\<dots> = Some 0"
    by (rule Cons.IH [OF rest]) (use Cons.prems in auto)
  finally show ?case by (simp add: head_ptr_def)
qed

lemma sum_free_walk:
  assumes "blocks_at m a bs 0" "0 < a" "a + span bs < 2 ^ 64"
  shows "sum_free (head_ptr a bs) acc m = Some (acc + of_nat (free_bytes bs))"
  using assms
proof (induction bs arbitrary: a acc)
  case Nil
  then show ?case by (simp add: head_ptr_def sum_free.simps)
next
  case (Cons b bs)
  let ?a = "a + 24 + bsize b"
  have nz: "(of_nat a :: u64) \<noteq> 0" by (rule of_nat_neq_0) (use Cons.prems in auto)
  have hdr: "header_at m a b (head_ptr ?a bs)" and rest: "blocks_at m ?a bs 0"
    using Cons.prems(1) unfolding blocks_at_Cons_head by auto
  have "sum_free (head_ptr ?a bs) acc' m = Some (acc' + of_nat (free_bytes bs))" for acc'
    by (rule Cons.IH [OF rest]) (use Cons.prems in auto)
  then show ?case
    using nz hdr by (simp add: head_ptr_def header_at_def sum_free.simps [of "of_nat a"] add.assoc
        split: if_splits)
qed

section \<open>Rewriting a part of the list\<close>

lemma blocks_at_replace:
  assumes old: "blocks_at m a (xs @ old @ ys) z"
    and new: "blocks_at m' (a + span xs) new (if ys = [] then z else of_nat (a + span xs + span old))"
    and chg: "only_changes m m' (a + span xs) (a + span xs + span old)"
    and sp: "span new = span old" and ne: "old \<noteq> []" "new \<noteq> []"
    and bound: "a + span (xs @ old @ ys) \<le> 2 ^ 64"
  shows "blocks_at m' a (xs @ new @ ys) z"
proof -
  note blocks = old [unfolded blocks_at_append]
  have "blocks_at m' a xs (of_nat (a + span xs))"
    using blocks ne bound by (subst blocks_at_frame [OF chg]) auto
  moreover have "blocks_at m' (a + span xs + span old) ys z"
    using blocks bound by (subst blocks_at_frame [OF chg]) (auto simp: add.assoc)
  ultimately show ?thesis
    using new ne sp by (auto simp: blocks_at_append simp del: of_nat_add)
qed

lemma blocks_at_middle:
  "blocks_at m a (xs @ b # ys) z \<Longrightarrow>
   header_at m (a + span xs) b (if ys = [] then z else of_nat (a + span xs + 24 + bsize b))"
  by (simp add: blocks_at_append)

text \<open>
  One block absorbs the next: its size grows by the header and the payload of its
  neighbour, its link skips the neighbour. Both merges of \<open>kfree\<close> are this.
\<close>

definition absorb :: "u64 \<Rightarrow> u64 \<Rightarrow> memory \<Rightarrow> memory" where
  "absorb p c m =
     (let m' = set_size p (blk_size m p + (BLOCK_HEADER_SIZE + blk_size m c)) m
      in set_next p (blk_next m' c) m')"

lemma absorb_blocks:
  assumes blocks: "blocks_at m a (xs @ p # c # ys) z"
    and bound: "a + span (xs @ p # c # ys) \<le> 2 ^ 64"
    and P: "P = of_nat (a + span xs)" and C: "C = of_nat (a + span xs + 24 + bsize p)"
  shows "blocks_at (absorb P C m) a (xs @ Block (bsize p + (24 + bsize c)) (bfree p) # ys) z"
    and "only_changes m (absorb P C m) (a + span xs) (a + span xs + 24)"
proof -
  let ?b = "a + span xs" and ?c = "a + span xs + 24 + bsize p"
  let ?q = "Block (bsize p + (24 + bsize c)) (bfree p)"
  let ?z = "if ys = [] then z else of_nat (?c + 24 + bsize c)"
  have b: "?b + 24 \<le> 2 ^ 64" and c: "?c + 24 \<le> 2 ^ 64" using bound by auto
  have at_p: "header_at m ?b p (of_nat ?c)" and at_c: "header_at m ?c c ?z"
    using blocks_at_middle [OF blocks] blocks_at_middle [of m a "xs @ [p]" c ys z] blocks
    by (auto simp: add.assoc simp del: of_nat_add split: if_splits)
  define m1 where "m1 = set_size P (blk_size m P + (BLOCK_HEADER_SIZE + blk_size m C)) m"
  have m1: "only_changes m m1 ?b (?b + 24)"
    unfolding m1_def P by (rule header_writes(1) [OF b])
  then have "header_at m1 ?c c ?z = header_at m ?c c ?z"
    using c by (intro header_at_agree) (auto intro!: agree_sym [OF only_changes_agree])
  with at_c have c1: "blk_next m1 C = ?z" by (simp add: header_at_def C)
  have q: "absorb P C m = set_next P ?z m1"
    unfolding absorb_def Let_def m1_def [symmetric] c1 ..
  have "header_at (absorb P C m) ?b ?q ?z"
    using at_p at_c unfolding q unfolding header_at_def m1_def P header_reads [OF b] C
    by (simp add: BLOCK_HEADER_SIZE_def)
  then have new: "blocks_at (absorb P C m) ?b [?q] (if ys = [] then z else of_nat (?b + span [p, c]))"
    by (auto simp: add.assoc simp del: of_nat_add split: if_splits)
  show chg: "only_changes m (absorb P C m) ?b (?b + 24)"
    unfolding q unfolding P by (rule only_changes_trans [OF m1 header_writes(3) [OF b]])
  have "blocks_at (absorb P C m) a (xs @ [?q] @ ys) z"
    by (rule blocks_at_replace [of m _ _ "[p, c]"])
      (use blocks bound new chg in \<open>auto elim: only_changes_mono\<close>)
  then show "blocks_at (absorb P C m) a (xs @ ?q # ys) z" by simp
qed

text \<open>The free flag alone.\<close>

lemma set_is_free_blocks:
  assumes blocks: "blocks_at m a (xs @ b # ys) z" and bound: "a + span (xs @ b # ys) \<le> 2 ^ 64"
    and P: "P = of_nat (a + span xs)"
  shows "blocks_at (set_is_free P f m) a (xs @ Block (bsize b) f # ys) z"
    and "only_changes m (set_is_free P f m) (a + span xs) (a + span xs + 24)"
proof -
  let ?b = "a + span xs"
  have b: "?b + 24 \<le> 2 ^ 64" using bound by auto
  show chg: "only_changes m (set_is_free P f m) ?b (?b + 24)"
    unfolding P by (rule header_writes(2) [OF b])
  have "header_at (set_is_free P f m) ?b (Block (bsize b) f)
      (if ys = [] then z else of_nat (?b + 24 + bsize b))"
    using blocks_at_middle [OF blocks] unfolding header_at_def P header_reads [OF b] by simp
  then have new: "blocks_at (set_is_free P f m) ?b [Block (bsize b) f]
      (if ys = [] then z else of_nat (?b + span [b]))"
    by (auto simp: add.assoc simp del: of_nat_add split: if_splits)
  have "blocks_at (set_is_free P f m) a (xs @ [Block (bsize b) f] @ ys) z"
    by (rule blocks_at_replace [of m _ _ "[b]"])
      (use blocks bound new chg in \<open>auto elim: only_changes_mono\<close>)
  then show "blocks_at (set_is_free P f m) a (xs @ Block (bsize b) f # ys) z" by simp
qed

text \<open>The split writes a header inside the block and shortens the block.\<close>

lemma split_block_blocks:
  assumes blocks: "blocks_at m a (xs @ b # ys) z" and bound: "a + span (xs @ b # ys) < 2 ^ 64"
    and P: "P = of_nat (a + span xs)" and fit: "n \<le> bsize b"
    and small: "bsize b < 2 ^ 63"
  shows "blocks_at (split_block P (of_nat n) m) a (xs @ (if n + 40 \<le> bsize b
      then [Block n (bfree b), Block (bsize b - n - 24) True] else [b]) @ ys) z"
    and "only_changes m (split_block P (of_nat n) m) (a + span xs) (a + span xs + 24 + bsize b)"
proof -
  let ?b = "a + span xs" and ?m = "split_block P (of_nat n) m"
  let ?z = "if ys = [] then z else of_nat (?b + 24 + bsize b)"
  have b: "?b + 24 \<le> 2 ^ 64" using bound by auto
  have hdr: "header_at m ?b b ?z" by (rule blocks_at_middle [OF blocks])
  have guard: "blk_size m P \<ge> of_nat n + BLOCK_HEADER_SIZE + 16 \<longleftrightarrow> n + 40 \<le> bsize b"
  proof -
    have "of_nat n + BLOCK_HEADER_SIZE + 16 = (of_nat (n + 40) :: u64)"
      by (simp add: BLOCK_HEADER_SIZE_def)
    then show ?thesis
      using hdr fit small of_nat_le_u64 [of "n + 40" "bsize b"]
      by (simp only: header_at_def P) simp
  qed
  have "blocks_at ?m a (xs @ (if n + 40 \<le> bsize b
        then [Block n (bfree b), Block (bsize b - n - 24) True] else [b]) @ ys) z \<and>
      only_changes m ?m ?b (?b + 24 + bsize b)"
  proof (cases "n + 40 \<le> bsize b")
    case False
    then have "?m = m" using guard by (simp add: split_block_def)
    then show ?thesis using False blocks by auto
  next
    case True
    let ?c = "?b + 24 + n"
    let ?r = "Block (bsize b - n - 24) True"
    have c: "?c + 24 \<le> 2 ^ 64" using bound True by auto
    have C: "P + BLOCK_HEADER_SIZE + of_nat n = of_nat ?c"
      by (simp add: P BLOCK_HEADER_SIZE_def)
    define m1 where "m1 = set_size (of_nat ?c) (blk_size m P - of_nat n - BLOCK_HEADER_SIZE) m"
    define m2 where "m2 = set_is_free (of_nat ?c) True m1"
    define m3 where "m3 = set_next (of_nat ?c) (blk_next m2 P) m2"
    have m: "?m = set_next P (of_nat ?c) (set_size P (of_nat n) m3)"
      using guard True unfolding split_block_def Let_def C m1_def m2_def m3_def by simp
    have chg2: "only_changes m m2 ?c (?c + 24)"
      unfolding m2_def m1_def by (rule only_changes_trans [OF header_writes(1,2) [OF c]])
    have chg3: "only_changes m m3 ?c (?c + 24)"
      unfolding m3_def by (rule only_changes_trans [OF chg2 header_writes(3) [OF c]])
    have chgm: "only_changes m3 ?m ?b (?b + 24)"
      unfolding m unfolding P by (rule only_changes_trans [OF header_writes(1,3) [OF b]])
    have "header_at m' ?b b ?z" if "only_changes m m' ?c (?c + 24)" for m'
      using hdr b by (subst header_at_agree [of m]) (auto intro!: agree_sym [OF only_changes_agree [OF that]])
    with chg2 chg3 have at_b: "header_at m2 ?b b ?z" "header_at m3 ?b b ?z" by auto
    have "blk_size m P - of_nat n - BLOCK_HEADER_SIZE = of_nat (bsize b - n - 24)"
      using hdr True by (simp add: header_at_def P BLOCK_HEADER_SIZE_def of_nat_diff)
    then have "header_at m3 ?c ?r ?z"
      using at_b unfolding header_at_def m3_def m2_def header_reads [OF c] m1_def by (simp add: P)
    then have at_c: "header_at ?m ?c ?r ?z"
      using c by (subst header_at_agree [of m3]) (auto intro!: agree_sym [OF only_changes_agree [OF chgm]])
    have "header_at ?m ?b (Block n (bfree b)) (of_nat ?c)"
      using at_b(2) unfolding m unfolding P header_at_def header_reads [OF b] by simp
    with at_c True have new: "blocks_at ?m ?b [Block n (bfree b), ?r]
        (if ys = [] then z else of_nat (?b + span [b]))"
      by (auto simp: add.assoc simp del: of_nat_add split: if_splits)
    have chg: "only_changes m ?m ?b (?b + 24 + bsize b)"
      by (rule only_changes_trans [OF only_changes_mono [OF chg3] only_changes_mono [OF chgm]])
        (use True in auto)
    have "blocks_at ?m a (xs @ [Block n (bfree b), ?r] @ ys) z"
      by (rule blocks_at_replace [of m _ _ "[b]"])
        (use blocks bound new chg True in \<open>auto elim: only_changes_mono\<close>)
    with chg True show ?thesis by simp
  qed
  then show "blocks_at ?m a (xs @ (if n + 40 \<le> bsize b
        then [Block n (bfree b), Block (bsize b - n - 24) True] else [b]) @ ys) z"
    and "only_changes m ?m ?b (?b + 24 + bsize b)" by auto
qed

section \<open>The heap invariant\<close>

text \<open>
  \<open>heap_rep s bs\<close>: memory holds exactly the list \<open>bs\<close>, which fills the region
  0x180000..0x200000, all sizes are multiples of 8, no two free blocks are
  neighbours, and \<open>total_allocated\<close> is the number of payload bytes in use.
\<close>

definition heap_rep :: "'a heap_scheme \<Rightarrow> block list \<Rightarrow> bool" where
  "heap_rep s bs \<longleftrightarrow> heap_start s = HEAP_START \<and> blocks_at (mem s) 0x180000 bs 0 \<and>
     span bs = 0x80000 \<and> (\<forall>b \<in> set bs. bsize b mod 8 = 0) \<and> settled bs \<and>
     total_allocated s = of_nat (used_bytes bs)"

text \<open>The header and the payload of the \<open>i\<close>-th block.\<close>

definition block_addr :: "block list \<Rightarrow> nat \<Rightarrow> nat" where
  "block_addr bs i = 0x180000 + span (take i bs)"

definition payload_addr :: "block list \<Rightarrow> nat \<Rightarrow> nat" where
  "payload_addr bs i = block_addr bs i + 24"

lemma heap_repD:
  assumes "heap_rep s bs"
  shows "heap_start s = HEAP_START" "blocks_at (mem s) 0x180000 bs 0" "span bs = 0x80000"
    "\<forall>b \<in> set bs. bsize b mod 8 = 0" "settled bs" "total_allocated s = of_nat (used_bytes bs)" "bs \<noteq> []"
  using assms by (auto simp: heap_rep_def)

lemma span_take: "i < length bs \<Longrightarrow> span (take i bs) + 24 + bsize (bs ! i) + span (drop (Suc i) bs) = span bs"
  by (subst (4) split_nth, assumption) (simp only: span_append span.simps add.assoc)

lemma span_take_mono: "i \<le> j \<Longrightarrow> span (take i bs) \<le> span (take j bs)"
  by (metis add_leD1 le_add_diff_inverse order_refl span_append take_add)

lemma block_bounds:
  assumes "heap_rep s bs" "i < length bs"
  shows "payload_addr bs i + bsize (bs ! i) \<le> 0x200000" "0x180000 \<le> block_addr bs i"
    "bsize (bs ! i) < 0x80000"
  using span_take [OF assms(2)] heap_repD(3) [OF assms(1)]
  by (auto simp: payload_addr_def block_addr_def)

lemma blocks_disjoint:
  assumes "i < j" "j < length bs"
  shows "payload_addr bs i + bsize (bs ! i) \<le> block_addr bs j"
proof -
  have "span (take (Suc i) bs) = span (take i bs) + 24 + bsize (bs ! i)"
    using assms by (simp add: take_Suc_conv_app_nth)
  with span_take_mono [of "Suc i" j bs] assms show ?thesis
    by (simp add: payload_addr_def block_addr_def)
qed

lemma payload_pointer:
  assumes "heap_rep s bs" "i < length bs"
  shows "unat (of_nat (payload_addr bs i) :: u64) = payload_addr bs i" "payload_addr bs i \<noteq> 0"
    "(of_nat (payload_addr bs i) :: u64) \<noteq> 0"
    "(of_nat (payload_addr bs i) :: u64) - BLOCK_HEADER_SIZE = of_nat (block_addr bs i)"
proof -
  have lt: "payload_addr bs i < 2 ^ 64" "0 < payload_addr bs i"
    using block_bounds [OF assms] by (auto simp: payload_addr_def)
  then show "unat (of_nat (payload_addr bs i) :: u64) = payload_addr bs i" "payload_addr bs i \<noteq> 0"
    by auto
  show "(of_nat (payload_addr bs i) :: u64) \<noteq> 0" by (rule of_nat_neq_0 [OF lt(2,1)])
  show "(of_nat (payload_addr bs i) :: u64) - BLOCK_HEADER_SIZE = of_nat (block_addr bs i)"
    by (simp add: payload_addr_def BLOCK_HEADER_SIZE_def)
qed

lemma align_size_mod_16: "unat (align_size sz) mod 16 = 0"
proof -
  have mask: "(15 :: u64) = mask 4" by (simp add: mask_eq_exp_minus_1)
  have "take_bit 4 (align_size sz) = 0"
    unfolding align_size_def mask by (rule bit_word_eqI) (auto simp: bit_simps)
  then have "take_bit 4 (unat (align_size sz)) = 0"
    by (metis unsigned_0 unsigned_take_bit_eq)
  then show ?thesis by (simp add: take_bit_eq_mod)
qed

text \<open>Rounding up to a multiple of 16, with the wrap at the end of the range.\<close>

lemma unat_align_size:
  "unat (align_size sz) = (if unat sz + 15 < 2 ^ 64 then (unat sz + 15) div 16 * 16 else 0)"
proof -
  have mask: "(15 :: u64) = mask 4" by (simp add: mask_eq_exp_minus_1)
  have eq: "align_size sz = push_bit 4 (drop_bit 4 (sz + 15))"
    unfolding align_size_def mask by (rule bit_word_eqI) (auto simp: bit_simps)
  have "unat (sz + 15) div 16 * 16 < 2 ^ 64"
    using unsigned_less [of "sz + 15"] by (intro le_less_trans [OF div_times_less_eq_dividend]) simp
  then have "unat (align_size sz) = unat (sz + 15) div 16 * 16"
    unfolding eq by (simp add: push_bit_eq_mult drop_bit_eq_div unat_mult_lem [THEN iffD1] unat_div)
  moreover obtain n where n: "unat sz = n" "n < 2 ^ 64" using unsigned_less [of sz, where 'a = nat] by fastforce
  moreover have "unat (sz + 15) = (n + 15) mod 2 ^ 64" using n(1) by (simp add: unat_word_ariths)
  moreover have "(n + 15) mod 2 ^ 64 = (if n + 15 < 2 ^ 64 then n + 15 else n + 15 - 2 ^ 64)"
    using n(2) by (simp add: le_mod_geq)
  ultimately show ?thesis by auto
qed

lemma align_size_mod_8: "unat (align_size sz) mod 8 = 0"
  using align_size_mod_16 [of sz] by presburger

text \<open>\<open>kmalloc\<close> is first fit on the abstract heap.\<close>

lemma kmalloc_cases:
  assumes rep: "heap_rep s bs"
  obtains (refused) "find_fit (unat (align_size sz)) bs = None \<or> sz = 0" "kmalloc sz s = Some (0, s)"
  | (granted) i m where "sz \<noteq> 0" "find_fit (unat (align_size sz)) bs = Some i"
      "kmalloc sz s = Some (of_nat (payload_addr bs i), s\<lparr>mem := m, total_allocated :=
         total_allocated s + of_nat (bsize (hd (carve (unat (align_size sz)) (bs ! i))))\<rparr>)"
      "blocks_at m 0x180000 (alloc_at (unat (align_size sz)) i bs) 0"
      "only_changes (mem s) m (block_addr bs i) (payload_addr bs i + bsize (bs ! i))"
proof -
  let ?n = "unat (align_size sz)"
  note r = heap_repD [OF rep]
  have start: "heap_start s = head_ptr 0x180000 bs"
    using r(1,7) by (simp add: head_ptr_def HEAP_START_def)
  have km: "kmalloc sz s = Some (case find_fit ?n bs of None \<Rightarrow> (0, s)
      | Some i \<Rightarrow> take_block (of_nat (block_addr bs i)) (of_nat ?n) s)" if "sz \<noteq> 0"
    using that kmalloc_from_walk [OF r(2), of ?n] r(3)
    unfolding block_addr_def by (simp add: kmalloc_def start del: of_nat_add)
  show thesis
  proof (cases "sz = 0 \<or> find_fit ?n bs = None")
    case True
    then have "kmalloc sz s = Some (0, s)"
      using km by (cases "sz = 0") (auto simp: kmalloc_def)
    with True that(1) show thesis by blast
  next
    case False
    then obtain i where i: "find_fit ?n bs = Some i" by auto
    then have fit: "i < length bs" "bfree (bs ! i)" "?n \<le> bsize (bs ! i)"
      using find_fit_Some by auto
    let ?xs = "take i bs" and ?b = "bs ! i" and ?ys = "drop (Suc i) bs"
    let ?P = "of_nat (block_addr bs i) :: u64" and ?k = "if ?n + 40 \<le> bsize ?b then ?n else bsize ?b"
    define m1 where "m1 = split_block ?P (of_nat ?n) (mem s)"
    define m2 where "m2 = set_is_free ?P False m1"
    have bs: "bs = ?xs @ ?b # ?ys" by (rule split_nth [OF fit(1)])
    have sp: "span (?xs @ ?b # ?ys) = 0x80000" using r(3) bs by simp
    have P: "?P = of_nat (0x180000 + span ?xs)" by (simp add: block_addr_def)
    have small: "bsize ?b < 2 ^ 63" using block_bounds(3) [OF rep fit(1)] by simp
    have old: "blocks_at (mem s) 0x180000 (?xs @ ?b # ?ys) 0" using r(2) bs by simp
    note split = split_block_blocks [OF old _ P fit(3) small, folded m1_def]
    have whole: "Block (bsize ?b) True = ?b" using fit(2) by (cases ?b) simp
    let ?h = "Block ?k True" and ?t = "if ?n + 40 \<le> bsize ?b then [Block (bsize ?b - ?n - 24) True] else []"
    have m1: "blocks_at m1 0x180000 (?xs @ ?h # (?t @ ?ys)) 0"
      and chg1: "only_changes (mem s) m1 (0x180000 + span ?xs) (0x180000 + span ?xs + 24 + bsize ?b)"
      using split sp fit(2) whole by (auto split: if_splits)
    have sp1: "span (?xs @ ?h # (?t @ ?ys)) = 0x80000" using sp fit(3) by auto
    have carve: "?xs @ Block (bsize ?h) False # (?t @ ?ys) = alloc_at ?n i bs"
      "bsize (hd (carve ?n ?b)) = ?k"
      by (simp_all add: alloc_at_def carve_def)
    have m2: "blocks_at m2 0x180000 (alloc_at ?n i bs) 0"
      and chg2: "only_changes m1 m2 (0x180000 + span ?xs) (0x180000 + span ?xs + 24)"
      using set_is_free_blocks [OF m1 _ P, of False] sp1 unfolding carve m2_def by auto
    have "header_at m2 (0x180000 + span ?xs) (Block ?k False) (if ?t @ ?ys = [] then 0
        else of_nat (0x180000 + span ?xs + 24 + bsize (Block ?k False)))"
      by (rule blocks_at_middle) (use m2 in \<open>simp only: carve(1) [symmetric] block.sel\<close>)
    then have size2: "blk_size m2 ?P = of_nat ?k" by (simp only: header_at_def P block.sel)
    have "take_block ?P (of_nat ?n) s = (?P + BLOCK_HEADER_SIZE, s\<lparr>mem := m2, total_allocated :=
        total_allocated s + blk_size m2 ?P\<rparr>)"
      unfolding take_block_def Let_def m2_def m1_def by simp
    also have "?P + BLOCK_HEADER_SIZE = of_nat (payload_addr bs i)"
      by (simp add: payload_addr_def BLOCK_HEADER_SIZE_def)
    finally have take: "take_block ?P (of_nat ?n) s = (of_nat (payload_addr bs i), s\<lparr>mem := m2,
        total_allocated := total_allocated s + of_nat ?k\<rparr>)"
      unfolding size2 .
    with km [unfolded i] False have "kmalloc sz s = Some (of_nat (payload_addr bs i), s\<lparr>mem := m2, total_allocated :=
        total_allocated s + of_nat (bsize (hd (carve ?n ?b)))\<rparr>)"
      by (simp only: option.case carve de_Morgan_disj simp_thms)
    moreover have "only_changes (mem s) m2 (block_addr bs i) (payload_addr bs i + bsize ?b)"
      by (rule only_changes_trans [OF only_changes_mono [OF chg1] only_changes_mono [OF chg2]])
        (auto simp: block_addr_def payload_addr_def)
    ultimately show thesis
      using that(2) False i m2 by blast
  qed
qed

text \<open>\<open>kfree\<close>: both merges, on memory.\<close>

lemma merge_after_absorb:
  assumes "P = of_nat b" "b + 24 \<le> 2 ^ 64" "blk_next m P \<noteq> 0" "blk_is_free m (blk_next m P)"
  shows "merge_after P m = absorb P (blk_next m P) m"
  using assms(3,4) unfolding merge_after_def absorb_def Let_def assms(1) header_reads [OF assms(2)]
  by simp

lemma merge_before_absorb:
  "merge_before c P m = (if c \<noteq> 0 \<and> blk_is_free m c then absorb c P m else m)"
  by (simp add: merge_before_def absorb_def)

lemma merge_after_blocks:
  assumes blocks: "blocks_at m a (xs @ f # ys) 0" and bound: "a + span (xs @ f # ys) < 2 ^ 64"
    and P: "P = of_nat (a + span xs)"
  shows "blocks_at (merge_after P m) a (xs @ merge_next (f # ys)) 0"
    and "only_changes m (merge_after P m) (a + span xs) (a + span xs + 24)"
proof -
  have hdr: "blk_next m P = (if ys = [] then 0 else of_nat (a + span xs + 24 + bsize f))"
    using blocks_at_middle [OF blocks] by (simp only: header_at_def P)
  have both: "blocks_at (merge_after P m) a (xs @ merge_next (f # ys)) 0 \<and>
      only_changes m (merge_after P m) (a + span xs) (a + span xs + 24)"
  proof (cases ys)
    case Nil
    then show ?thesis using hdr blocks by (simp add: merge_after_def)
  next
    case (Cons c zs)
    let ?C = "of_nat (a + span xs + 24 + bsize f) :: u64"
    have C: "blk_next m P = ?C" using hdr Cons by simp
    have nz: "?C \<noteq> 0" by (rule of_nat_neq_0) (use bound Cons in auto)
    have c: "blk_is_free m ?C = bfree c"
      using blocks_at_middle [of m a "xs @ [f]" c zs 0] blocks Cons
      by (simp add: header_at_def add.assoc)
    show ?thesis
    proof (cases "bfree c")
      case True
      then have "merge_after P m = absorb P ?C m"
        using nz c bound by (subst merge_after_absorb [OF P]) (simp_all add: C del: of_nat_add)
      with absorb_blocks [of m a xs f c zs 0 P ?C] blocks bound True Cons P show ?thesis by simp
    next
      case False
      then have "merge_after P m = m"
        using nz c by (simp add: merge_after_def C del: of_nat_add)
      with blocks False Cons show ?thesis by simp
    qed
  qed
  then show "blocks_at (merge_after P m) a (xs @ merge_next (f # ys)) 0"
    and "only_changes m (merge_after P m) (a + span xs) (a + span xs + 24)" by auto
qed

text \<open>\<open>kfree\<close> on a used block: flag, merge with the next, find the previous, merge into it.\<close>

lemma kfree_steps:
  assumes P: "P = of_nat b" "b + 24 \<le> 2 ^ 64" and ptr: "ptr \<noteq> 0" "ptr - BLOCK_HEADER_SIZE = P"
    and used: "\<not> blk_is_free (mem s) P"
    and prev: "find_prev P (heap_start s) (merge_after P (set_is_free P True (mem s))) = Some c"
  shows "kfree ptr s = Some (s\<lparr>mem := merge_before c P (merge_after P (set_is_free P True (mem s))),
     total_allocated := total_allocated s - blk_size (mem s) P\<rparr>)"
proof -
  have "blk_size (set_is_free P True (mem s)) P = blk_size (mem s) P"
    unfolding P(1) header_reads [OF P(2)] ..
  with ptr used prev show ?thesis by (simp add: kfree_def Let_def)
qed

text \<open>Addresses that belong to a block header.\<close>

definition in_header :: "block list \<Rightarrow> u64 \<Rightarrow> bool" where
  "in_header bs x \<longleftrightarrow> (\<exists>j < length bs. block_addr bs j \<le> unat x \<and> unat x < payload_addr bs j)"

lemma header_change:
  assumes "only_changes m m' (0x180000 + span (take j bs)) (0x180000 + span (take j bs) + 24)"
    and "j < length bs" "\<not> in_header bs x"
  shows "m' x = m x"
proof (rule only_changesD [OF assms(1)])
  have "\<not> (0x180000 + span (take j bs) \<le> unat x \<and> unat x < 0x180000 + span (take j bs) + 24)"
    using assms(2,3) by (simp only: in_header_def block_addr_def payload_addr_def) blast
  then show "unat x < 0x180000 + span (take j bs) \<or> 0x180000 + span (take j bs) + 24 \<le> unat x" by linarith
qed

lemma settled_take_drop:
  assumes "settled bs" "i < length bs"
  shows "settled (take i bs)" "settled (drop (Suc i) bs)"
  using assms(1) split_nth [OF assms(2)] settled_append [of "take i bs" "bs ! i # drop (Suc i) bs"]
  by (simp_all only: settled_Cons simp_thms)

lemma hd_merge_next: "merge_next (f # ys) \<noteq> []" "bfree (hd (merge_next (f # ys))) = bfree f"
  "span (merge_next (f # ys)) = span (f # ys)"
  by (cases ys; simp)+

lemma merge_before_blocks:
  assumes blocks: "blocks_at m 0x180000 (xs @ zs) 0" and zs: "zs \<noteq> []" "bfree (hd zs)"
    and bound: "span (xs @ zs) = 0x80000" and P: "P = of_nat (0x180000 + span xs)"
  obtains c where "find_prev P HEAP_START m = Some c"
    "blocks_at (merge_before c P m) 0x180000 (if xs \<noteq> [] \<and> bfree (last xs)
       then butlast xs @ merge_next (last xs # zs) else xs @ zs) 0"
    "xs = [] \<and> merge_before c P m = m \<or> xs \<noteq> [] \<and>
       only_changes m (merge_before c P m) (0x180000 + span (butlast xs)) (0x180000 + span (butlast xs) + 24)"
proof -
  have start: "HEAP_START = of_nat 0x180000" "HEAP_START = head_ptr 0x180000 (xs @ zs)"
    using zs by (simp_all add: HEAP_START_def head_ptr_def)
  show thesis
  proof (cases "xs = []")
    case True
    then have "find_prev P HEAP_START m = Some 0"
      unfolding start(2) P using find_prev_none [OF blocks, of "0x180000"] bound by simp
    then show thesis
      using that [of 0] True blocks by (simp add: merge_before_absorb)
  next
    case False
    define ps p where "ps = butlast xs" and "p = last xs"
    obtain g gs where z: "zs = g # gs" using zs by (cases zs) auto
    have xs: "xs = ps @ [p]" using False by (simp add: ps_def p_def)
    let ?c = "0x180000 + span ps"
    have old: "blocks_at m 0x180000 (ps @ p # g # gs) 0" using blocks unfolding xs z by simp
    have b: "0x180000 + span (ps @ p # g # gs) < 2 ^ 64" using bound unfolding xs z by simp
    have found: "find_prev P HEAP_START m = Some (of_nat ?c)"
      unfolding start(1) P xs by (rule find_prev_found [OF old _ b]) simp
    have nz: "(of_nat ?c :: u64) \<noteq> 0" by (rule of_nat_neq_0) (use b in auto)
    have p: "blk_is_free m (of_nat ?c) = bfree p"
      using blocks_at_middle [OF old] by (simp only: header_at_def)
    have mb: "merge_before (of_nat ?c) P m = (if bfree p then absorb (of_nat ?c) P m else m)"
      using nz p by (simp add: merge_before_absorb del: of_nat_add)
    have "P = of_nat (?c + 24 + bsize p)" unfolding P xs by simp
    note absorbed = absorb_blocks [OF old order_less_imp_le [OF b] refl this]
    show thesis
    proof (rule that [OF found])
      show "blocks_at (merge_before (of_nat ?c) P m) 0x180000 (if xs \<noteq> [] \<and> bfree (last xs)
          then butlast xs @ merge_next (last xs # zs) else xs @ zs) 0"
        using absorbed(1) old zs unfolding mb by (cases "bfree p") (simp_all add: xs z)
      show "xs = [] \<and> merge_before (of_nat ?c) P m = m \<or> xs \<noteq> [] \<and>
          only_changes m (merge_before (of_nat ?c) P m) (0x180000 + span (butlast xs)) (0x180000 + span (butlast xs) + 24)"
        using absorbed(2) unfolding mb by (simp add: xs)
    qed
  qed
qed

lemma kfree_used:
  assumes rep: "heap_rep s bs" and i: "i < length bs" "\<not> bfree (bs ! i)"
  obtains m where "kfree (of_nat (payload_addr bs i)) s =
      Some (s\<lparr>mem := m, total_allocated := total_allocated s - of_nat (bsize (bs ! i))\<rparr>)"
    "blocks_at m 0x180000 (free_at i bs) 0" "\<And>x. \<not> in_header bs x \<Longrightarrow> m x = mem s x"
proof -
  note r = heap_repD [OF rep]
  let ?xs = "take i bs" and ?b = "bs ! i" and ?ys = "drop (Suc i) bs"
  let ?f = "Block (bsize ?b) True"
  define P where "P = (of_nat (0x180000 + span ?xs) :: u64)"
  define m1 where "m1 = set_is_free P True (mem s)"
  have bs: "bs = ?xs @ ?b # ?ys" by (rule split_nth [OF i(1)])
  have sp: "span (?xs @ ?b # ?ys) = 0x80000" using r(3) bs by simp
  have old: "blocks_at (mem s) 0x180000 (?xs @ ?b # ?ys) 0" using r(2) bs by simp
  have m1: "blocks_at m1 0x180000 (?xs @ ?f # ?ys) 0"
    and chg1: "only_changes (mem s) m1 (0x180000 + span ?xs) (0x180000 + span ?xs + 24)"
    using set_is_free_blocks [OF old _ P_def, of True] sp by (auto simp: m1_def)
  have m2: "blocks_at (merge_after P m1) 0x180000 (?xs @ merge_next (?f # ?ys)) 0"
    and chg2: "only_changes m1 (merge_after P m1) (0x180000 + span ?xs) (0x180000 + span ?xs + 24)"
    using merge_after_blocks [OF m1 _ P_def] sp by auto
  have "span (?xs @ merge_next (?f # ?ys)) = 0x80000" using sp by (simp add: hd_merge_next)
  then obtain c where c: "find_prev P HEAP_START (merge_after P m1) = Some c"
    and m3: "blocks_at (merge_before c P (merge_after P m1)) 0x180000 (if ?xs \<noteq> [] \<and> bfree (last ?xs)
       then butlast ?xs @ merge_next (last ?xs # merge_next (?f # ?ys)) else ?xs @ merge_next (?f # ?ys)) 0"
    and chg3: "?xs = [] \<and> merge_before c P (merge_after P m1) = merge_after P m1 \<or> ?xs \<noteq> [] \<and>
       only_changes (merge_after P m1) (merge_before c P (merge_after P m1))
         (0x180000 + span (butlast ?xs)) (0x180000 + span (butlast ?xs) + 24)"
    using merge_before_blocks [OF m2 _ _ _ P_def] by (auto simp: hd_merge_next)
  have hdr: "blk_size (mem s) P = of_nat (bsize ?b)" "\<not> blk_is_free (mem s) P"
    using blocks_at_middle [OF old] i(2) by (simp_all only: header_at_def P_def) auto
  have "free_at i bs = coalesce (?xs @ ?f # ?ys)"
    by (simp add: free_at_def upd_conv_take_nth_drop [OF i(1)])
  also have "\<dots> = (if ?xs \<noteq> [] \<and> bfree (last ?xs)
       then butlast ?xs @ merge_next (last ?xs # merge_next (?f # ?ys)) else ?xs @ merge_next (?f # ?ys))"
    by (rule coalesce_zipper [OF settled_take_drop [OF r(5) i(1)]]) simp
  finally have free: "blocks_at (merge_before c P (merge_after P m1)) 0x180000 (free_at i bs) 0"
    using m3 by simp
  have ptr: "P = of_nat (block_addr bs i)" by (simp add: P_def block_addr_def)
  have "kfree (of_nat (payload_addr bs i)) s = Some (s\<lparr>mem := merge_before c P (merge_after P m1),
      total_allocated := total_allocated s - of_nat (bsize ?b)\<rparr>)"
    unfolding m1_def hdr(1) [symmetric]
    by (rule kfree_steps [OF ptr]) (use c hdr(2) payload_pointer [OF rep i(1)] block_bounds [OF rep i(1)] r(1)
      in \<open>simp_all add: ptr [symmetric] m1_def payload_addr_def\<close>)
  moreover have "merge_before c P (merge_after P m1) x = mem s x" if x: "\<not> in_header bs x" for x
  proof -
    have "merge_after P m1 x = mem s x"
      using header_change [OF chg1 i(1) x] header_change [OF chg2 i(1) x] by simp
    moreover have "merge_before c P (merge_after P m1) x = merge_after P m1 x"
      using chg3 header_change [of _ _ "i - 1" bs, OF _ _ x] i(1) by (auto simp: butlast_take)
    ultimately show ?thesis by simp
  qed
  ultimately show thesis using that free by blast
qed

section \<open>The abstract operations keep the invariant\<close>

lemma span_alloc_at: "i < length bs \<Longrightarrow> span (alloc_at n i bs) = span bs"
  by (subst (2) split_nth, assumption) (simp add: alloc_at_def carve_facts(2))

lemma span_free_at: "i < length bs \<Longrightarrow> span (free_at i bs) = span bs"
  by (subst (2) split_nth, assumption) (simp add: free_at_def coalesce_keeps upd_conv_take_nth_drop)

lemma used_alloc_at:
  "i < length bs \<Longrightarrow> bfree (bs ! i) \<Longrightarrow>
   used_bytes (alloc_at n i bs) = used_bytes bs + bsize (hd (carve n (bs ! i)))"
  by (subst (2) split_nth, assumption) (simp add: alloc_at_def used_bytes_carve)

lemma used_free_at:
  "i < length bs \<Longrightarrow> \<not> bfree (bs ! i) \<Longrightarrow>
   used_bytes bs = used_bytes (free_at i bs) + bsize (bs ! i)"
  by (subst split_nth, assumption) (simp add: free_at_def coalesce_keeps upd_conv_take_nth_drop)

lemma mod_8_alloc_at:
  "\<forall>b \<in> set bs. bsize b mod 8 = 0 \<Longrightarrow> n mod 8 = 0 \<Longrightarrow> i < length bs \<Longrightarrow>
   \<forall>b \<in> set (alloc_at n i bs). bsize b mod 8 = 0"
  using carve_facts(3) [of "bs ! i" n]
  by (auto simp: alloc_at_def dest!: in_set_takeD in_set_dropD)

lemma mod_8_free_at:
  "\<forall>b \<in> set bs. bsize b mod 8 = 0 \<Longrightarrow> i < length bs \<Longrightarrow> \<forall>b \<in> set (free_at i bs). bsize b mod 8 = 0"
  unfolding free_at_def
  by (rule coalesce_mod_8) (auto dest!: set_update_subset_insert [THEN subsetD])

lemma settled_alloc_at:
  assumes "settled bs" "i < length bs" "bfree (bs ! i)"
  shows "settled (alloc_at n i bs)"
proof -
  have "settled (take i bs @ bs ! i # drop (Suc i) bs)"
    using assms(1,2) by (simp only: split_nth [symmetric])
  with assms(3) show ?thesis
    unfolding alloc_at_def carve_def by (auto simp: settled_append settled_Cons)
qed

lemma settled_free_at: "settled (free_at i bs)"
  unfolding free_at_def by (rule settled_coalesce)

text \<open>The payload addresses in use, from address \<open>a\<close> on.\<close>

fun used_from :: "nat \<Rightarrow> block list \<Rightarrow> nat set" where
  "used_from a [] = {}"
| "used_from a (b # bs) = (if bfree b then {} else {a + 24}) \<union> used_from (a + 24 + bsize b) bs"

lemma used_from_append: "used_from a (xs @ ys) = used_from a xs \<union> used_from (a + span xs) ys"
  by (induction xs arbitrary: a) (auto simp: add.assoc)

lemma used_from_bounds: "x \<in> used_from a bs \<Longrightarrow> a + 24 \<le> x \<and> x \<le> a + span bs"
  by (induction bs arbitrary: a) (force split: if_splits)+

lemma used_from_nth:
  "x \<in> used_from a bs \<longleftrightarrow> (\<exists>i < length bs. \<not> bfree (bs ! i) \<and> x = a + span (take i bs) + 24)"
proof (induction bs arbitrary: a)
  case (Cons b bs)
  show ?case
    unfolding used_from.simps Un_iff Cons.IH
    by (auto simp: less_Suc_eq_0_disj add.assoc)
qed simp

lemma used_from_coalesce: "used_from a (coalesce bs) = used_from a bs"
  by (induction bs arbitrary: a rule: coalesce.induct) (auto simp: add.assoc)

lemma used_from_alloc_at:
  assumes "i < length bs" "bfree (bs ! i)"
  shows "used_from a (alloc_at n i bs) = insert (a + span (take i bs) + 24) (used_from a bs)"
    and "a + span (take i bs) + 24 \<notin> used_from a bs"
proof -
  let ?xs = "take i bs" and ?ys = "drop (Suc i) bs"
  have carve: "used_from b (carve n (bs ! i)) = {b + 24}" for b by (simp add: carve_def)
  have bs: "used_from a bs = used_from a ?xs \<union> used_from (a + span ?xs + 24 + bsize (bs ! i)) ?ys"
    using arg_cong [OF split_nth [OF assms(1)], of "used_from a"] assms(2)
    by (simp only: used_from_append used_from.simps if_True Un_empty_left)
  show "used_from a (alloc_at n i bs) = insert (a + span ?xs + 24) (used_from a bs)"
    unfolding bs alloc_at_def used_from_append carve carve_facts(2) by (simp add: add.assoc)
  show "a + span ?xs + 24 \<notin> used_from a bs"
    unfolding bs using used_from_bounds by fastforce
qed

lemma used_from_free_at:
  assumes "i < length bs" "\<not> bfree (bs ! i)"
  shows "used_from a (free_at i bs) = used_from a bs - {a + span (take i bs) + 24}"
proof -
  let ?xs = "take i bs" and ?ys = "drop (Suc i) bs"
  let ?rest = "used_from a ?xs \<union> used_from (a + span ?xs + 24 + bsize (bs ! i)) ?ys"
  have bs: "used_from a bs = insert (a + span ?xs + 24) ?rest"
    using arg_cong [OF split_nth [OF assms(1)], of "used_from a"] assms(2)
    by (simp only: used_from_append used_from.simps if_False) blast
  have "a + span ?xs + 24 \<notin> ?rest" using used_from_bounds by fastforce
  moreover have "used_from a (free_at i bs) = ?rest"
    unfolding free_at_def used_from_coalesce upd_conv_take_nth_drop [OF assms(1)]
    by (simp add: used_from_append)
  ultimately show ?thesis unfolding bs by blast
qed

section \<open>Refinement\<close>

text \<open>The list is determined by the memory.\<close>

lemma blocks_at_unique:
  assumes "blocks_at m a xs z" "blocks_at m a ys z" "span xs = span ys" "span xs < 2 ^ 64"
  shows "xs = ys"
  using assms
proof (induction xs arbitrary: a ys)
  case Nil
  then show ?case by (cases ys) auto
next
  case (Cons x xs)
  then obtain y ys' where ys: "ys = y # ys'" by (cases ys) auto
  have bounds: "bsize x < 2 ^ 64" "bsize y < 2 ^ 64" using Cons.prems ys by auto
  have "(of_nat (bsize x) :: u64) = of_nat (bsize y)" "bfree x = bfree y"
    using Cons.prems(1,2) unfolding ys blocks_at.simps header_at_def by auto
  then have xy: "x = y" using of_nat_eq_u64 [OF bounds] by (cases x; cases y) simp
  have "xs = ys'"
    by (rule Cons.IH [of "a + 24 + bsize x"]) (use Cons.prems xy ys in auto)
  with xy ys show ?case by simp
qed

lemma heap_rep_unique: "heap_rep s xs \<Longrightarrow> heap_rep s ys \<Longrightarrow> xs = ys"
  by (auto simp: heap_rep_def intro!: blocks_at_unique [of "mem s" "0x180000"])

lemma heap_repI:
  assumes "heap_start s = HEAP_START" "blocks_at m 0x180000 bs 0" "span bs = 0x80000"
    "\<forall>b \<in> set bs. bsize b mod 8 = 0" "settled bs" "t = of_nat (used_bytes bs)"
  shows "heap_rep (s\<lparr>mem := m, total_allocated := t\<rparr>) bs"
  using assms by (simp add: heap_rep_def)

lemma kmalloc_rep:
  assumes rep: "heap_rep s bs"
  obtains (refused) "find_fit (unat (align_size sz)) bs = None \<or> sz = 0" "kmalloc sz s = Some (0, s)"
  | (granted) i m t where "sz \<noteq> 0" "find_fit (unat (align_size sz)) bs = Some i"
      "kmalloc sz s = Some (of_nat (payload_addr bs i), s\<lparr>mem := m, total_allocated := t\<rparr>)"
      "heap_rep (s\<lparr>mem := m, total_allocated := t\<rparr>) (alloc_at (unat (align_size sz)) i bs)"
      "only_changes (mem s) m (block_addr bs i) (payload_addr bs i + bsize (bs ! i))"
  using rep
proof (cases rule: kmalloc_cases [where sz = sz])
  case refused
  then show ?thesis by (rule that(1))
next
  case (granted i m)
  note r = heap_repD [OF rep]
  have i: "i < length bs" "bfree (bs ! i)" using find_fit_Some [OF granted(2)] by auto
  have "heap_rep (s\<lparr>mem := m, total_allocated :=
      total_allocated s + of_nat (bsize (hd (carve (unat (align_size sz)) (bs ! i))))\<rparr>)
      (alloc_at (unat (align_size sz)) i bs)"
    by (rule heap_repI [OF r(1) granted(4) _ mod_8_alloc_at [OF r(4) align_size_mod_8 i(1)]
          settled_alloc_at [OF r(5) i]])
      (simp_all add: r(3,6) i span_alloc_at used_alloc_at)
  with granted show ?thesis by (intro that(2))
qed

lemma kfree_rep:
  assumes rep: "heap_rep s bs" and i: "i < length bs" "\<not> bfree (bs ! i)"
  obtains m t where "kfree (of_nat (payload_addr bs i)) s = Some (s\<lparr>mem := m, total_allocated := t\<rparr>)"
    "heap_rep (s\<lparr>mem := m, total_allocated := t\<rparr>) (free_at i bs)"
    "\<And>x. \<not> in_header bs x \<Longrightarrow> m x = mem s x"
proof -
  note r = heap_repD [OF rep]
  show thesis
  proof (rule kfree_used [OF assms])
    fix m
    assume m: "kfree (of_nat (payload_addr bs i)) s =
        Some (s\<lparr>mem := m, total_allocated := total_allocated s - of_nat (bsize (bs ! i))\<rparr>)"
      "blocks_at m 0x180000 (free_at i bs) 0" "\<And>x. \<not> in_header bs x \<Longrightarrow> m x = mem s x"
    have "heap_rep (s\<lparr>mem := m, total_allocated := total_allocated s - of_nat (bsize (bs ! i))\<rparr>) (free_at i bs)"
      by (rule heap_repI [OF r(1) m(2) _ mod_8_free_at [OF r(4) i(1)] settled_free_at])
        (simp_all add: r(3,6) i span_free_at used_free_at [OF i])
    then show thesis by (rule that [OF m(1) _ m(3)])
  qed
qed

section \<open>The heap as an allocator\<close>

definition heap_wf :: "'a heap_scheme \<Rightarrow> bool" where
  "heap_wf s \<longleftrightarrow> (\<exists>bs. heap_rep s bs)"

definition live_pointers :: "'a heap_scheme \<Rightarrow> u64 set" where
  "live_pointers s = {p. \<exists>bs. heap_rep s bs \<and> p \<in> of_nat ` used_from 0x180000 bs}"

lemma live_pointers_rep:
  assumes "heap_rep s bs" shows "live_pointers s = of_nat ` used_from 0x180000 bs"
proof -
  have "heap_rep s bs' \<longleftrightarrow> bs' = bs" for bs'
    using assms heap_rep_unique [OF _ assms] by blast
  then show ?thesis by (simp add: live_pointers_def image_def)
qed

lemma used_from_inj:
  assumes "heap_rep s bs" "i < length bs"
  shows "inj_on (of_nat :: nat \<Rightarrow> u64) (insert (payload_addr bs i) (used_from 0x180000 bs))"
proof (rule inj_onI)
  fix x y
  have le: "x \<le> 0x200000" if "x \<in> insert (payload_addr bs i) (used_from 0x180000 bs)" for x
    using that used_from_bounds [of x "0x180000" bs] heap_repD(3) [OF assms(1)] block_bounds(1) [OF assms]
    by auto
  assume "x \<in> insert (payload_addr bs i) (used_from 0x180000 bs)"
    "y \<in> insert (payload_addr bs i) (used_from 0x180000 bs)" "(of_nat x :: u64) = of_nat y"
  with le [of x] le [of y] show "x = y" by (simp add: of_nat_eq_u64)
qed

lemma live_pointer_index:
  assumes "heap_rep s bs" "p \<in> live_pointers s"
  obtains i where "i < length bs" "\<not> bfree (bs ! i)" "p = of_nat (payload_addr bs i)"
  using assms(2) unfolding live_pointers_rep [OF assms(1)] payload_addr_def block_addr_def
  by (auto simp: used_from_nth)

lemma heap_alloc_live:
  assumes rep: "heap_rep s bs" and rep': "heap_rep s' (alloc_at n i bs)" and i: "i < length bs" "bfree (bs ! i)"
  shows "of_nat (payload_addr bs i) \<notin> live_pointers s"
    "live_pointers s' = insert (of_nat (payload_addr bs i)) (live_pointers s)"
proof -
  note u = used_from_alloc_at [OF i, where a = "0x180000", folded block_addr_def payload_addr_def]
  show "live_pointers s' = insert (of_nat (payload_addr bs i)) (live_pointers s)"
    unfolding live_pointers_rep [OF rep] live_pointers_rep [OF rep'] u(1) by simp
  show "of_nat (payload_addr bs i) \<notin> live_pointers s"
    unfolding live_pointers_rep [OF rep]
    using used_from_inj [OF rep i(1)] u(2) by (auto dest: inj_onD)
qed

lemma heap_free_live:
  assumes rep: "heap_rep s bs" and rep': "heap_rep s' (free_at i bs)" and i: "i < length bs" "\<not> bfree (bs ! i)"
  shows "live_pointers s' = live_pointers s - {of_nat (payload_addr bs i)}"
proof -
  have "payload_addr bs i \<in> used_from 0x180000 bs"
    using i by (auto simp: used_from_nth payload_addr_def block_addr_def)
  then show ?thesis
    unfolding live_pointers_rep [OF rep] live_pointers_rep [OF rep']
      used_from_free_at [OF i, where a = "0x180000", folded block_addr_def payload_addr_def]
    using used_from_inj [OF rep i(1)] by (subst inj_on_image_set_diff) (auto dest: inj_onD)
qed

lemma kmalloc_contract:
  assumes "heap_wf s" "kmalloc sz s = Some (p, s')"
  shows "heap_wf s' \<and> (p = 0 \<longrightarrow> s' = s) \<and>
    (p \<noteq> 0 \<longrightarrow> p \<notin> live_pointers s \<and> live_pointers s' = insert p (live_pointers s))"
proof -
  obtain bs where rep: "heap_rep s bs" using assms(1) by (auto simp: heap_wf_def)
  then show ?thesis
  proof (cases rule: kmalloc_rep [where sz = sz])
    case refused
    with assms show ?thesis by simp
  next
    case (granted i m t)
    have i: "i < length bs" "bfree (bs ! i)" using find_fit_Some [OF granted(2)] by auto
    have "p = of_nat (payload_addr bs i)" "s' = s\<lparr>mem := m, total_allocated := t\<rparr>"
      using assms(2) granted(3) by auto
    moreover note payload_pointer(3) [OF rep i(1)] heap_alloc_live [OF rep granted(4) i]
    moreover have "heap_wf (s\<lparr>mem := m, total_allocated := t\<rparr>)"
      using granted(4) unfolding heap_wf_def by blast
    ultimately show ?thesis by simp
  qed
qed

lemma kmalloc_returns: "heap_wf s \<Longrightarrow> \<exists>p s'. kmalloc sz s = Some (p, s')"
  by (auto simp: heap_wf_def elim: kmalloc_rep [where sz = sz])

lemma kfree_contract:
  assumes "heap_wf s" "p \<in> live_pointers s"
  shows "\<exists>s'. kfree p s = Some s' \<and> heap_wf s' \<and> live_pointers s' = live_pointers s - {p}"
proof -
  obtain bs where rep: "heap_rep s bs" using assms(1) by (auto simp: heap_wf_def)
  obtain i where i: "i < length bs" "\<not> bfree (bs ! i)" and p: "p = of_nat (payload_addr bs i)"
    by (rule live_pointer_index [OF rep assms(2)])
  show ?thesis
  proof (rule kfree_rep [OF rep i])
    fix m t
    assume ret: "kfree (of_nat (payload_addr bs i)) s = Some (s\<lparr>mem := m, total_allocated := t\<rparr>)"
      and rep': "heap_rep (s\<lparr>mem := m, total_allocated := t\<rparr>) (free_at i bs)"
    have "heap_wf (s\<lparr>mem := m, total_allocated := t\<rparr>)"
      using rep' unfolding heap_wf_def by blast
    with ret heap_free_live [OF rep rep' i] show ?thesis unfolding p by simp
  qed
qed

interpretation heap: allocator heap_wf live_pointers kmalloc kfree
proof (unfold_locales, goal_cases)
  case (3 s r s')
  then show ?case using kmalloc_contract by fastforce
qed (use kmalloc_returns kmalloc_contract kfree_contract in fastforce)+

section \<open>Release undoes allocation\<close>

lemma take_alloc_at: "i < length bs \<Longrightarrow> take i (alloc_at n i bs) = take i bs"
  by (simp add: alloc_at_def)

lemma payload_addr_alloc_at: "i < length bs \<Longrightarrow> payload_addr (alloc_at n i bs) i = payload_addr bs i"
  by (simp add: payload_addr_def block_addr_def take_alloc_at)

lemma nth_alloc_at:
  "i < length bs \<Longrightarrow> i < length (alloc_at n i bs) \<and> alloc_at n i bs ! i = hd (carve n (bs ! i))"
  by (simp add: alloc_at_def carve_def nth_append)

lemma free_alloc_at:
  assumes "settled bs" "i < length bs" "bfree (bs ! i)" "n \<le> bsize (bs ! i)"
  shows "free_at i (alloc_at n i bs) = bs"
proof -
  let ?xs = "take i bs" and ?b = "bs ! i" and ?ys = "drop (Suc i) bs"
  have bs: "?xs @ ?b # ?ys = bs" by (rule split_nth [OF assms(2), symmetric])
  have whole: "Block (bsize ?b) True = ?b" using assms(3) by (cases ?b) simp
  have set: "settled (?xs @ ?b # ?ys)" using assms(1) bs by simp
  then have parts: "settled ?xs" "settled ?ys" "\<not> (?xs \<noteq> [] \<and> bfree (last ?xs))"
      "?ys = [] \<or> \<not> bfree (hd ?ys)"
    using assms(3) by (simp_all only: settled_append settled_Cons list.sel) auto
  show ?thesis
  proof (cases "n + 40 \<le> bsize ?b")
    case False
    have "free_at i (alloc_at n i bs) = coalesce (?xs @ ?b # ?ys)"
      using False assms(2) whole
      by (simp add: free_at_def alloc_at_def carve_def nth_append list_update_append)
    then show ?thesis unfolding bs using coalesce_settled [OF assms(1)] by simp
  next
    case True
    let ?r = "Block (bsize ?b - n - 24) True"
    have "free_at i (alloc_at n i bs) = coalesce (?xs @ Block n True # ?r # ?ys)"
      using True assms(2) by (simp add: free_at_def alloc_at_def carve_def nth_append list_update_append)
    also have "settled (?r # ?ys)" using parts by (auto simp: settled_Cons)
    then have "coalesce (?xs @ Block n True # ?r # ?ys) = ?xs @ ?b # ?ys"
      using parts(1,3) True whole by (subst coalesce_zipper) auto
    finally show ?thesis unfolding bs .
  qed
qed

section \<open>Writing a heap\<close>

text \<open>Concrete heaps: the headers of a list of blocks, written from address \<open>a\<close> on.\<close>

fun write_blocks :: "nat \<Rightarrow> block list \<Rightarrow> memory \<Rightarrow> memory" where
  "write_blocks a [] m = m"
| "write_blocks a (b # bs) m = write_blocks (a + 24 + bsize b) bs
     (set_next (of_nat a) (head_ptr (a + 24 + bsize b) bs)
       (set_is_free (of_nat a) (bfree b) (set_size (of_nat a) (of_nat (bsize b)) m)))"

lemma header_written:
  fixes m :: memory
  assumes "a + 24 \<le> 2 ^ 64"
    and "m' = set_next (of_nat a) z (set_is_free (of_nat a) (bfree b) (set_size (of_nat a) (of_nat (bsize b)) m))"
  shows "header_at m' a b z" "only_changes m m' a (a + 24)"
  unfolding assms(2) header_at_def header_reads [OF assms(1)]
  using only_changes_trans [OF only_changes_trans [OF header_writes(1,2) [OF assms(1)]] header_writes(3) [OF assms(1)]]
  by simp_all

lemma write_blocks_at:
  "a + span bs \<le> 2 ^ 64 \<Longrightarrow>
   blocks_at (write_blocks a bs m) a bs 0 \<and> only_changes m (write_blocks a bs m) a (a + span bs)"
proof (induction a bs m rule: write_blocks.induct)
  case (1 a m)
  then show ?case by simp
next
  case (2 a b bs m)
  let ?a = "a + 24 + bsize b"
  let ?m = "set_next (of_nat a) (head_ptr ?a bs)
      (set_is_free (of_nat a) (bfree b) (set_size (of_nat a) (of_nat (bsize b)) m))"
  have a: "a + 24 \<le> 2 ^ 64" and b: "?a + span bs \<le> 2 ^ 64" using "2.prems" by auto
  note hdr = header_written [OF a refl, where z = "head_ptr ?a bs" and b = b and m = m]
  note IH = "2.IH" [OF b]
  have "header_at (write_blocks ?a bs ?m) a b (head_ptr ?a bs)"
    using hdr(1) header_at_agree [OF agree_sym [OF only_changes_agree [OF conjunct2 [OF IH]]] a] by simp
  moreover have "only_changes m (write_blocks ?a bs ?m) a (a + span (b # bs))"
    by (rule only_changes_trans [OF only_changes_mono [OF hdr(2)] only_changes_mono [OF conjunct2 [OF IH]]]) auto
  ultimately show ?case
    using IH unfolding blocks_at_Cons_head write_blocks.simps by blast
qed

text \<open>A machine whose transmitter is always ready and whose memory is clear.\<close>

definition blank_machine :: heap where
  "blank_machine = \<lparr>mem = \<lambda>_. 0, lsr = \<lambda>_. 0x20, lsr_reads = 0, ports = [], cr3 = 0, invlpgs = [],
     terminal_row = 0, terminal_column = 0, terminal_color = 0, terminal_buffer = 0xB8000,
     page_bitmap = 0x140000, total_pages = 0, used_pages = 0, pml4 = 0, heap_start = 0,
     total_allocated = 0\<rparr>"

definition heap_of :: "block list \<Rightarrow> heap" where
  "heap_of bs = blank_machine\<lparr>mem := write_blocks 0x180000 bs (\<lambda>_. 0), heap_start := HEAP_START,
     total_allocated := of_nat (used_bytes bs)\<rparr>"

lemma heap_rep_heap_of:
  assumes "span bs = 0x80000" "\<forall>b \<in> set bs. bsize b mod 8 = 0" "settled bs"
  shows "heap_rep (heap_of bs) bs"
  using assms write_blocks_at [of "0x180000" bs "\<lambda>_. 0"] by (simp add: heap_rep_def heap_of_def)

lemma uart_live_blank: "uart_live blank_machine"
  by (auto simp: uart_live_def blank_machine_def)

section \<open>Initialisation and accounting\<close>

definition heap_message :: cstring where
  "heap_message = cstr (''[KMALLOC] Kernel heap allocator initialized'' @ [CHR 0x0A])"

lemma kmalloc_init_result:
  assumes "uart_live s" "total_allocated s = 0"
  obtains m s' where "kmalloc_init s = Some s'"
    "sends (crlf (content heap_message)) (s\<lparr>heap_start := HEAP_START, mem := m\<rparr>) s'"
    "only_changes (mem s) m 0x180000 0x180018" "heap_rep s' [Block 0x7FFE8 True]"
proof -
  let ?b = "Block 0x7FFE8 True"
  define m where "m = set_next (of_nat 0x180000) 0 (set_is_free (of_nat 0x180000) (bfree ?b)
      (set_size (of_nat 0x180000) (of_nat (bsize ?b)) (mem s)))"
  have hdr: "header_at m 0x180000 ?b 0" "only_changes (mem s) m 0x180000 (0x180000 + 24)"
    by (rule header_written [OF _ m_def]; simp)+
  let ?s1 = "s\<lparr>heap_start := HEAP_START, mem := m\<rparr>"
  have init: "kmalloc_init s = serial_writestring heap_message ?s1"
    by (simp add: kmalloc_init_def heap_message_def m_def HEAP_START_def HEAP_SIZE_def BLOCK_HEADER_SIZE_def)
  have "uart_live ?s1" using assms(1) by (simp add: uart_live_def)
  moreover have "terminated heap_message" by (simp add: heap_message_def terminated_cstr)
  ultimately obtain s' where s': "serial_writestring heap_message ?s1 = Some s'"
      "sends (crlf (content heap_message)) ?s1 s'"
    using serial_writestring_sends by blast
  have "heap_rep s' [?b]"
    using s'(2) hdr(1) assms(2) by (auto simp: sends_def heap_rep_def)
  with that [of s' m] init s' hdr(2) show thesis by simp
qed

lemma kmalloc_get_free_rep:
  assumes "heap_rep s bs" shows "kmalloc_get_free s = Some (of_nat (free_bytes bs))"
proof -
  note r = heap_repD [OF assms]
  have "heap_start s = head_ptr 0x180000 bs"
    using r(1,7) by (simp add: head_ptr_def HEAP_START_def)
  then show ?thesis
    using sum_free_walk [OF r(2), of 0] r(3) by (simp add: kmalloc_get_free_def)
qed

text \<open>A change outside the heap's area leaves the heap as it is; \<open>kfree\<close> stays inside it.\<close>

lemma heap_rep_frame:
  assumes rep: "heap_rep s bs" and chg: "only_changes (mem s) (mem s') lo hi" "hi \<le> 0x180000 \<or> 0x200000 \<le> lo"
    and "heap_start s' = heap_start s" "total_allocated s' = total_allocated s"
  shows "heap_rep s' bs"
proof -
  note r = heap_repD [OF rep]
  have "blocks_at (mem s') 0x180000 bs 0"
    using r(2) by (subst blocks_at_frame [OF chg(1)]) (use chg(2) r(3) in auto)
  with assms r show ?thesis by (simp add: heap_rep_def)
qed

lemma in_header_range:
  assumes "heap_rep s bs" "in_header bs x"
  shows "0x180000 \<le> unat x \<and> unat x < 0x200000"
  using assms(2) block_bounds [OF assms(1)] unfolding in_header_def by fastforce

lemma header_writes_only_change_heap:
  assumes "heap_rep s bs" "\<And>x. \<not> in_header bs x \<Longrightarrow> m x = mem s x"
  shows "only_changes (mem s) m 0x180000 0x200000"
  using in_header_range [OF assms(1)] assms(2) unfolding only_changes_def by (meson not_le)

text \<open>Pointers are multiples of 8.\<close>

lemma span_mod_8: "\<forall>b \<in> set bs. bsize b mod 8 = 0 \<Longrightarrow> span bs mod 8 = 0"
  by (induction bs) (auto simp: mod_eq_0_iff_dvd)

lemma payload_addr_mod_8:
  assumes "heap_rep s bs" shows "payload_addr bs i mod 8 = 0"
proof -
  have "\<forall>b \<in> set (take i bs). bsize b mod 8 = 0"
    using heap_repD(4) [OF assms] by (blast dest: in_set_takeD)
  from span_mod_8 [OF this] have "span (take i bs) mod 8 = 0" .
  then show ?thesis unfolding payload_addr_def block_addr_def by presburger
qed

text \<open>Bytes of a payload are in no header, so a client that writes there keeps the heap.\<close>

lemma payload_not_in_header:
  assumes "i < length bs" "payload_addr bs i \<le> unat x" "unat x < payload_addr bs i + bsize (bs ! i)"
  shows "\<not> in_header bs x"
proof
  assume "in_header bs x"
  then obtain j where j: "j < length bs" "block_addr bs j \<le> unat x" "unat x < payload_addr bs j"
    unfolding in_header_def by blast
  consider "j < i" | "j = i" | "i < j" by linarith
  then show False
  proof cases
    case 1
    then show False using blocks_disjoint [OF 1 assms(1)] j assms by (simp add: payload_addr_def)
  next
    case 2
    then show False using j assms by simp
  next
    case 3
    then show False using blocks_disjoint [OF 3 j(1)] j assms by simp
  qed
qed

lemma heap_rep_agree:
  assumes rep: "heap_rep s bs" and same: "\<And>x. in_header bs x \<Longrightarrow> m x = mem s x"
  shows "heap_rep (s\<lparr>mem := m\<rparr>) bs"
proof -
  note r = heap_repD [OF rep]
  have "blocks_at m (block_addr bs i) (drop i bs) 0" if "i \<le> length bs" for i
    using that
  proof (induction "length bs - i" arbitrary: i)
    case 0
    then show ?case by simp
  next
    case (Suc k)
    then have i: "i < length bs" by simp
    have "blocks_at (mem s) 0x180000 (take i bs @ bs ! i # drop (Suc i) bs) 0"
      using r(2) split_nth [OF i] by simp
    from blocks_at_middle [OF this]
    have hdr: "header_at (mem s) (block_addr bs i) (bs ! i)
        (if drop (Suc i) bs = [] then 0 else of_nat (block_addr bs i + 24 + bsize (bs ! i)))"
      by (simp only: block_addr_def)
    have "agree (mem s) m (block_addr bs i) (block_addr bs i + 24)"
      using same i unfolding agree_def by (metis in_header_def payload_addr_def)
    moreover have "block_addr bs i + 24 \<le> 2 ^ 64"
      using block_bounds [OF rep i] by (simp add: payload_addr_def)
    ultimately have "header_at m (block_addr bs i) (bs ! i)
        (if drop (Suc i) bs = [] then 0 else of_nat (block_addr bs i + 24 + bsize (bs ! i)))"
      using hdr header_at_agree by blast
    moreover have "block_addr bs (Suc i) = block_addr bs i + 24 + bsize (bs ! i)"
      using i by (simp add: block_addr_def take_Suc_conv_app_nth)
    moreover have "blocks_at m (block_addr bs (Suc i)) (drop (Suc i) bs) 0"
      using Suc by (intro Suc.hyps(1)) auto
    ultimately show ?case
      using i by (simp only: Cons_nth_drop_Suc [symmetric] blocks_at.simps)
  qed
  from this [of 0] r show ?thesis by (simp add: heap_rep_def block_addr_def)
qed

section \<open>Properties\<close>

lemma kmalloc_result:
  assumes "heap_rep s bs"
  shows "\<exists>p s'. kmalloc sz s = Some (p, s') \<and>
    (case (if sz = 0 then None else find_fit (unat (align_size sz)) bs) of
       None \<Rightarrow> p = 0 \<and> s' = s
     | Some i \<Rightarrow> p = of_nat (payload_addr bs i) \<and> p \<noteq> 0 \<and>
         heap_rep s' (alloc_at (unat (align_size sz)) i bs) \<and>
         only_changes (mem s) (mem s') (block_addr bs i) (payload_addr bs i + bsize (bs ! i)))"
  using assms
proof (cases rule: kmalloc_rep [where sz = sz])
  case refused
  then show ?thesis by auto
next
  case (granted i m t)
  have "(of_nat (payload_addr bs i) :: u64) \<noteq> 0"
    using find_fit_Some [OF granted(2)] payload_pointer(3) [OF assms] by simp
  with granted show ?thesis by simp
qed

text \<open>Two small heaps for the examples.\<close>

definition fresh_blocks :: "block list" where
  "fresh_blocks = [Block 0x7FFE8 True]"

definition two_blocks :: "block list" where
  "two_blocks = [Block 64 False, Block 524176 True]"

lemma heap_rep_examples:
  "heap_rep (heap_of fresh_blocks) fresh_blocks" "heap_rep (heap_of two_blocks) two_blocks"
  by (rule heap_rep_heap_of; simp add: fresh_blocks_def two_blocks_def)+

lemma live_pointers_examples:
  "live_pointers (heap_of fresh_blocks) = {}" "live_pointers (heap_of two_blocks) = {0x180018}"
  unfolding live_pointers_rep [OF heap_rep_examples(1)] live_pointers_rep [OF heap_rep_examples(2)]
  by (simp_all add: fresh_blocks_def two_blocks_def)

lemma heap_wf_examples: "heap_wf (heap_of fresh_blocks)" "heap_wf (heap_of two_blocks)"
  using heap_rep_examples by (auto simp: heap_wf_def)

text \<open>
  C5: \<open>kmalloc\<close> returns on every well-formed heap and is first fit. A request needs its number
  of bytes rounded up to a multiple of 16; one of more than SIZE_MAX - 15 bytes, where the
  rounding overflows, is taken to need 0 bytes. For a request of 0 bytes, or when no free block
  has as many bytes as needed, it returns NULL and changes nothing; otherwise it returns the
  payload of the first block that has, split when at least 40 bytes would be left over.
\<close>

theorem kmalloc_first_fit:
  fixes sz :: u64
  assumes "heap_rep s bs"
  defines "need \<equiv> if unat sz \<le> 2 ^ 64 - 16 then (unat sz + 15) div 16 * 16 else 0"
  shows "\<exists>p s'. kmalloc sz s = Some (p, s') \<and>
    (case (if sz = 0 then None else find_fit need bs) of
       None \<Rightarrow> p = 0 \<and> s' = s
     | Some i \<Rightarrow> p = of_nat (payload_addr bs i) \<and> p \<noteq> 0 \<and> heap_rep s' (alloc_at need i bs))"
proof -
  have "unat (align_size sz) = need" by (auto simp: need_def unat_align_size)
  with kmalloc_result [OF assms(1), of sz] show ?thesis by (auto split: option.splits)
qed

theorem kmalloc_first_fit_witness:
  "\<exists>s'. kmalloc 100 (heap_of two_blocks) = Some (0x180070, s') \<and>
     heap_rep s' [Block 64 False, Block 112 False, Block 524040 True]"
  using kmalloc_first_fit [OF heap_rep_examples(2), of 100]
  by (simp add: two_blocks_def payload_addr_def block_addr_def alloc_at_def carve_def)

text \<open>
  C6: \<open>kfree\<close> of a block in use returns, marks the block free and merges it with free
  neighbours on both sides, and writes no byte outside the block headers.
\<close>

theorem kfree_coalesces:
  assumes "heap_rep s bs" "i < length bs" "\<not> bfree (bs ! i)"
  shows "\<exists>s'. kfree (of_nat (payload_addr bs i)) s = Some s' \<and> heap_rep s' (free_at i bs) \<and>
    (\<forall>x. \<not> in_header bs x \<longrightarrow> mem s' x = mem s x)"
  by (rule kfree_rep [OF assms]) auto

theorem kfree_coalesces_witness:
  "\<exists>s'. kfree 0x180018 (heap_of two_blocks) = Some s' \<and> heap_rep s' [Block 0x7FFE8 True]"
  using kfree_coalesces [OF heap_rep_examples(2), of 0]
  by (auto simp: two_blocks_def payload_addr_def block_addr_def free_at_def)

text \<open>
  \<open>kfree\<close> of NULL, and of a block that is free already, changes nothing.
\<close>

lemma kfree_ignores:
  assumes "heap_rep s bs" "i < length bs" "bfree (bs ! i)"
  shows "kfree 0 s = Some s \<and> kfree (of_nat (payload_addr bs i)) s = Some s"
proof -
  have "blocks_at (mem s) 0x180000 (take i bs @ bs ! i # drop (Suc i) bs) 0"
    using heap_repD(2) [OF assms(1)] split_nth [OF assms(2)] by simp
  from blocks_at_middle [OF this] have "blk_is_free (mem s) (of_nat (block_addr bs i))"
    using assms(3) by (simp only: header_at_def block_addr_def)
  then show ?thesis
    using payload_pointer [OF assms(1,2)] by (simp add: kfree_def Let_def)
qed

lemma kfree_ignores_witness:
  "kfree 0x180070 (heap_of two_blocks) = Some (heap_of two_blocks)"
  using kfree_ignores [OF heap_rep_examples(2), of 1]
  by (simp add: two_blocks_def payload_addr_def block_addr_def)

text \<open>
  C22: Releasing what \<open>kmalloc\<close> has just returned restores the heap, block by block,
  and the number of bytes in use.
\<close>

theorem kmalloc_kfree_restores:
  assumes "heap_rep s bs" "kmalloc sz s = Some (p, s')" "p \<noteq> 0"
  shows "\<exists>s''. kfree p s' = Some s'' \<and> heap_rep s'' bs \<and> kmalloc_get_used s'' = kmalloc_get_used s"
  using assms(1)
proof (cases rule: kmalloc_rep [where sz = sz])
  case refused
  with assms show ?thesis by simp
next
  case (granted i m t)
  let ?n = "unat (align_size sz)"
  have i: "i < length bs" "bfree (bs ! i)" "?n \<le> bsize (bs ! i)"
    using find_fit_Some [OF granted(2)] by auto
  have s': "s' = s\<lparr>mem := m, total_allocated := t\<rparr>" and p: "p = of_nat (payload_addr bs i)"
    using assms(2) granted(3) by auto
  have j: "i < length (alloc_at ?n i bs)" "\<not> bfree (alloc_at ?n i bs ! i)"
    using nth_alloc_at [OF i(1), of ?n] by (auto simp: carve_facts)
  show ?thesis
  proof (rule kfree_rep [OF granted(4) j])
    fix m' t'
    assume "kfree (of_nat (payload_addr (alloc_at ?n i bs) i)) (s\<lparr>mem := m, total_allocated := t\<rparr>) =
        Some (s\<lparr>mem := m, total_allocated := t, mem := m', total_allocated := t'\<rparr>)"
      and "heap_rep (s\<lparr>mem := m, total_allocated := t, mem := m', total_allocated := t'\<rparr>)
        (free_at i (alloc_at ?n i bs))"
    moreover have "free_at i (alloc_at ?n i bs) = bs"
      by (rule free_alloc_at [OF heap_repD(5) [OF assms(1)] i])
    ultimately have ret: "kfree p s' = Some (s\<lparr>mem := m', total_allocated := t'\<rparr>)"
      and fin: "heap_rep (s\<lparr>mem := m', total_allocated := t'\<rparr>) bs"
      by (simp_all add: s' p payload_addr_alloc_at [OF i(1)])
    with heap_repD(6) [OF assms(1)] heap_repD(6) [OF fin] show ?thesis
      by (simp add: kmalloc_get_used_def)
  qed
qed

theorem kmalloc_kfree_restores_witness:
  "\<exists>p s' s''. kmalloc 100 (heap_of two_blocks) = Some (p, s') \<and> kfree p s' = Some s'' \<and>
     heap_rep s'' two_blocks"
proof -
  obtain s' where s': "kmalloc 100 (heap_of two_blocks) = Some (0x180070, s')"
    using kmalloc_result [OF heap_rep_examples(2), of 100]
    by (auto simp: two_blocks_def align_size_def payload_addr_def block_addr_def)
  show ?thesis
    using kmalloc_kfree_restores [OF heap_rep_examples(2) s'] s' by auto
qed

text \<open>
  C21: A grant writes only inside the free block it takes: the bytes of every payload
  that was in use before are unchanged.
\<close>

theorem kmalloc_keeps_payloads:
  assumes "heap_rep s bs" "kmalloc sz s = Some (p, s')" "j < length bs" "\<not> bfree (bs ! j)"
    and "payload_addr bs j \<le> unat x" "unat x < payload_addr bs j + bsize (bs ! j)"
  shows "mem s' x = mem s x"
  using assms(1)
proof (cases rule: kmalloc_rep [where sz = sz])
  case refused
  with assms show ?thesis by simp
next
  case (granted i m t)
  have i: "i < length bs" "bfree (bs ! i)" using find_fit_Some [OF granted(2)] by auto
  then have "i \<noteq> j" using assms(4) by auto
  then have "unat x < block_addr bs i \<or> payload_addr bs i + bsize (bs ! i) \<le> unat x"
    using blocks_disjoint [of i j bs] blocks_disjoint [of j i bs] i(1) assms(3,5,6)
    by (auto simp: payload_addr_def neq_iff)
  from only_changesD [OF granted(5) this] show ?thesis
    using assms(2) granted(3) by auto
qed

theorem kmalloc_keeps_payloads_witness:
  "\<exists>p s'. kmalloc 100 (heap_of two_blocks) = Some (p, s') \<and>
     mem s' 0x180020 = mem (heap_of two_blocks) 0x180020"
proof -
  obtain p s' where s': "kmalloc 100 (heap_of two_blocks) = Some (p, s')"
    using kmalloc_result [OF heap_rep_examples(2)] by blast
  show ?thesis
    using kmalloc_keeps_payloads [OF heap_rep_examples(2) s', of 0 "0x180020"] s'
    by (simp add: two_blocks_def payload_addr_def block_addr_def)
qed

text \<open>
  C7: In any sequence of requests and releases by a client that releases only what it
  holds, the heap stays well formed, no operation runs forever, a pointer that is granted is one the client does not
  hold, and what the heap has handed out is exactly what the client holds.
\<close>

theorem heap_grants_fresh:
  assumes "client_reach kmalloc kfree s0 (s, H)" "heap_wf s0" "live_pointers s0 = {}"
  shows "heap_wf s \<and> live_pointers s = H \<and> (\<forall>q \<in> H. \<exists>s'. kfree q s = Some s') \<and>
    (\<exists>p s'. kmalloc sz s = Some (p, s') \<and> (p \<noteq> 0 \<longrightarrow> p \<notin> H))"
proof -
  note exact = heap.reach_exact [OF assms, simplified]
  note stuck = heap.never_stuck [OF assms]
  then obtain p s' where "kmalloc sz s = Some (p, s')" by blast
  moreover then have "p \<noteq> 0 \<longrightarrow> p \<notin> H" using heap.grant_is_fresh [OF assms] by blast
  ultimately show ?thesis using exact stuck by blast
qed

theorem heap_grants_fresh_witness:
  "\<exists>s' p. kmalloc 64 (heap_of fresh_blocks) = Some (0x180018, s') \<and> live_pointers s' = {0x180018} \<and>
     kmalloc 64 s' = Some p \<and> fst p \<noteq> 0x180018"
proof -
  obtain s' where s': "kmalloc 64 (heap_of fresh_blocks) = Some (0x180018, s')"
    using kmalloc_result [OF heap_rep_examples(1), of 64]
    by (auto simp: fresh_blocks_def align_size_def payload_addr_def block_addr_def)
  then have "client_step kmalloc kfree (heap_of fresh_blocks, {}) (s', {0x180018})"
    by (intro client_step.granted) simp_all
  then have "client_reach kmalloc kfree (heap_of fresh_blocks) (s', {0x180018})"
    by (rule client_reach.step [OF client_reach.start])
  from heap_grants_fresh [OF this heap_wf_examples(1) live_pointers_examples(1), of 64] s'
  show ?thesis by fastforce
qed

lemma live_block:
  assumes "heap_rep s bs" "p \<in> live_pointers s"
  obtains i where "i < length bs" "\<not> bfree (bs ! i)" "p = of_nat (payload_addr bs i)"
    "unat p = payload_addr bs i" "unat (blk_size (mem s) (p - BLOCK_HEADER_SIZE)) = bsize (bs ! i)"
proof -
  obtain i where i: "i < length bs" "\<not> bfree (bs ! i)" "p = of_nat (payload_addr bs i)"
    by (rule live_pointer_index [OF assms])
  have "blocks_at (mem s) 0x180000 (take i bs @ bs ! i # drop (Suc i) bs) 0"
    using heap_repD(2) [OF assms(1)] split_nth [OF i(1)] by simp
  from blocks_at_middle [OF this] have "blk_size (mem s) (of_nat (block_addr bs i)) = of_nat (bsize (bs ! i))"
    by (simp only: header_at_def block_addr_def)
  with that [OF i] i(3) payload_pointer [OF assms(1) i(1)] block_bounds(3) [OF assms(1) i(1)]
  show thesis by simp
qed

text \<open>
  C20: The regions a client holds never overlap: each lies inside the heap's area
  0x180000..0x200000 behind its header, its length is the size its header records, and
  any two are disjoint.
\<close>

theorem heap_regions_disjoint:
  assumes "client_reach kmalloc kfree s0 (s, H)" "heap_wf s0" "live_pointers s0 = {}"
    and "p \<in> H" "q \<in> H"
  defines "end_of \<equiv> \<lambda>r. unat r + unat (blk_size (mem s) (r - BLOCK_HEADER_SIZE))"
  shows "0x180018 \<le> unat p \<and> end_of p \<le> 0x200000 \<and> (p \<noteq> q \<longrightarrow> end_of p \<le> unat q \<or> end_of q \<le> unat p)"
proof -
  have "heap_wf s" "live_pointers s = H" using heap.reach_exact [OF assms(1-3)] by simp_all
  then obtain bs where rep: "heap_rep s bs" and live: "p \<in> live_pointers s" "q \<in> live_pointers s"
    using assms(4,5) by (auto simp: heap_wf_def)
  obtain i where i: "i < length bs" "p = of_nat (payload_addr bs i)" "unat p = payload_addr bs i"
      "end_of p = payload_addr bs i + bsize (bs ! i)"
    by (rule live_block [OF rep live(1)]) (simp add: end_of_def)
  obtain j where j: "j < length bs" "q = of_nat (payload_addr bs j)" "unat q = payload_addr bs j"
      "end_of q = payload_addr bs j + bsize (bs ! j)"
    by (rule live_block [OF rep live(2)]) (simp add: end_of_def)
  show ?thesis
    using block_bounds [OF rep i(1)] blocks_disjoint [of i j bs] blocks_disjoint [of j i bs] i j
    by (cases i j rule: linorder_cases) (auto simp: payload_addr_def)
qed

theorem heap_regions_disjoint_witness:
  "\<exists>s'. kmalloc 64 (heap_of fresh_blocks) = Some (0x180018, s') \<and>
     unat (0x180018 :: u64) + unat (blk_size (mem s') 0x180000) \<le> 0x200000"
proof -
  obtain s' where s': "kmalloc 64 (heap_of fresh_blocks) = Some (0x180018, s')"
    using kmalloc_result [OF heap_rep_examples(1), of 64]
    by (auto simp: fresh_blocks_def align_size_def payload_addr_def block_addr_def)
  then have "client_step kmalloc kfree (heap_of fresh_blocks, {}) (s', {0x180018})"
    by (intro client_step.granted) simp_all
  then have "client_reach kmalloc kfree (heap_of fresh_blocks) (s', {0x180018})"
    by (rule client_reach.step [OF client_reach.start])
  from heap_regions_disjoint [OF this heap_wf_examples(1) live_pointers_examples(1), of "0x180018" "0x180018"] s'
  show ?thesis by (simp add: BLOCK_HEADER_SIZE_def)
qed

text \<open>
  A client that writes inside the payload of a block it holds leaves the heap's
  structure as it is.
\<close>

lemma client_write_keeps_heap:
  assumes "heap_rep s bs" "i < length bs"
    and "payload_addr bs i \<le> unat x" "unat x < payload_addr bs i + bsize (bs ! i)"
  shows "heap_rep (s\<lparr>mem := (mem s)(x := v)\<rparr>) bs"
  using payload_not_in_header [OF assms(2-4)]
  by (intro heap_rep_agree [OF assms(1)]) (auto simp: fun_upd_def)

lemma client_write_keeps_heap_witness:
  "heap_rep ((heap_of two_blocks)\<lparr>mem := (mem (heap_of two_blocks))(0x180018 := 0xFF)\<rparr>) two_blocks"
  by (rule client_write_keeps_heap [OF heap_rep_examples(2), of 0])
    (simp_all add: two_blocks_def payload_addr_def block_addr_def)

text \<open>
  C39: \<open>kmalloc_get_used\<close> and \<open>kmalloc_get_free\<close> report the payload bytes of the blocks in
  use and of the free blocks; with 24 bytes of header per block they add up to the
  whole area.
\<close>

theorem heap_accounting:
  assumes "heap_rep s bs"
  shows "\<exists>free. kmalloc_get_free s = Some free \<and>
    unat (kmalloc_get_used s) + unat free + 24 * length bs = 0x80000 \<and>
    unat free = (\<Sum>b \<leftarrow> bs. if bfree b then bsize b else 0)"
proof -
  have total: "24 * length bs + used_bytes bs + free_bytes bs = 0x80000"
    using heap_repD(3) [OF assms] span_bytes [of bs] by simp
  then have "unat (of_nat (used_bytes bs) :: u64) = used_bytes bs"
    "unat (of_nat (free_bytes bs) :: u64) = free_bytes bs" by simp_all
  with total show ?thesis
    using kmalloc_get_free_rep [OF assms] heap_repD(6) [OF assms]
    by (simp add: kmalloc_get_used_def free_bytes_def)
qed

theorem heap_accounting_witness:
  "\<exists>free. kmalloc_get_free (heap_of two_blocks) = Some free \<and> unat free = 524176 \<and>
     unat (kmalloc_get_used (heap_of two_blocks)) = 64"
  using heap_accounting [OF heap_rep_examples(2)] by (auto simp: two_blocks_def)

text \<open>
  \<open>kmalloc_init\<close> with a live UART returns: the heap is one free block of 524264
  bytes, nothing but the header at 0x180000 is written and the message is sent.
\<close>

lemma kmalloc_init_heap:
  assumes "uart_live s" "total_allocated s = 0"
  shows "\<exists>s'. kmalloc_init s = Some s' \<and> heap_rep s' [Block 524264 True] \<and>
    only_changes (mem s) (mem s') 0x180000 0x180018 \<and>
    ports s' = ports s @ map (Pair COM1_DATA) (crlf (content heap_message))"
  by (rule kmalloc_init_result [OF assms]) (auto simp: sends_def)

lemma kmalloc_init_heap_witness:
  "\<exists>s'. kmalloc_init blank_machine = Some s' \<and> heap_rep s' [Block 524264 True]"
  using kmalloc_init_heap [OF uart_live_blank] by (auto simp: blank_machine_def)

text \<open>
  A request of more than \<open>SIZE_MAX - 15\<close> bytes wraps to 0 when it is rounded up: on a heap
  that starts with a free block of 40 bytes or more \<open>kmalloc\<close> does not refuse it but
  returns a block whose payload has no byte.
\<close>

lemma kmalloc_wraps:
  assumes "heap_rep s (Block n True # bs)" "40 \<le> n" "0xFFFFFFFFFFFFFFF1 \<le> sz"
  shows "\<exists>s'. kmalloc sz s = Some (0x180018, s') \<and>
    heap_rep s' (Block 0 False # Block (n - 24) True # bs)"
proof -
  have "sz + 15 = sz - 0xFFFFFFFFFFFFFFF1" by simp
  also have "unat (sz - 0xFFFFFFFFFFFFFFF1) = unat sz - 0xFFFFFFFFFFFFFFF1"
    using unat_sub_no_wrap [OF assms(3)] by simp
  finally have "unat (sz + 15) = unat sz - 0xFFFFFFFFFFFFFFF1" .
  moreover have "unat sz < 2 ^ 4 + 18446744073709551601"
    by (rule less_trans [OF unat_lt_2p64]) simp
  then have "unat sz - 18446744073709551601 < 2 ^ 4" by (rule less_diff_conv2 [THEN iffD2, rotated])
    (use assms(3) in \<open>simp add: word_le_nat_alt\<close>)
  ultimately have "unat (sz + 15) < 2 ^ 4" by simp
  then have "take_bit 4 (unat (sz + 15)) = unat (sz + 15)" by (rule take_bit_nat_eq_self)
  then have "take_bit 4 (sz + 15) = sz + 15" by (metis unsigned_take_bit_eq unsigned_word_eqI)
  then have low: "bit (sz + 15) n \<Longrightarrow> n < 4" for n by (metis bit_take_bit_iff)
  have mask: "(15 :: u64) = mask 4" by (simp add: mask_eq_exp_minus_1)
  have "align_size sz = (sz + 15) AND NOT (mask 4)" by (simp only: align_size_def flip: mask)
  also have "\<dots> = 0" by (rule and_not_mask_low [OF low])
  finally have "align_size sz = 0" .
  moreover have "sz \<noteq> 0" using assms(3) by auto
  ultimately show ?thesis
    using kmalloc_result [OF assms(1), of sz] assms(2)
    by (auto simp: payload_addr_def block_addr_def alloc_at_def carve_def)
qed

lemma kmalloc_wraps_witness:
  "\<exists>s'. kmalloc 0xFFFFFFFFFFFFFFFF (heap_of fresh_blocks) = Some (0x180018, s') \<and>
     heap_rep s' [Block 0 False, Block 524240 True]"
  using kmalloc_wraps [OF heap_rep_examples(1) [unfolded fresh_blocks_def], of "0xFFFFFFFFFFFFFFFF"]
  by (simp add: fresh_blocks_def)

text \<open>
  Every pointer \<open>kmalloc\<close> returns is a multiple of 8.
\<close>

lemma kmalloc_aligned:
  assumes "heap_wf s" "kmalloc sz s = Some (p, s')"
  shows "unat p mod 8 = 0"
proof -
  obtain bs where rep: "heap_rep s bs" using assms(1) by (auto simp: heap_wf_def)
  then show ?thesis
  proof (cases rule: kmalloc_rep [where sz = sz])
    case refused
    with assms(2) show ?thesis by simp
  next
    case (granted i m t)
    then have "p = of_nat (payload_addr bs i)" "i < length bs"
      using assms(2) find_fit_Some [OF granted(2)] by auto
    then show ?thesis
      using payload_addr_mod_8 [OF rep] payload_pointer(1) [OF rep] by simp
  qed
qed

lemma kmalloc_aligned_witness:
  "\<exists>p s'. kmalloc 64 (heap_of fresh_blocks) = Some (p, s') \<and> unat p mod 8 = 0 \<and> unat p mod 16 = 8"
proof -
  obtain s' where s': "kmalloc 64 (heap_of fresh_blocks) = Some (0x180018, s')"
    using kmalloc_result [OF heap_rep_examples(1), of 64]
    by (auto simp: fresh_blocks_def align_size_def payload_addr_def block_addr_def)
  with kmalloc_aligned [OF heap_wf_examples(1) s'] show ?thesis by simp
qed

end
