(* ===== verification/KMain.thy ===== *)
theory KMain
  imports Kmalloc
begin

text \<open>
  The kernel's entry, \<open>kernel/kernel.c\<close>: the decimal printer \<open>uint64_to_string\<close> on
  its two character arrays, and \<open>kMain\<close>, which brings up the serial line, the
  console and the three memory managers, exercises them and reports. The lemmas
  give every phase as what it prints and the state it leaves; together they say
  what the kernel does from its entry to the final \<open>hlt\<close> loop.
\<close>

section \<open>Decimal output\<close>

text \<open>\<open>a[i]\<close> for an index of type \<open>int\<close>; an access outside the array has no result.\<close>

definition put_at :: "u8 list \<Rightarrow> int \<Rightarrow> u8 \<Rightarrow> u8 list option" where
  "put_at a i v = (if 0 \<le> i \<and> i < int (length a) then Some (a[nat i := v]) else None)"

definition get_at :: "u8 list \<Rightarrow> int \<Rightarrow> u8 option" where
  "get_at a i = (if 0 \<le> i \<and> i < int (length a) then Some (a ! nat i) else None)"

text \<open>The first loop stores the digits from the least significant one on.\<close>

function digits_loop :: "u64 \<Rightarrow> int \<Rightarrow> u8 list \<Rightarrow> (int \<times> u8 list) option" where
  "digits_loop v i temp =
     (if v > 0
      then do {
        temp \<leftarrow> put_at temp i (ucast (0x30 + v mod 10));
        digits_loop (v div 10) (i + 1) temp
      }
      else Some (i, temp))"
  by pat_completeness auto
termination
  by (relation "measure (\<lambda>(v, i, temp). unat v)")
    (auto simp: unat_div word_less_nat_alt intro!: div_less_dividend)

declare digits_loop.simps [simp del]

text \<open>The second loop copies them back in reverse.\<close>

function copy_loop :: "int \<Rightarrow> int \<Rightarrow> u8 list \<Rightarrow> u8 list \<Rightarrow> (int \<times> u8 list) option" where
  "copy_loop i j temp buffer =
     (if i > 0
      then do {
        c \<leftarrow> get_at temp (i - 1);
        buffer \<leftarrow> put_at buffer j c;
        copy_loop (i - 1) (j + 1) temp buffer
      }
      else Some (j, buffer))"
  by pat_completeness auto
termination
  by (relation "measure (\<lambda>(i, j, temp, buffer). nat i)") auto

declare copy_loop.simps [simp del]

text \<open>\<open>temp\<close> is the uninitialised local array.\<close>

definition uint64_to_string :: "u8 list \<Rightarrow> u64 \<Rightarrow> u8 list \<Rightarrow> u8 list option" where
  "uint64_to_string temp value buffer =
     (if value = 0
      then do {
        buffer \<leftarrow> put_at buffer 0 (of_char CHR ''0'');
        put_at buffer 1 0
      }
      else do {
        (i, temp) \<leftarrow> digits_loop value 0 temp;
        (j, buffer) \<leftarrow> copy_loop i 0 temp buffer;
        put_at buffer j 0
      })"

section \<open>The digits\<close>

fun rdigits :: "nat \<Rightarrow> u8 list" where
  "rdigits n = (if n = 0 then [] else of_nat (0x30 + n mod 10) # rdigits (n div 10))"

declare rdigits.simps [simp del]

lemma rdigits_0 [simp]: "rdigits 0 = []"
  by (simp add: rdigits.simps)

lemma rdigits_pos: "0 < n \<Longrightarrow> rdigits n = of_nat (0x30 + n mod 10) # rdigits (n div 10)"
  by (subst rdigits.simps) simp

lemma length_rdigits: "n < 10 ^ k \<Longrightarrow> length (rdigits n) \<le> k"
proof (induction k arbitrary: n)
  case (Suc k)
  show ?case
  proof (cases "n = 0")
    case False
    have "n div 10 < 10 ^ k" using Suc.prems by (simp add: less_mult_imp_div_less)
    from Suc.IH [OF this] False show ?thesis by (simp add: rdigits_pos)
  qed simp
qed simp

lemma length_rdigits_u64: "length (rdigits (unat (v :: u64))) \<le> 20"
  by (rule length_rdigits) (rule less_trans [OF unat_lt_2p64], simp)

lemma digit_u8: "d < 10 \<Longrightarrow> unat (of_nat (0x30 + d) :: u8) = 0x30 + d"
  by (simp add: unat_of_nat take_bit_nat_eq_self del: of_nat_add)

lemma rdigits_range: "c \<in> set (rdigits n) \<Longrightarrow> 0x30 \<le> unat c \<and> unat c \<le> 0x39"
proof (induction n rule: rdigits.induct)
  case (1 n)
  show ?case
  proof (cases "n = 0")
    case False
    have "n mod 10 < 10" by simp
    then show ?thesis
      using 1 False digit_u8 [of "n mod 10"] by (auto simp: rdigits_pos simp del: of_nat_add)
  qed (use 1 in simp)
qed

text \<open>Reading a list of digit characters as a number.\<close>

definition decimal_value :: "u8 list \<Rightarrow> nat" where
  "decimal_value cs = foldl (\<lambda>a c. 10 * a + (unat c - 0x30)) 0 cs"

lemma decimal_value_rdigits: "decimal_value (rev (rdigits n)) = n"
proof (induction n rule: rdigits.induct)
  case (1 n)
  show ?case
  proof (cases "n = 0")
    case False
    have "n mod 10 < 10" by simp
    then have "unat (of_nat (0x30 + n mod 10) :: u8) - 0x30 = n mod 10" by (simp only: digit_u8)
    then show ?thesis
      using 1 False by (simp add: rdigits_pos decimal_value_def del: of_nat_add)
  qed (simp add: decimal_value_def)
qed

lemma last_rdigits: "0 < n \<Longrightarrow> last (rdigits n) \<noteq> 0x30"
proof (induction n rule: rdigits.induct)
  case (1 n)
  show ?case
  proof (cases "n div 10 = 0")
    case True
    then have d: "0 < n" "n < 10" using 1(2) by auto
    have "unat (of_nat (0x30 + n mod 10) :: u8) \<noteq> unat (0x30 :: u8)" using d by (subst digit_u8) auto
    then have "(of_nat (0x30 + n mod 10) :: u8) \<noteq> 0x30" by metis
    with True 1(2) show ?thesis by (simp add: rdigits_pos del: of_nat_add)
  next
    case False
    then have "rdigits (n div 10) \<noteq> []" by (simp add: rdigits_pos)
    with 1 False show ?thesis by (simp add: rdigits_pos del: of_nat_add)
  qed
qed

lemma digits_loop_result:
  "k + length (rdigits (unat v)) \<le> length temp \<Longrightarrow>
   digits_loop v (int k) temp = Some (int (k + length (rdigits (unat v))),
     take k temp @ rdigits (unat v) @ drop (k + length (rdigits (unat v))) temp)"
proof (induction "unat v" arbitrary: v k temp rule: less_induct)
  case less
  show ?case
  proof (cases "v = 0")
    case True
    then show ?thesis by (simp add: digits_loop.simps)
  next
    case False
    then have pos: "0 < v" "0 < unat v" by (simp_all add: word_gt_0 unat_gt_0)
    let ?d = "of_nat (0x30 + unat v mod 10) :: u8"
    have digit: "(ucast (0x30 + v mod 10) :: u8) = ?d"
    proof -
      have "unat (0x30 + v mod 10) = 0x30 + unat v mod 10"
        by (subst unat_add_no_wrap) (simp_all add: unat_mod)
      moreover have "(ucast (0x30 + v mod 10) :: u8) = of_nat (unat (0x30 + v mod 10))"
        by (simp only: of_nat_unat)
      ultimately show ?thesis by (simp only:)
    qed
    have rd: "rdigits (unat v) = ?d # rdigits (unat (v div 10))"
      using rdigits_pos [OF pos(2)] by (simp add: unat_div)
    have k: "k < length temp" using less.prems rd by simp
    have "digits_loop v (int k) temp = digits_loop (v div 10) (int (Suc k)) (temp[k := ?d])"
      using pos(1) k by (subst digits_loop.simps) (simp add: put_at_def digit add.commute)
    also have "\<dots> = Some (int (Suc k + length (rdigits (unat (v div 10)))),
        take (Suc k) (temp[k := ?d]) @ rdigits (unat (v div 10)) @
        drop (Suc k + length (rdigits (unat (v div 10)))) (temp[k := ?d]))"
      by (rule less.hyps) (use pos less.prems rd in \<open>simp_all add: unat_div\<close>)
    finally show ?thesis
      using k by (simp add: rd take_Suc_conv_app_nth)
  qed
qed

lemma copy_loop_result:
  "n \<le> length temp \<Longrightarrow> k + n \<le> length buffer \<Longrightarrow>
   copy_loop (int n) (int k) temp buffer =
     Some (int (k + n), take k buffer @ rev (take n temp) @ drop (k + n) buffer)"
proof (induction n arbitrary: k buffer)
  case 0
  then show ?case by (simp add: copy_loop.simps)
next
  case (Suc n)
  let ?b = "buffer[k := temp ! n]"
  have "copy_loop (int (Suc n)) (int k) temp buffer = copy_loop (int n) (int (Suc k)) temp ?b"
    using Suc.prems by (subst copy_loop.simps) (simp add: get_at_def put_at_def add.commute)
  also have "\<dots> = Some (int (Suc k + n), take (Suc k) ?b @ rev (take n temp) @ drop (Suc k + n) ?b)"
    by (rule Suc.IH) (use Suc.prems in auto)
  finally show ?case
    using Suc.prems by (simp add: take_Suc_conv_app_nth)
qed

text \<open>The decimal numeral of a value: 0, or the digits with the most significant one first.\<close>

definition numeral_of :: "u64 \<Rightarrow> u8 list" where
  "numeral_of v = (if v = 0 then [0x30] else rev (rdigits (unat v)))"

lemma numeral_of_nonzero: "c \<in> set (numeral_of v) \<Longrightarrow> c \<noteq> 0"
  using rdigits_range [of c "unat v"] by (auto simp: numeral_of_def split: if_splits)

lemma length_numeral_of: "length (numeral_of v) \<le> 20"
  using length_rdigits_u64 [of v] by (simp add: numeral_of_def)

lemma uint64_to_string_result:
  assumes "length temp = 32" "length buffer = 32"
  shows "\<exists>rest. uint64_to_string temp v buffer = Some (numeral_of v @ 0 # rest) \<and> length (numeral_of v @ 0 # rest) = 32"
proof (cases "v = 0")
  case True
  obtain a b rest where "buffer = a # b # rest"
    using assms(2) by (cases buffer; cases "tl buffer") auto
  with True assms show ?thesis
    by (simp add: uint64_to_string_def put_at_def numeral_of_def)
next
  case False
  let ?d = "rdigits (unat v)"
  have len: "length ?d \<le> 20" by (rule length_rdigits_u64)
  have one: "digits_loop v 0 temp = Some (int (length ?d), ?d @ drop (length ?d) temp)"
    using digits_loop_result [of 0 v temp] len assms(1) by simp
  have two: "copy_loop (int (length ?d)) 0 (?d @ drop (length ?d) temp) buffer =
      Some (int (length ?d), rev ?d @ drop (length ?d) buffer)"
    using copy_loop_result [of "length ?d" "?d @ drop (length ?d) temp" 0 buffer] len assms by simp
  have three: "put_at (rev ?d @ drop (length ?d) buffer) (int (length ?d)) 0 =
      Some (rev ?d @ 0 # drop (Suc (length ?d)) buffer)"
  proof -
    have "drop (length ?d) buffer = buffer ! length ?d # drop (Suc (length ?d)) buffer"
      using len assms(2) by (simp add: Cons_nth_drop_Suc)
    then show ?thesis using len assms(2) by (simp add: put_at_def list_update_append)
  qed
  show ?thesis
    using False len assms(2) by (simp add: uint64_to_string_def one two three numeral_of_def)
qed

lemma content_numeral: "content (numeral_of v @ 0 # rest) = numeral_of v"
proof -
  have "takeWhile (\<lambda>c. c \<noteq> 0) (xs @ 0 # rest) = xs" if "\<forall>c \<in> set xs. c \<noteq> 0" for xs :: "u8 list"
    using that by (induction xs) auto
  then show ?thesis using numeral_of_nonzero by (simp add: content_def)
qed

section \<open>The kernel's entry\<close>

text \<open>
  \<open>kMain\<close> phase by phase, in the order of the source; \<open>say\<close> is a call of
  \<open>serial_writestring\<close> with a literal. The loop of \<open>hlt\<close> instructions at the end does
  not return: the result is the state in which the kernel halts.
\<close>

abbreviation nl :: string where "nl \<equiv> [CHR 0x0A]"

definition say :: "string \<Rightarrow> 'a machine_scheme \<Rightarrow> 'a machine_scheme option" where
  "say t = serial_writestring (cstr t)"

definition kmain_banner :: "'a heap_scheme \<Rightarrow> 'a heap_scheme option" where
  "kmain_banner s = do {
     s \<leftarrow> serial_init s;
     s \<leftarrow> say (nl @ nl @ ''=== IncroOS Kernel Starting ==='' @ nl) s;
     let s = terminal_initialize s;
     s \<leftarrow> say (''==========================================='' @ nl) s;
     s \<leftarrow> say (''  IncroOS - Kernel Starting'' @ nl) s;
     s \<leftarrow> say (''==========================================='' @ nl) s;
     s \<leftarrow> terminal_writestring (cstr (''Hello, 64-bit kernel World!'' @ nl)) s;
     say (nl @ ''[INIT] Initializing Memory Subsystem...'' @ nl) s
   }"

text \<open>One report: a number turned into text in the local buffer, between two labels.\<close>

definition report :: "u8 list \<Rightarrow> string \<Rightarrow> string \<Rightarrow> u64 \<Rightarrow> u8 list \<times> 'a heap_scheme \<Rightarrow>
    (u8 list \<times> 'a heap_scheme) option" where
  "report temp before after v bs = do {
     let (buffer, s) = bs;
     buffer \<leftarrow> uint64_to_string temp v buffer;
     s \<leftarrow> say before s;
     s \<leftarrow> serial_writestring buffer s;
     s \<leftarrow> say after s;
     Some (buffer, s)
   }"

text \<open>\<open>junk n\<close> is what the stack holds when \<open>uint64_to_string\<close> is called the \<open>n\<close>-th time.\<close>

definition kmain_pages :: "(nat \<Rightarrow> u8 list) \<Rightarrow> u8 list \<Rightarrow> 'a heap_scheme \<Rightarrow>
    (u8 list \<times> 'a heap_scheme) option" where
  "kmain_pages junk buffer s = do {
     let total_memory = 4 * 1024 * 1024 * 1024;
     s \<leftarrow> pmm_init total_memory s;
     (buffer, s) \<leftarrow> report (junk 0) ''[PMM] Total pages: '' nl (pmm_get_total_pages s) (buffer, s);
     (buffer, s) \<leftarrow> report (junk 1) ''[PMM] Free pages: '' nl (pmm_get_free_pages s) (buffer, s);
     report (junk 2) ''[PMM] Used pages: '' nl (pmm_get_used_pages s) (buffer, s)
   }"

definition kmain_managers :: "'a heap_scheme \<Rightarrow> 'a heap_scheme option" where
  "kmain_managers s = do {
     s \<leftarrow> vmm_init s;
     s \<leftarrow> kmalloc_init s;
     s \<leftarrow> say (nl @ ''[INIT] Memory Subsystem Initialized Successfully'' @ nl) s;
     say (nl @ ''[TEST] Testing Memory Allocation...'' @ nl) s
   }"

text \<open>The test of \<open>kmalloc\<close> and \<open>kfree\<close>, which the source has twice, with its three messages.\<close>

definition kmain_test_heap :: "u64 \<Rightarrow> string \<Rightarrow> string \<Rightarrow> string \<Rightarrow> 'a heap_scheme \<Rightarrow> 'a heap_scheme option" where
  "kmain_test_heap sz ok freed failed s = do {
     (ptr, s) \<leftarrow> kmalloc sz s;
     if ptr \<noteq> 0
     then do {
       s \<leftarrow> say ok s;
       s \<leftarrow> kfree ptr s;
       say freed s
     }
     else say failed s
   }"

text \<open>The hexadecimal loop: \<open>for (int i = 60; i >= 0; i -= 4)\<close>.\<close>

definition hex_char :: "u8 \<Rightarrow> u8" where
  "hex_char nibble = (if nibble < 10 then of_char CHR ''0'' + nibble else of_char CHR ''A'' + (nibble - 10))"

function hex_loop :: "int \<Rightarrow> u64 \<Rightarrow> 'a machine_scheme \<Rightarrow> 'a machine_scheme option" where
  "hex_loop i page s =
     (if i \<ge> 0
      then do {
        let nibble = ucast (drop_bit (nat i) page AND 0xF);
        s \<leftarrow> serial_writestring [hex_char nibble, 0] s;
        hex_loop (i - 4) page s
      }
      else Some s)"
  by pat_completeness auto
termination
  by (relation "measure (\<lambda>(i, page, s). nat (i + 4))") auto

declare hex_loop.simps [simp del]

definition kmain_test_page :: "'a heap_scheme \<Rightarrow> 'a heap_scheme option" where
  "kmain_test_page s = do {
     let (page, s) = pmm_alloc_page s;
     if page \<noteq> 0
     then do {
       s \<leftarrow> say ''[TEST] pmm_alloc_page() succeeded, page at: 0x'' s;
       s \<leftarrow> hex_loop 60 page s;
       s \<leftarrow> say nl s;
       let s = pmm_free_page page s;
       say (''[TEST] pmm_free_page() succeeded'' @ nl) s
     }
     else say (''[TEST] pmm_alloc_page() failed'' @ nl) s
   }"

definition kmain_report_heap :: "(nat \<Rightarrow> u8 list) \<Rightarrow> u8 list \<Rightarrow> 'a heap_scheme \<Rightarrow> 'a heap_scheme option" where
  "kmain_report_heap junk buffer s = do {
     (buffer, s) \<leftarrow> report (junk 3) (nl @ ''[HEAP] Used memory: '') ('' bytes'' @ nl) (kmalloc_get_used s) (buffer, s);
     free \<leftarrow> kmalloc_get_free s;
     (buffer, s) \<leftarrow> report (junk 4) ''[HEAP] Free memory: '' ('' bytes'' @ nl) free (buffer, s);
     Some s
   }"

definition kmain_closing :: "'a heap_scheme \<Rightarrow> 'a heap_scheme option" where
  "kmain_closing s = do {
     s \<leftarrow> say (nl @ ''==========================================='' @ nl) s;
     s \<leftarrow> say (''  Memory Manager Tests Complete'' @ nl) s;
     s \<leftarrow> say (''==========================================='' @ nl) s;
     terminal_writestring (cstr (''Memory Manager Initialized!'' @ nl)) s
   }"

definition kMain :: "(nat \<Rightarrow> u8 list) \<Rightarrow> u8 list \<Rightarrow> 'a heap_scheme \<Rightarrow> 'a heap_scheme option" where
  "kMain junk buffer s = do {
     s \<leftarrow> kmain_banner s;
     (buffer, s) \<leftarrow> kmain_pages junk buffer s;
     s \<leftarrow> kmain_managers s;
     s \<leftarrow> kmain_test_heap 64 (''[TEST] kmalloc(64) succeeded'' @ nl) (''[TEST] kfree(64) succeeded'' @ nl)
       (''[TEST] kmalloc(64) failed'' @ nl) s;
     s \<leftarrow> kmain_test_heap 1024 (''[TEST] kmalloc(1024) succeeded'' @ nl) (''[TEST] kfree(1024) succeeded'' @ nl)
       (''[TEST] kmalloc(1024) failed'' @ nl) s;
     s \<leftarrow> kmain_test_page s;
     s \<leftarrow> kmain_report_heap junk buffer s;
     kmain_closing s
   }"

section \<open>What a phase prints and leaves\<close>

text \<open>
  \<open>prints f t P Q\<close>: from a state with \<open>P\<close> the phase \<open>f\<close> returns, has sent the text \<open>t\<close> (each
  line feed with its carriage return) and leaves a state with \<open>Q\<close>.
\<close>

definition prints :: "('a machine_scheme \<Rightarrow> 'a machine_scheme option) \<Rightarrow> u8 list \<Rightarrow>
    ('a machine_scheme \<Rightarrow> bool) \<Rightarrow> ('a machine_scheme \<Rightarrow> bool) \<Rightarrow> bool" where
  "prints f t P Q \<longleftrightarrow> (\<forall>s. P s \<longrightarrow>
     (\<exists>s'. f s = Some s' \<and> ports s' = ports s @ map (Pair COM1_DATA) (crlf t) \<and> Q s'))"

lemma prints_bind:
  "prints f t P Q \<Longrightarrow> prints g u Q R \<Longrightarrow> prints (\<lambda>s. Option.bind (f s) g) (t @ u) P R"
  unfolding prints_def by (fastforce simp: crlf_append)

lemma printsD:
  assumes "prints f t P Q" "P s"
  obtains s' where "f s = Some s'" "ports s' = ports s @ map (Pair COM1_DATA) (crlf t)" "Q s'"
  using assms unfolding prints_def by blast

text \<open>A condition that the driver cannot disturb and that has a live UART.\<close>

definition steady :: "('a machine_scheme \<Rightarrow> bool) \<Rightarrow> bool" where
  "steady P \<longleftrightarrow> (\<forall>s. P s \<longrightarrow> uart_live s) \<and> (\<forall>s s' bs. P s \<longrightarrow> sends bs s s' \<longrightarrow> P s')"

definition chars :: "string \<Rightarrow> u8 list" where
  "chars t = map of_char t"

lemma chars_append [simp]: "chars (s @ t) = chars s @ chars t"
  by (simp add: chars_def)

lemma prints_string:
  assumes "steady P" "terminated str"
  shows "prints (serial_writestring str) (content str) P P"
  unfolding prints_def
proof (intro allI impI)
  fix s :: "'a machine_scheme" assume P: "P s"
  with assms(1) have "uart_live s" by (simp add: steady_def)
  from serial_writestring_sends [OF this assms(2)]
  obtain s' where "serial_writestring str s = Some s'" "sends (crlf (content str)) s s'" by blast
  then show "\<exists>s'. serial_writestring str s = Some s' \<and>
      ports s' = ports s @ map (Pair COM1_DATA) (crlf (content str)) \<and> P s'"
    using assms(1) P by (auto simp: steady_def sends_ports)
qed

lemma prints_say:
  assumes "steady P" "CHR 0x00 \<notin> set t" "length t < 1000"
  shows "prints (say t) (chars t) P P"
proof -
  have "terminated (cstr t)" using assms(3) by (intro terminated_cstr) simp
  from prints_string [OF assms(1) this] show ?thesis
    by (simp add: say_def content_cstr [OF assms(2)] chars_def)
qed

text \<open>The report of a number.\<close>

lemma report_prints:
  assumes P: "steady P" and s: "P s" and len: "length temp = 32" "length buffer = 32"
    and lits: "CHR 0x00 \<notin> set before" "length before < 1000" "CHR 0x00 \<notin> set after" "length after < 1000"
  shows "\<exists>buffer' s'. report temp before after v (buffer, s) = Some (buffer', s') \<and> length buffer' = 32 \<and>
    ports s' = ports s @ map (Pair COM1_DATA) (crlf (chars before @ numeral_of v @ chars after)) \<and> P s'"
proof -
  obtain rest where b: "uint64_to_string temp v buffer = Some (numeral_of v @ 0 # rest)"
      "length (numeral_of v @ 0 # rest) = 32"
    using uint64_to_string_result [OF len] by blast
  have "terminated (numeral_of v @ 0 # rest)" using b(2) by (simp add: terminated_def)
  note num = prints_string [OF P this, unfolded content_numeral]
  have "prints (\<lambda>s. Option.bind (say before s) (\<lambda>s. Option.bind (serial_writestring (numeral_of v @ 0 # rest) s) (say after)))
      (chars before @ numeral_of v @ chars after) P P"
    by (intro prints_bind [where Q = P] prints_say [OF P] num lits)
  from printsD [OF this s] obtain s' where s': "Option.bind (say before s)
      (\<lambda>s. Option.bind (serial_writestring (numeral_of v @ 0 # rest) s) (say after)) = Some s'"
    "ports s' = ports s @ map (Pair COM1_DATA) (crlf (chars before @ numeral_of v @ chars after))" "P s'" .
  have "report temp before after v (buffer, s) = Some (numeral_of v @ 0 # rest, s')"
    using s'(1) b(1) by (auto simp: report_def split: Option.bind_splits)
  with b(2) s'(2,3) show ?thesis by blast
qed

section \<open>The states between the phases\<close>

text \<open>The console shows the text \<open>t\<close> from its first cell on, and blanks.\<close>

definition shown :: "u8 list \<Rightarrow> 'a terminal_scheme \<Rightarrow> bool" where
  "shown t s \<longleftrightarrow> terminal_inv s \<and> terminal_color s = 0x07 \<and> cursor s = length t \<and>
     (\<forall>k < 2000. screen (mem s) k = vga_entry (if k < length t then t ! k else 0x20) 0x07)"

text \<open>The page allocator as \<open>pmm_init\<close> leaves it for 4 GiB.\<close>

definition pages_ready :: "'a pmm_scheme \<Rightarrow> bool" where
  "pages_ready s \<longleftrightarrow> page_bitmap s = 0x140000 \<and> total_pages s = 0x100000 \<and> used_pages s = 416 \<and>
     allocated s = {p. p < 0x180}"

text \<open>
  What the loader left below the screen buffer, its page tables among it, and the root the
  processor uses: \<open>L\<close> is that memory with that root.
\<close>

type_synonym loaded = "memory \<times> u64"

definition low_kept :: "loaded \<Rightarrow> 'a machine_scheme \<Rightarrow> bool" where
  "low_kept L s \<longleftrightarrow> agree (fst L) (mem s) 0 0xB8000 \<and> cr3 s = snd L"

lemma low_kept_frame:
  assumes "low_kept L s" "only_changes (mem s) (mem s') lo hi" "0xB8000 \<le> lo" "cr3 s' = cr3 s"
  shows "low_kept L s'"
  using assms only_changes_agree [OF assms(2), of "0xB8000" 0]
  by (auto simp: low_kept_def intro: agree_trans agree_sym)

text \<open>
  \<open>stage L t pg hp\<close>: \<open>pg\<close> says whether the pages, and \<open>hp\<close> whether the page mapper and the heap
  are initialised.
\<close>

definition stage :: "loaded \<Rightarrow> u8 list \<Rightarrow> bool \<Rightarrow> bool \<Rightarrow> 'a heap_scheme \<Rightarrow> bool" where
  "stage L t pg hp s \<longleftrightarrow> uart_live s \<and> low_kept L s \<and> shown t s \<and> (if pg then pages_ready s else used_pages s = 0) \<and>
     (if hp then pml4 s = cr3 s \<and> heap_rep s [Block 524264 True] else total_allocated s = 0)"

text \<open>What each part of a stage depends on.\<close>

lemma shown_frame:
  assumes "shown t s" "only_changes (mem s) (mem s') lo hi" "0xB8FA0 \<le> lo"
    "terminal_row s' = terminal_row s" "terminal_column s' = terminal_column s"
    "terminal_color s' = terminal_color s" "terminal_buffer s' = terminal_buffer s"
  shows "shown t s'"
proof -
  have "screen (mem s') k = screen (mem s) k" if "k < 2000" for k
    unfolding screen_def by (rule load16_frame [OF assms(2)]) (use that assms(3) in auto)
  with assms show ?thesis by (simp add: shown_def terminal_inv_def cursor_def)
qed

lemma pages_ready_frame:
  assumes "pages_ready s" "only_changes (mem s) (mem s') lo hi" "hi \<le> 0x140000 \<or> 0x160000 \<le> lo"
    "page_bitmap s' = page_bitmap s" "total_pages s' = total_pages s" "used_pages s' = used_pages s"
  shows "pages_ready s'"
proof -
  have "bitmap_end 0x100000 = 0x160000" by (simp add: bitmap_end_def)
  then have "allocated s' = allocated s"
    using assms by (intro allocated_frame [OF assms(2)]) (auto simp: pages_ready_def)
  with assms show ?thesis by (simp add: pages_ready_def)
qed

lemma steady_stage: "steady (stage L t pg hp)"
  unfolding steady_def
proof (intro conjI allI impI)
  fix s s' :: "'a heap_scheme" and bs
  assume st: "stage L t pg hp s" and "sends bs s s'"
  then obtain n p where s': "s' = s\<lparr>lsr_reads := n, ports := p\<rparr>" by (auto simp: sends_def)
  have "shown t s'" if "shown t s" by (rule shown_frame [OF that]) (auto simp: s')
  moreover have "pages_ready s'" if "pages_ready s"
    by (rule pages_ready_frame [OF that, of _ 0 0]) (auto simp: s')
  moreover have "heap_rep s' bs" if "heap_rep s bs" for bs
    by (rule heap_rep_frame [OF that, of _ 0 0]) (auto simp: s')
  ultimately show "stage L t pg hp s'" using st by (auto simp: stage_def s' uart_live_def low_kept_def)
qed (simp add: stage_def)

lemma stage_live: "stage L t pg hp s \<Longrightarrow> uart_live s"
  by (simp add: stage_def)

text \<open>Text on the console.\<close>

lemma shown_put_chars:
  assumes "shown t s" "length t + length cs < 2000"
  shows "shown (t @ cs) (put_chars cs s)"
proof -
  have inv: "terminal_inv s" and cur: "cursor s = length t" using assms(1) by (simp_all add: shown_def)
  have "screen (mem (put_chars cs s)) k = vga_entry (if k < length (t @ cs) then (t @ cs) ! k else 0x20) 0x07"
    if k: "k < 2000" for k
  proof (cases "length t \<le> k \<and> k < length t + length cs")
    case True
    then obtain i where i: "k = length t + i" "i < length cs" by (metis le_Suc_ex nat_add_left_cancel_less)
    with put_chars_screen [OF inv, of cs i] assms k show ?thesis
      by (simp add: cur shown_def nth_append)
  next
    case False
    then have "\<forall>i < length cs. k \<noteq> (cursor s + i) mod 2000"
      using assms(2) cur by auto
    from put_chars_screen_other [OF inv k this] False assms k show ?thesis
      by (auto simp: shown_def nth_append)
  qed
  with assms inv cur show ?thesis
    by (simp add: shown_def put_chars_inv put_chars_cursor)
qed

lemma prints_terminal:
  assumes "CHR 0x00 \<notin> set u" "length t + length u < 2000"
  shows "prints (terminal_writestring (cstr u)) (chars u) (stage L t pg hp) (stage L (t @ chars u) pg hp)"
  unfolding prints_def
proof (intro allI impI)
  fix s :: "'a heap_scheme" assume st: "stage L t pg hp s"
  have str: "terminated (cstr u)" "content (cstr u) = chars u"
    using assms by (simp_all add: terminated_cstr content_cstr chars_def)
  let ?s = "put_chars (chars u) s"
  obtain s' where s': "terminal_writestring (cstr u) s = Some s'" "sends (crlf (chars u)) ?s s'"
    using terminal_writestring_result [OF stage_live [OF st] str(1)] by (auto simp: str)
  obtain m r c where f: "?s = s\<lparr>mem := m, terminal_row := r, terminal_column := c\<rparr>"
    using put_chars_fields by blast
  have "terminal_inv s" using st by (simp add: stage_def shown_def)
  from put_chars_only_changes [OF this, of "chars u"]
  have chg: "only_changes (mem s) (mem ?s) 0xB8000 0xB8FA0" .
  have "shown (t @ chars u) ?s"
    by (rule shown_put_chars) (use st assms(2) in \<open>simp_all add: stage_def chars_def\<close>)
  moreover have "pages_ready ?s" if "pages_ready s"
    by (rule pages_ready_frame [OF that chg]) (simp_all add: f)
  moreover have "heap_rep ?s bs" if "heap_rep s bs" for bs
    by (rule heap_rep_frame [OF that chg]) (simp_all add: f)
  moreover have "low_kept L ?s"
    by (rule low_kept_frame [OF _ chg]) (use st in \<open>simp_all add: stage_def f\<close>)
  moreover have "uart_live ?s" "used_pages ?s = used_pages s" "total_allocated ?s = total_allocated s"
      "pml4 ?s = pml4 s" "cr3 ?s = cr3 s"
    using stage_live [OF st] by (simp_all add: f uart_live_def)
  ultimately have "stage L (t @ chars u) pg hp ?s" using st by (auto simp: stage_def)
  with steady_stage s'(2) have "stage L (t @ chars u) pg hp s'" unfolding steady_def by blast
  with s' show "\<exists>s'. terminal_writestring (cstr u) s = Some s' \<and>
      ports s' = ports s @ map (Pair COM1_DATA) (crlf (chars u)) \<and> stage L (t @ chars u) pg hp s'"
    by (auto simp: sends_ports put_chars_ports)
qed

section \<open>The phases\<close>

lemmas prints_stage = prints_say [OF steady_stage]

text \<open>The start: the variables are clear and the UART works; the console may hold anything.\<close>

definition entry_state :: "loaded \<Rightarrow> 'a heap_scheme \<Rightarrow> bool" where
  "entry_state L s \<longleftrightarrow> uart_live s \<and> low_kept L s \<and> used_pages s = 0 \<and> total_allocated s = 0"

lemma steady_entry: "steady (entry_state L)"
  by (auto simp: steady_def entry_state_def sends_def uart_live_def low_kept_def)

lemma shown_nothing: "shown [] (terminal_initialize s)"
proof -
  have "vga_entry_color VGA_COLOR_LIGHT_GREY VGA_COLOR_BLACK = 0x07" by (simp add: vga_entry_color_def)
  then show ?thesis
    using terminal_initialize_cleared [of s]
    by (auto simp: cleared_def shown_def terminal_inv_def cursor_def VGA_WIDTH_def VGA_HEIGHT_def)
qed

lemma terminal_initialize_stage:
  assumes "entry_state L s"
  shows "stage L [] False False (terminal_initialize s)" "ports (terminal_initialize s) = ports s"
proof -
  obtain m where "terminal_initialize s = s\<lparr>terminal_row := 0, terminal_column := 0,
      terminal_color := vga_entry_color VGA_COLOR_LIGHT_GREY VGA_COLOR_BLACK,
      terminal_buffer := 0xB8000, mem := m\<rparr>" and chg: "only_changes (mem s) m 0xB8000 0xB8FA0"
    using terminal_initialize_cleared [of s] unfolding cleared_def by auto
  moreover have "low_kept L (s\<lparr>mem := m\<rparr>)"
    by (rule low_kept_frame [of L s _ "0xB8000" "0xB8FA0"]) (use assms chg in \<open>simp_all add: entry_state_def\<close>)
  then have "low_kept L (s\<lparr>terminal_row := 0, terminal_column := 0, terminal_color := c, terminal_buffer := b, mem := m\<rparr>)"
    for c b by (simp add: low_kept_def)
  ultimately show "stage L [] False False (terminal_initialize s)" "ports (terminal_initialize s) = ports s"
    using assms shown_nothing [of s] by (auto simp: stage_def entry_state_def uart_live_def)
qed

definition banner_text :: string where
  "banner_text = nl @ nl @ ''=== IncroOS Kernel Starting ==='' @ nl @
     ''==========================================='' @ nl @ ''  IncroOS - Kernel Starting'' @ nl @
     ''==========================================='' @ nl @ ''Hello, 64-bit kernel World!'' @ nl @
     nl @ ''[INIT] Initializing Memory Subsystem...'' @ nl"

definition hello_text :: string where
  "hello_text = ''Hello, 64-bit kernel World!'' @ nl"

lemma kmain_banner_prints:
  assumes "entry_state L s"
  shows "\<exists>s'. kmain_banner s = Some s' \<and> stage L (chars hello_text) False False s' \<and>
    ports s' = ports s @ serial_setup @ map (Pair COM1_DATA) (crlf (chars banner_text))"
proof -
  let ?hello = "''Hello, 64-bit kernel World!'' @ nl"
  obtain r where r: "serial_init s = Some (s\<lparr>lsr_reads := r, ports := ports s @ serial_setup\<rparr>)"
    using serial_init_result assms unfolding entry_state_def by blast
  let ?s = "s\<lparr>lsr_reads := r, ports := ports s @ serial_setup\<rparr>"
  have es: "entry_state L ?s" using assms by (simp add: entry_state_def uart_live_def low_kept_def)
  have "prints (say (nl @ nl @ ''=== IncroOS Kernel Starting ==='' @ nl))
      (chars (nl @ nl @ ''=== IncroOS Kernel Starting ==='' @ nl)) (entry_state L) (entry_state L)"
    by (rule prints_say [OF steady_entry]) simp_all
  from printsD [OF this es] obtain s1 where s1: "say (nl @ nl @ ''=== IncroOS Kernel Starting ==='' @ nl) ?s = Some s1"
      "ports s1 = ports ?s @ map (Pair COM1_DATA) (crlf (chars (nl @ nl @ ''=== IncroOS Kernel Starting ==='' @ nl)))"
      "entry_state L s1" .
  note init = terminal_initialize_stage [OF s1(3)]
  have "prints (\<lambda>s. do {
      s \<leftarrow> say (''==========================================='' @ nl) s;
      s \<leftarrow> say (''  IncroOS - Kernel Starting'' @ nl) s;
      s \<leftarrow> say (''==========================================='' @ nl) s;
      s \<leftarrow> terminal_writestring (cstr ?hello) s;
      say (nl @ ''[INIT] Initializing Memory Subsystem...'' @ nl) s })
      (chars (''==========================================='' @ nl) @ chars (''  IncroOS - Kernel Starting'' @ nl) @
       chars (''==========================================='' @ nl) @ chars ?hello @
       chars (nl @ ''[INIT] Initializing Memory Subsystem...'' @ nl))
      (stage L [] False False) (stage L ([] @ chars ?hello) False False)"
    by (rule prints_bind prints_stage prints_terminal | (simp; fail))+
  from printsD [OF this init(1)] obtain s2 where s2: "do {
      s \<leftarrow> say (''==========================================='' @ nl) (terminal_initialize s1);
      s \<leftarrow> say (''  IncroOS - Kernel Starting'' @ nl) s;
      s \<leftarrow> say (''==========================================='' @ nl) s;
      s \<leftarrow> terminal_writestring (cstr ?hello) s;
      say (nl @ ''[INIT] Initializing Memory Subsystem...'' @ nl) s } = Some s2"
      "ports s2 = ports (terminal_initialize s1) @ map (Pair COM1_DATA) (crlf
       (chars (''==========================================='' @ nl) @ chars (''  IncroOS - Kernel Starting'' @ nl) @
       chars (''==========================================='' @ nl) @ chars ?hello @
       chars (nl @ ''[INIT] Initializing Memory Subsystem...'' @ nl)))"
      "stage L ([] @ chars ?hello) False False s2" .
  have "kmain_banner s = Some s2"
    unfolding kmain_banner_def r bind.simps s1(1) Let_def s2(1) ..
  moreover have "stage L (chars hello_text) False False s2" using s2(3) by (simp add: hello_text_def)
  moreover have "ports s2 = ports s @ serial_setup @ map (Pair COM1_DATA) (crlf (chars banner_text))"
  proof -
    have "ports ?s = ports s @ serial_setup" by simp
    then show ?thesis
      unfolding s2(2) init(2) s1(2) banner_text_def
      by (simp only: chars_append crlf_append map_append append_assoc)
  qed
  ultimately show ?thesis by blast
qed

text \<open>The page allocator and its three reports.\<close>

definition pages_text :: string where
  "pages_text = ''[PMM] Physical Memory Manager initialized'' @ nl @
     ''[PMM] Total pages: 1048576'' @ nl @ ''[PMM] Free pages: 1048160'' @ nl @
     ''[PMM] Used pages: 416'' @ nl"

lemma pmm_init_stage:
  assumes "stage L t False hp s"
  shows "\<exists>s'. pmm_init 0x100000000 s = Some s' \<and> stage L t True hp s' \<and>
    ports s' = ports s @ map (Pair COM1_DATA) (crlf (content init_message))"
proof (rule pmm_init_result [OF stage_live [OF assms] refl])
  let ?n = "0x100000000 div PAGE_SIZE"
  have n: "?n = 0x100000" "bitmap_pages ?n = 32" "reserved_end ?n = 0x180"
    by (simp_all add: PAGE_SIZE_def bitmap_pages_def reserved_end_def)
  then show "0x180 \<le> ?n" by simp
  fix m s1 s'
  assume r: "pmm_init 0x100000000 s = Some s'"
    "s1 = s\<lparr>mem := m, total_pages := ?n, page_bitmap := 0x140000,
            used_pages := used_pages s + (0x180 + bitmap_pages ?n)\<rparr>"
    "sends (crlf (content init_message)) s1 s'" "only_changes (mem s) m 0x140000 (bitmap_end ?n)"
    "allocated s' = {p. p < reserved_end ?n}"
  obtain k where s': "s' = s1\<lparr>lsr_reads := k, ports := ports s1 @ map (Pair COM1_DATA) (crlf (content init_message))\<rparr>"
    using r(3) by (auto simp: sends_def)
  have chg: "only_changes (mem s) (mem s') 0x140000 0x160000"
    using r(4) n(1) by (simp add: s' r(2) bitmap_end_def)
  have "shown t s'"
    by (rule shown_frame [OF _ chg]) (use assms in \<open>simp_all add: stage_def s' r(2)\<close>)
  moreover have "pages_ready s'"
    using r(5) n assms by (simp add: pages_ready_def s' r(2) stage_def)
  moreover have "heap_rep s' bs" if "heap_rep s bs" for bs
    by (rule heap_rep_frame [OF that chg]) (simp_all add: s' r(2))
  moreover have "low_kept L s'"
    by (rule low_kept_frame [OF _ chg]) (use assms in \<open>simp_all add: stage_def s' r(2)\<close>)
  ultimately have "stage L t True hp s'"
    using assms by (auto simp: stage_def s' r(2) uart_live_def)
  with r(1) show ?thesis by (auto simp: s' r(2))
qed

lemma numeral_of_examples:
  "numeral_of 1048576 = chars ''1048576''" "numeral_of 1048160 = chars ''1048160''"
  "numeral_of 416 = chars ''416''" "numeral_of 0 = chars ''0''" "numeral_of 524264 = chars ''524264''"
  by (simp_all add: numeral_of_def chars_def rdigits_pos)

lemma kmain_pages_prints:
  assumes st: "stage L t False False s" and len: "\<forall>n. length (junk n) = 32" "length buffer = 32"
  shows "\<exists>buffer' s'. kmain_pages junk buffer s = Some (buffer', s') \<and> length buffer' = 32 \<and>
    stage L t True False s' \<and> ports s' = ports s @ map (Pair COM1_DATA) (crlf (chars pages_text))"
proof -
  note rep = report_prints [OF steady_stage _ len(1) [rule_format]]
  obtain s1 where s1: "pmm_init 0x100000000 s = Some s1" "stage L t True False s1"
    "ports s1 = ports s @ map (Pair COM1_DATA) (crlf (content init_message))"
    using pmm_init_stage [OF st] by blast
  have v: "pmm_get_total_pages s = 1048576" "pmm_get_free_pages s = 1048160" "pmm_get_used_pages s = 416"
    if "stage L t True False s" for s
    using that by (simp_all add: stage_def pages_ready_def pmm_get_total_pages_def
        pmm_get_free_pages_def pmm_get_used_pages_def)
  obtain b2 s2 where s2: "report (junk 0) ''[PMM] Total pages: '' nl 1048576 (buffer, s1) = Some (b2, s2)" "length b2 = 32"
    "ports s2 = ports s1 @ map (Pair COM1_DATA) (crlf (chars ''[PMM] Total pages: '' @ numeral_of 1048576 @ chars nl))"
    "stage L t True False s2"
    using rep [OF s1(2) len(2), of "''[PMM] Total pages: ''" nl] by fastforce
  obtain b3 s3 where s3: "report (junk 1) ''[PMM] Free pages: '' nl 1048160 (b2, s2) = Some (b3, s3)" "length b3 = 32"
    "ports s3 = ports s2 @ map (Pair COM1_DATA) (crlf (chars ''[PMM] Free pages: '' @ numeral_of 1048160 @ chars nl))"
    "stage L t True False s3"
    using rep [OF s2(4,2), of "''[PMM] Free pages: ''" nl] by fastforce
  obtain b4 s4 where s4: "report (junk 2) ''[PMM] Used pages: '' nl 416 (b3, s3) = Some (b4, s4)" "length b4 = 32"
    "ports s4 = ports s3 @ map (Pair COM1_DATA) (crlf (chars ''[PMM] Used pages: '' @ numeral_of 416 @ chars nl))"
    "stage L t True False s4"
    using rep [OF s3(4,2), of "''[PMM] Used pages: ''" nl] by fastforce
  have "kmain_pages junk buffer s = Some (b4, s4)"
    using v [OF s1(2)] v [OF s2(4)] v [OF s3(4)] s4(1)
    by (simp add: kmain_pages_def s1(1) s2(1) s3(1) [unfolded One_nat_def])
  moreover have "content init_message = chars (''[PMM] Physical Memory Manager initialized'' @ nl)"
    by (simp add: init_message_def content_cstr chars_def)
  then have "ports s4 = ports s @ map (Pair COM1_DATA) (crlf (chars pages_text))"
    unfolding s4(3) s3(3) s2(3) s1(3) pages_text_def numeral_of_examples
    by (simp add: crlf_append chars_def)
  ultimately show ?thesis using s4(2,4) by blast
qed

text \<open>The virtual memory manager and the heap.\<close>

definition managers_text :: string where
  "managers_text = ''[VMM] Virtual Memory Manager initialized'' @ nl @
     ''[KMALLOC] Kernel heap allocator initialized'' @ nl @
     nl @ ''[INIT] Memory Subsystem Initialized Successfully'' @ nl @
     nl @ ''[TEST] Testing Memory Allocation...'' @ nl"

definition mapper_stage :: "loaded \<Rightarrow> u8 list \<Rightarrow> 'a heap_scheme \<Rightarrow> bool" where
  "mapper_stage L t s \<longleftrightarrow> stage L t True False s \<and> pml4 s = cr3 s"

lemma steady_mapper_stage: "steady (mapper_stage L t)"
  using steady_stage [of L t True False] unfolding steady_def mapper_stage_def sends_def by fastforce

lemma vmm_init_prints:
  "prints vmm_init (chars (''[VMM] Virtual Memory Manager initialized'' @ nl)) (stage L t True False) (mapper_stage L t)"
  unfolding prints_def
proof (intro allI impI)
  fix s :: "'a heap_scheme" assume st: "stage L t True False s"
  let ?s = "s\<lparr>pml4 := cr3 s\<rparr>"
  have "shown t ?s" if "shown t s" by (rule shown_frame [OF that]) auto
  moreover have "pages_ready ?s" if "pages_ready s" by (rule pages_ready_frame [OF that, of _ 0 0]) auto
  moreover have "heap_rep ?s bs" if "heap_rep s bs" for bs by (rule heap_rep_frame [OF that, of _ 0 0]) auto
  ultimately have "mapper_stage L t ?s"
    using st by (auto simp: mapper_stage_def stage_def uart_live_def low_kept_def)
  from printsD [OF prints_say [OF steady_mapper_stage] this, of "''[VMM] Virtual Memory Manager initialized'' @ nl"]
  show "\<exists>s'. vmm_init s = Some s' \<and> ports s' = ports s @ map (Pair COM1_DATA)
      (crlf (chars (''[VMM] Virtual Memory Manager initialized'' @ nl))) \<and> mapper_stage L t s'"
    by (auto simp: vmm_init_def get_cr3_def say_def)
qed

lemma kmalloc_init_prints:
  "prints kmalloc_init (chars (''[KMALLOC] Kernel heap allocator initialized'' @ nl))
     (mapper_stage L t) (stage L t True True)"
  unfolding prints_def
proof (intro allI impI)
  fix s :: "'a heap_scheme" assume "mapper_stage L t s"
  then have st: "stage L t True False s" and root: "pml4 s = cr3 s" by (simp_all add: mapper_stage_def)
  have zero: "total_allocated s = 0" using st by (simp add: stage_def)
  show "\<exists>s'. kmalloc_init s = Some s' \<and> ports s' = ports s @ map (Pair COM1_DATA)
      (crlf (chars (''[KMALLOC] Kernel heap allocator initialized'' @ nl))) \<and> stage L t True True s'"
  proof (rule kmalloc_init_result [OF stage_live [OF st] zero])
    fix m s'
    assume r: "kmalloc_init s = Some s'"
      "sends (crlf (content heap_message)) (s\<lparr>heap_start := HEAP_START, mem := m\<rparr>) s'"
      "only_changes (mem s) m 0x180000 0x180018" "heap_rep s' [Block 0x7FFE8 True]"
    obtain k p where s': "s' = s\<lparr>heap_start := HEAP_START, mem := m, lsr_reads := k, ports := p\<rparr>"
      using r(2) by (auto simp: sends_def)
    have chg: "only_changes (mem s) (mem s') 0x180000 0x180018" using r(3) by (simp add: s')
    have "shown t s'" by (rule shown_frame [OF _ chg]) (use st in \<open>simp_all add: stage_def s'\<close>)
    moreover have "pages_ready s'"
      by (rule pages_ready_frame [OF _ chg]) (use st in \<open>simp_all add: stage_def s'\<close>)
    moreover have "low_kept L s'"
      by (rule low_kept_frame [OF _ chg]) (use st in \<open>simp_all add: stage_def s'\<close>)
    ultimately have "stage L t True True s'"
      using r(4) st root by (simp add: stage_def s' uart_live_def)
    moreover have "content heap_message = chars (''[KMALLOC] Kernel heap allocator initialized'' @ nl)"
      by (simp add: heap_message_def content_cstr chars_def)
    ultimately show ?thesis using r(1) sends_ports [OF r(2)] by simp
  qed
qed

lemma kmain_managers_prints:
  "prints kmain_managers (chars managers_text) (stage L t True False) (stage L t True True)"
proof -
  have "prints kmain_managers
      (chars (''[VMM] Virtual Memory Manager initialized'' @ nl) @
       chars (''[KMALLOC] Kernel heap allocator initialized'' @ nl) @
       chars (nl @ ''[INIT] Memory Subsystem Initialized Successfully'' @ nl) @
       chars (nl @ ''[TEST] Testing Memory Allocation...'' @ nl)) (stage L t True False) (stage L t True True)"
    unfolding kmain_managers_def
    by (rule prints_bind vmm_init_prints kmalloc_init_prints prints_stage | (simp; fail))+
  then show ?thesis by (simp only: managers_text_def chars_append append_assoc)
qed

text \<open>The test of the heap: the block is granted and released, the heap is as before.\<close>

lemma kmain_test_heap_prints:
  assumes sz: "sz \<noteq> 0" "unat (align_size sz) \<le> 524264"
    and lits: "CHR 0x00 \<notin> set ok" "length ok < 1000" "CHR 0x00 \<notin> set freed" "length freed < 1000"
  shows "prints (kmain_test_heap sz ok freed failed) (chars ok @ chars freed) (stage L t True True) (stage L t True True)"
  unfolding prints_def
proof (intro allI impI)
  fix s :: "'a heap_scheme" assume st: "stage L t True True s"
  let ?n = "unat (align_size sz)" and ?bs = "[Block 524264 True]"
  have rep: "heap_rep s ?bs" using st by (simp add: stage_def)
  obtain s1 where s1: "kmalloc sz s = Some (0x180018, s1)" "heap_rep s1 (alloc_at ?n 0 ?bs)"
      "only_changes (mem s) (mem s1) 0x180000 0x200000" "\<exists>m a. s1 = s\<lparr>mem := m, total_allocated := a\<rparr>"
    using rep
  proof (cases rule: kmalloc_rep [where sz = sz])
    case refused
    with sz show ?thesis by simp
  next
    case (granted i m a)
    have "i = 0" using granted(2) sz(2) by simp
    with granted that show ?thesis by (simp add: payload_addr_def block_addr_def) blast
  qed
  let ?say = "say ok" and ?P = "\<lambda>u. \<exists>k p. u = s1\<lparr>lsr_reads := k, ports := p\<rparr>"
  have "uart_live s1" using s1(4) stage_live [OF st] by (auto simp: uart_live_def)
  moreover have "terminated (cstr ok)" using lits(2) by (intro terminated_cstr) simp
  ultimately obtain s2 where s2: "say ok s1 = Some s2" "sends (crlf (chars ok)) s1 s2"
    using serial_writestring_sends [of s1 "cstr ok"] by (auto simp: say_def content_cstr [OF lits(1)] chars_def)
  then obtain k p where s2': "s2 = s1\<lparr>lsr_reads := k, ports := p\<rparr>" by (auto simp: sends_def)
  have rep2: "heap_rep s2 (alloc_at ?n 0 ?bs)"
    by (rule heap_rep_frame [OF s1(2), of _ 0 0]) (auto simp: s2')
  have used: "0 < length (alloc_at ?n 0 ?bs)" "\<not> bfree (alloc_at ?n 0 ?bs ! 0)"
    using nth_alloc_at [of 0 ?bs ?n] by (auto simp: carve_facts)
  have addr: "payload_addr (alloc_at ?n 0 ?bs) 0 = 0x180018"
    by (simp add: payload_addr_def block_addr_def)
  obtain s3 where s3: "kfree 0x180018 s2 = Some s3" "heap_rep s3 ?bs"
      "only_changes (mem s2) (mem s3) 0x180000 0x200000" "\<exists>m a. s3 = s2\<lparr>mem := m, total_allocated := a\<rparr>"
  proof (rule kfree_rep [OF rep2 used])
    fix m a
    assume r: "kfree (of_nat (payload_addr (alloc_at ?n 0 ?bs) 0)) s2 = Some (s2\<lparr>mem := m, total_allocated := a\<rparr>)"
      "heap_rep (s2\<lparr>mem := m, total_allocated := a\<rparr>) (free_at 0 (alloc_at ?n 0 ?bs))"
      "\<And>x. \<not> in_header (alloc_at ?n 0 ?bs) x \<Longrightarrow> m x = mem s2 x"
    have "free_at 0 (alloc_at ?n 0 ?bs) = ?bs" by (rule free_alloc_at) (use sz in simp_all)
    with r header_writes_only_change_heap [OF rep2 r(3)] that show thesis
      by (simp add: addr) blast
  qed
  have chg: "only_changes (mem s) (mem s3) 0x180000 0x200000"
    using only_changes_trans [OF s1(3)] s3(3) by (simp add: s2')
  have "shown t s3" by (rule shown_frame [OF _ chg]) (use st s1(4) s3(4) in \<open>auto simp: stage_def s2'\<close>)
  moreover have "pages_ready s3"
    by (rule pages_ready_frame [OF _ chg]) (use st s1(4) s3(4) in \<open>auto simp: stage_def s2'\<close>)
  moreover have "low_kept L s3"
    by (rule low_kept_frame [OF _ chg]) (use st s1(4) s3(4) in \<open>auto simp: stage_def s2'\<close>)
  ultimately have "stage L t True True s3"
    using st s3(2,4) s1(4) stage_live [OF st] by (auto simp: stage_def s2' uart_live_def)
  from printsD [OF prints_stage [OF lits(3,4)] this] obtain s4 where s4: "say freed s3 = Some s4"
      "ports s4 = ports s3 @ map (Pair COM1_DATA) (crlf (chars freed))" "stage L t True True s4" .
  have "kmain_test_heap sz ok freed failed s = Some s4"
    using s1(1) s2(1) s3(1) s4(1) by (simp add: kmain_test_heap_def)
  moreover have "ports s4 = ports s @ map (Pair COM1_DATA) (crlf (chars ok @ chars freed))"
    using s4(2) s3(4) sends_ports [OF s2(2)] s1(4) by (auto simp: crlf_append)
  ultimately show "\<exists>s'. kmain_test_heap sz ok freed failed s = Some s' \<and>
      ports s' = ports s @ map (Pair COM1_DATA) (crlf (chars ok @ chars freed)) \<and> stage L t True True s'"
    using s4(3) by blast
qed

section \<open>Hexadecimal output\<close>

fun hex_list :: "nat \<Rightarrow> u64 \<Rightarrow> u8 list" where
  "hex_list 0 page = []"
| "hex_list (Suc n) page = hex_char (ucast (drop_bit (4 * n) page AND 0xF)) # hex_list n page"

lemma hex_list_numeral:
  "hex_list (numeral k) page =
     hex_char (ucast (drop_bit (4 * pred_numeral k) page AND 0xF)) # hex_list (pred_numeral k) page"
  by (simp add: numeral_eq_Suc)

lemma nibble_less: "(ucast (w AND 0xF :: u64) :: u8) < 16"
proof -
  have "w AND 0xF \<le> 0xF" by (rule word_and_le1)
  then have "unat (w AND 0xF) < 16" by (simp add: word_le_nat_alt)
  then show ?thesis by (simp add: word_less_nat_alt unsigned_ucast_eq take_bit_nat_eq_self)
qed

lemma unat_hex_char: "d < 16 \<Longrightarrow> unat (hex_char d) = unat d + (if unat d < 10 then 0x30 else 0x37)"
proof -
  have "list_all (\<lambda>n. unat (hex_char (of_nat n)) = n + (if n < 10 then 0x30 else 0x37)) [0..<16]"
    by (simp add: hex_char_def upt_conv_Cons)
  moreover assume "d < 16"
  then have "unat d \<in> set [0..<16]" by (simp add: word_less_nat_alt)
  ultimately have "unat (hex_char (of_nat (unat d))) = unat d + (if unat d < 10 then 0x30 else 0x37)"
    unfolding list_all_iff by blast
  then show ?thesis by simp
qed

lemma hex_char_nonzero: "d < 16 \<Longrightarrow> hex_char d \<noteq> 0"
  using unat_hex_char [of d] by (auto split: if_splits)

lemma prints_hex_loop:
  fixes P :: "'a machine_scheme \<Rightarrow> bool"
  assumes "steady P"
  shows "prints (hex_loop (4 * int n - 4) page) (hex_list n page) P P"
proof (induction n)
  case 0
  show ?case by (auto simp: prints_def hex_loop.simps)
next
  case (Suc n)
  let ?h = "hex_char (ucast (drop_bit (4 * n) page AND 0xF))"
  have nz: "?h \<noteq> 0" by (rule hex_char_nonzero [OF nibble_less])
  have "terminated [?h, 0]" "content [?h, 0] = [?h]" using nz by (simp_all add: terminated_def content_def)
  then have one: "prints (serial_writestring [?h, 0]) [?h] P P" using prints_string [OF assms] by metis
  have "hex_loop (4 * int (Suc n) - 4) page s =
      Option.bind (serial_writestring [?h, 0] s) (hex_loop (4 * int n - 4) page)" for s :: "'a machine_scheme"
    by (subst hex_loop.simps) (simp add: nat_mult_distrib Let_def)
  then have "(hex_loop (4 * int (Suc n) - 4) page :: 'a machine_scheme \<Rightarrow> _) =
      (\<lambda>s. Option.bind (serial_writestring [?h, 0] s) (hex_loop (4 * int n - 4) page))" by (rule ext)
  then show ?case using prints_bind [OF one Suc] by simp
qed

text \<open>Reading the hexadecimal digits back.\<close>

definition hex_digit_value :: "u8 \<Rightarrow> nat" where
  "hex_digit_value c = (if c < 0x41 then unat c - 0x30 else unat c - 0x37)"

definition hex_value :: "u8 list \<Rightarrow> nat" where
  "hex_value cs = foldl (\<lambda>a c. 16 * a + hex_digit_value c) 0 cs"

lemma hex_digit_value_char: "d < 16 \<Longrightarrow> hex_digit_value (hex_char d) = unat d"
  using unat_hex_char [of d] by (auto simp: hex_digit_value_def word_less_nat_alt split: if_splits)

lemma unat_nibble: "unat (ucast (drop_bit (4 * n) page AND 0xF :: u64) :: u8) = unat page div 16 ^ n mod 16"
proof -
  have "(0xF :: u64) = mask 4" by (simp add: mask_eq_exp_minus_1)
  then have "drop_bit (4 * n) page AND 0xF = take_bit 4 (drop_bit (4 * n) page)"
    by (simp only: take_bit_eq_mask)
  then have "unat (drop_bit (4 * n) page AND 0xF) = unat page div 2 ^ (4 * n) mod 2 ^ 4"
    by (simp only: unsigned_take_bit_eq unsigned_drop_bit_eq) (simp add: take_bit_eq_mod drop_bit_eq_div)
  then have eq: "unat (drop_bit (4 * n) page AND 0xF) = unat page div 16 ^ n mod 16"
    by (simp add: power_mult)
  then have "unat (drop_bit (4 * n) page AND 0xF) < 2 ^ 8"
    by (simp only: eq) (rule less_trans [of _ 16]; simp)
  with eq show ?thesis by (simp add: unsigned_ucast_eq take_bit_nat_eq_self)
qed

lemma foldl_hex: "foldl (\<lambda>a c. 16 * a + hex_digit_value c) a (hex_list n page) = a * 16 ^ n + unat page mod 16 ^ n"
proof (induction n arbitrary: a)
  case (Suc n)
  have "unat page mod 16 ^ Suc n = 16 ^ n * (unat page div 16 ^ n mod 16) + unat page mod 16 ^ n"
    by (subst power_Suc2) (rule mod_mult2_eq)
  moreover have "foldl (\<lambda>a c. 16 * a + hex_digit_value c) a (hex_list (Suc n) page) =
      foldl (\<lambda>a c. 16 * a + hex_digit_value c) (16 * a + unat page div 16 ^ n mod 16) (hex_list n page)"
    by (simp only: hex_list.simps foldl_Cons hex_digit_value_char [OF nibble_less] unat_nibble)
  ultimately show ?case
    unfolding Suc by (simp add: algebra_simps)
qed simp

lemma hex_value_hex_list: "hex_value (hex_list 16 page) = unat page"
proof -
  have "unat page < 16 ^ 16" by (rule less_le_trans [OF unat_lt_2p64]) simp
  then have "0 * 16 ^ 16 + unat page mod 16 ^ 16 = unat page" by (simp only: mod_less mult_zero_left add_0)
  then show ?thesis unfolding hex_value_def foldl_hex .
qed

section \<open>The page test, the heap report and the end\<close>

lemma steady_driver: "steady (\<lambda>u. uart_live u \<and> (\<exists>k p. u = s\<lparr>lsr_reads := k, ports := p\<rparr>))"
  unfolding steady_def
proof (intro conjI allI impI)
  fix u u' bs
  assume u: "uart_live u \<and> (\<exists>k p. u = s\<lparr>lsr_reads := k, ports := p\<rparr>)" and "sends bs u u'"
  then obtain k p n where "u = s\<lparr>lsr_reads := k, ports := p\<rparr>"
    "u' = u\<lparr>lsr_reads := n, ports := ports u @ map (Pair COM1_DATA) bs\<rparr>" by (auto simp: sends_def)
  then have "u' = s\<lparr>lsr_reads := n, ports := p @ map (Pair COM1_DATA) bs\<rparr>" by simp
  then show "\<exists>k p. u' = s\<lparr>lsr_reads := k, ports := p\<rparr>" by blast
  show "uart_live u'" using u \<open>sends bs u u'\<close> by (simp add: sends_live)
qed blast

lemma pmm_free_page_driver:
  "pmm_free_page a (s\<lparr>lsr_reads := k, ports := p\<rparr>) = (pmm_free_page a s)\<lparr>lsr_reads := k, ports := p\<rparr>"
  by (simp add: pmm_free_page_eq allocated_def is_page_allocated_bit set_page_free_bit)

definition page_text :: string where
  "page_text = ''[TEST] pmm_alloc_page() succeeded, page at: 0x0000000000180000'' @ nl @
     ''[TEST] pmm_free_page() succeeded'' @ nl"

lemma alloc_ready:
  assumes "pages_ready s"
  shows "pmm_alloc_page s = (0x180000, mark_page 0x180 s)" "\<not> is_page_allocated 0x180 s" "0x180 < total_pages s"
proof -
  have al: "q < total_pages s \<Longrightarrow> is_page_allocated q s \<longleftrightarrow> q < 0x180" for q
  proof -
    assume q: "q < total_pages s"
    have "allocated s = {p. p < 0x180}" using assms by (simp add: pages_ready_def)
    then have "q \<in> allocated s \<longleftrightarrow> q < 0x180" by simp
    with q show ?thesis by (simp add: allocated_def)
  qed
  have n: "total_pages s = 0x100000" using assms by (simp add: pages_ready_def)
  then show "\<not> is_page_allocated 0x180 s" "0x180 < total_pages s" using al [of "0x180"] by simp_all
  show "pmm_alloc_page s = (0x180000, mark_page 0x180 s)"
  proof (cases rule: pmm_alloc_page_cases [of s])
    case (page p)
    have "\<not> 0x180 < p" using page(3) al [of "0x180"] n by auto
    moreover have "\<not> p < 0x180" using page(2) al [OF page(1)] by simp
    ultimately have "p = 0x180" by simp
    with page show ?thesis by (simp add: PAGE_SIZE_def)
  next
    case full
    then show ?thesis using al [of "0x180"] n by simp
  qed
qed

lemma kmain_test_page_prints:
  "prints kmain_test_page (chars page_text) (stage L t True True) (stage L t True True)"
  unfolding prints_def
proof (intro allI impI)
  fix s :: "'a heap_scheme" assume st: "stage L t True True s"
  then have pr: "pages_ready s" by (simp add: stage_def)
  let ?m = "mark_page 0x180 s" and ?P = "\<lambda>u. uart_live u \<and> (\<exists>k p. u = (mark_page 0x180 s)\<lparr>lsr_reads := k, ports := p\<rparr>)"
  let ?ok = "''[TEST] pmm_alloc_page() succeeded, page at: 0x''" and ?freed = "''[TEST] pmm_free_page() succeeded'' @ nl"
  have P: "steady ?P" by (rule steady_driver)
  have mark: "?m = s\<lparr>mem := mem ?m, used_pages := used_pages s + 1\<rparr>" by (rule mark_page_mem)
  have start: "?P ?m"
    using stage_live [OF st] by (auto simp: uart_live_def mark_page_def set_page_allocated_bit)
      (intro exI [of _ "lsr_reads s"] exI [of _ "ports s"], simp)
  have "prints (\<lambda>s. do { s \<leftarrow> say ?ok s; s \<leftarrow> hex_loop (4 * int 16 - 4) 0x180000 s; say nl s })
      (chars ?ok @ hex_list 16 0x180000 @ chars nl) ?P ?P"
    by (rule prints_bind prints_say [OF P] prints_hex_loop [OF P] | (simp; fail))+
  from printsD [OF this start] obtain u where u:
      "do { s \<leftarrow> say ?ok ?m; s \<leftarrow> hex_loop 60 0x180000 s; say nl s } = Some u"
      "ports u = ports ?m @ map (Pair COM1_DATA) (crlf (chars ?ok @ hex_list 16 0x180000 @ chars nl))" "?P u"
    by auto
  then obtain k p where u': "u = ?m\<lparr>lsr_reads := k, ports := p\<rparr>" by blast
  have "pmm_free_page (0x180 * PAGE_SIZE) ?m = s"
    by (rule pmm_free_mark_page) (use alloc_ready [OF pr] in simp_all)
  then have free: "pmm_free_page 0x180000 u = s\<lparr>lsr_reads := k, ports := p\<rparr>"
    unfolding u' pmm_free_page_driver by (simp add: PAGE_SIZE_def)
  have st': "stage L t True True (s\<lparr>lsr_reads := k, ports := p\<rparr>)"
  proof -
    let ?s = "s\<lparr>lsr_reads := k, ports := p\<rparr>"
    have "shown t ?s" by (rule shown_frame [of _ s _ "0xB8FA0" 0]) (use st in \<open>auto simp: stage_def\<close>)
    moreover have "pages_ready ?s" by (rule pages_ready_frame [OF pr, of _ 0 0]) auto
    moreover have "heap_rep ?s [Block 524264 True]"
      by (rule heap_rep_frame [of s _ _ 0 0]) (use st in \<open>auto simp: stage_def\<close>)
    ultimately show ?thesis using st by (simp add: stage_def uart_live_def low_kept_def)
  qed
  have "prints (say ?freed) (chars ?freed) (stage L t True True) (stage L t True True)"
    by (rule prints_stage) simp_all
  from printsD [OF this st'] obtain v where v: "say ?freed (s\<lparr>lsr_reads := k, ports := p\<rparr>) = Some v"
      "ports v = p @ map (Pair COM1_DATA) (crlf (chars ?freed))" "stage L t True True v" by auto
  have "kmain_test_page s = Some v"
    using u(1) v(1) by (auto simp: kmain_test_page_def alloc_ready(1) [OF pr] free split: Option.bind_splits)
  moreover have "hex_list 16 0x180000 = chars ''0000000000180000''"
    by (simp add: hex_list_numeral chars_def hex_char_def)
  then have "ports v = ports s @ map (Pair COM1_DATA) (crlf (chars page_text))"
    using v(2) u(2) by (simp add: u' page_text_def crlf_append mark_page_def set_page_allocated_bit chars_def)
  ultimately show "\<exists>s'. kmain_test_page s = Some s' \<and>
      ports s' = ports s @ map (Pair COM1_DATA) (crlf (chars page_text)) \<and> stage L t True True s'"
    using v(3) by blast
qed

text \<open>The last report: the heap is back to one free block.\<close>

definition heap_text :: string where
  "heap_text = nl @ ''[HEAP] Used memory: 0 bytes'' @ nl @ ''[HEAP] Free memory: 524264 bytes'' @ nl"

lemma heap_ready_counts:
  assumes "stage L t pg True s"
  shows "kmalloc_get_used s = 0" "kmalloc_get_free s = Some 524264"
proof -
  have rep: "heap_rep s [Block 524264 True]" using assms by (simp add: stage_def)
  show "kmalloc_get_used s = 0"
    using heap_repD(6) [OF rep] by (simp add: kmalloc_get_used_def unat_eq_0)
  show "kmalloc_get_free s = Some 524264"
    using kmalloc_get_free_rep [OF rep] by (simp add: free_bytes_def)
qed

lemma kmain_report_heap_prints:
  assumes len: "\<forall>n. length (junk n) = 32" "length buffer = 32"
  shows "prints (kmain_report_heap junk buffer) (chars heap_text) (stage L t True True) (stage L t True True)"
  unfolding prints_def
proof (intro allI impI)
  fix s :: "'a heap_scheme" assume st: "stage L t True True s"
  note rep = report_prints [OF steady_stage _ len(1) [rule_format]]
  let ?used = "nl @ ''[HEAP] Used memory: ''" and ?free = "''[HEAP] Free memory: ''" and ?unit = "'' bytes'' @ nl"
  obtain b1 s1 where s1: "report (junk 3) ?used ?unit 0 (buffer, s) = Some (b1, s1)" "length b1 = 32"
    "ports s1 = ports s @ map (Pair COM1_DATA) (crlf (chars ?used @ numeral_of 0 @ chars ?unit))"
    "stage L t True True s1"
    using rep [OF st len(2), of ?used ?unit] by fastforce
  obtain b2 s2 where s2: "report (junk 4) ?free ?unit 524264 (b1, s1) = Some (b2, s2)"
    "ports s2 = ports s1 @ map (Pair COM1_DATA) (crlf (chars ?free @ numeral_of 524264 @ chars ?unit))"
    "stage L t True True s2"
    using rep [OF s1(4,2), of ?free ?unit] by fastforce
  have "kmain_report_heap junk buffer s = Some s2"
    using heap_ready_counts [OF st] heap_ready_counts [OF s1(4)] s1(1) s2(1)
    by (simp add: kmain_report_heap_def)
  moreover have "ports s2 = ports s @ map (Pair COM1_DATA) (crlf (chars heap_text))"
    unfolding s2(2) s1(3) heap_text_def numeral_of_examples by (simp add: crlf_append chars_def)
  ultimately show "\<exists>s'. kmain_report_heap junk buffer s = Some s' \<and>
      ports s' = ports s @ map (Pair COM1_DATA) (crlf (chars heap_text)) \<and> stage L t True True s'"
    using s2(3) by blast
qed

definition done_text :: string where
  "done_text = ''Memory Manager Initialized!'' @ nl"

definition closing_text :: string where
  "closing_text = nl @ ''==========================================='' @ nl @
     ''  Memory Manager Tests Complete'' @ nl @
     ''==========================================='' @ nl @ done_text"

lemma kmain_closing_prints:
  assumes "length t < 1000"
  shows "prints kmain_closing (chars closing_text) (stage L t True True) (stage L (t @ chars done_text) True True)"
proof -
  have "prints kmain_closing
      (chars (nl @ ''==========================================='' @ nl) @
       chars (''  Memory Manager Tests Complete'' @ nl) @
       chars (''==========================================='' @ nl) @
       chars (''Memory Manager Initialized!'' @ nl))
      (stage L t True True) (stage L (t @ chars (''Memory Manager Initialized!'' @ nl)) True True)"
    unfolding kmain_closing_def
    by (rule prints_bind prints_terminal prints_stage | (insert assms, simp; fail))+
  then show ?thesis by (simp only: closing_text_def done_text_def chars_append append_assoc)
qed

section \<open>The whole boot\<close>

definition tests_text :: string where
  "tests_text = ''[TEST] kmalloc(64) succeeded'' @ nl @ ''[TEST] kfree(64) succeeded'' @ nl @
     ''[TEST] kmalloc(1024) succeeded'' @ nl @ ''[TEST] kfree(1024) succeeded'' @ nl"

definition boot_text :: string where
  "boot_text = banner_text @ pages_text @ managers_text @ tests_text @ page_text @ heap_text @ closing_text"

lemma kmain_tests_print:
  assumes len: "\<forall>n. length (junk n) = 32" "length buffer = 32" and t: "length t < 1000"
  shows "prints (\<lambda>s. do {
     s \<leftarrow> kmain_managers s;
     s \<leftarrow> kmain_test_heap 64 (''[TEST] kmalloc(64) succeeded'' @ nl) (''[TEST] kfree(64) succeeded'' @ nl)
       (''[TEST] kmalloc(64) failed'' @ nl) s;
     s \<leftarrow> kmain_test_heap 1024 (''[TEST] kmalloc(1024) succeeded'' @ nl) (''[TEST] kfree(1024) succeeded'' @ nl)
       (''[TEST] kmalloc(1024) failed'' @ nl) s;
     s \<leftarrow> kmain_test_page s;
     s \<leftarrow> kmain_report_heap junk buffer s;
     kmain_closing s })
   (chars (managers_text @ tests_text @ page_text @ heap_text @ closing_text))
   (stage L t True False) (stage L (t @ chars done_text) True True)"
proof -
  note steps = kmain_managers_prints kmain_test_heap_prints kmain_test_page_prints
    kmain_report_heap_prints [OF len] kmain_closing_prints [OF t]
  have "prints (\<lambda>s. do {
     s \<leftarrow> kmain_managers s;
     s \<leftarrow> kmain_test_heap 64 (''[TEST] kmalloc(64) succeeded'' @ nl) (''[TEST] kfree(64) succeeded'' @ nl)
       (''[TEST] kmalloc(64) failed'' @ nl) s;
     s \<leftarrow> kmain_test_heap 1024 (''[TEST] kmalloc(1024) succeeded'' @ nl) (''[TEST] kfree(1024) succeeded'' @ nl)
       (''[TEST] kmalloc(1024) failed'' @ nl) s;
     s \<leftarrow> kmain_test_page s;
     s \<leftarrow> kmain_report_heap junk buffer s;
     kmain_closing s })
   (chars managers_text @
    (chars (''[TEST] kmalloc(64) succeeded'' @ nl) @ chars (''[TEST] kfree(64) succeeded'' @ nl)) @
    (chars (''[TEST] kmalloc(1024) succeeded'' @ nl) @ chars (''[TEST] kfree(1024) succeeded'' @ nl)) @
    chars page_text @ chars heap_text @ chars closing_text)
   (stage L t True False) (stage L (t @ chars done_text) True True)"
    by (rule prints_bind steps | (simp add: align_size_def; fail))+
  then show ?thesis by (simp only: tests_text_def chars_append append_assoc)
qed

lemma kMain_result:
  assumes "entry_state L s" "\<forall>n. length (junk n) = 32" "length buffer = 32"
  shows "\<exists>s'. kMain junk buffer s = Some s' \<and>
    ports s' = ports s @ serial_setup @ map (Pair COM1_DATA) (crlf (chars boot_text)) \<and>
    stage L (chars (hello_text @ done_text)) True True s'"
proof -
  obtain s1 where s1: "kmain_banner s = Some s1" "stage L (chars hello_text) False False s1"
    "ports s1 = ports s @ serial_setup @ map (Pair COM1_DATA) (crlf (chars banner_text))"
    using kmain_banner_prints [OF assms(1)] by blast
  obtain b s2 where s2: "kmain_pages junk buffer s1 = Some (b, s2)" "length b = 32"
    "stage L (chars hello_text) True False s2"
    "ports s2 = ports s1 @ map (Pair COM1_DATA) (crlf (chars pages_text))"
    using kmain_pages_prints [OF s1(2) assms(2,3)] by blast
  have "length (chars hello_text) < 1000" by (simp add: chars_def hello_text_def)
  note rest = kmain_tests_print [OF assms(2) s2(2) this]
  from printsD [OF rest s2(3)] obtain s3 where s3:
    "do { s \<leftarrow> kmain_managers s2;
       s \<leftarrow> kmain_test_heap 64 (''[TEST] kmalloc(64) succeeded'' @ nl) (''[TEST] kfree(64) succeeded'' @ nl)
         (''[TEST] kmalloc(64) failed'' @ nl) s;
       s \<leftarrow> kmain_test_heap 1024 (''[TEST] kmalloc(1024) succeeded'' @ nl) (''[TEST] kfree(1024) succeeded'' @ nl)
         (''[TEST] kmalloc(1024) failed'' @ nl) s;
       s \<leftarrow> kmain_test_page s;
       s \<leftarrow> kmain_report_heap junk b s;
       kmain_closing s } = Some s3"
    "ports s3 = ports s2 @ map (Pair COM1_DATA)
      (crlf (chars (managers_text @ tests_text @ page_text @ heap_text @ closing_text)))"
    "stage L (chars hello_text @ chars done_text) True True s3" .
  have "kMain junk buffer s = Some s3"
    unfolding kMain_def s1(1) bind.simps s2(1) prod.case s3(1) ..
  moreover have "ports s3 = ports s @ serial_setup @ map (Pair COM1_DATA) (crlf (chars boot_text))"
    unfolding s3(2) s2(4) s1(3) boot_text_def
    by (simp only: chars_append crlf_append map_append append_assoc)
  ultimately show ?thesis using s3(3) unfolding chars_append by blast
qed

text \<open>
  C1: From the entry state the kernel runs to its end: \<open>kMain\<close> returns to its halt loop, COM1
  has received the set-up of the UART and then exactly the boot log, every self test having
  succeeded; the console shows its two lines from the top left corner; the page allocator holds
  the low 1.5 MiB, the page mapper works on the processor's tables, the heap is one free block
  again, and what the loader left below the screen is intact.
\<close>

theorem kMain_boots:
  assumes "entry_state L s" "\<forall>n. length (junk n) = 32" "length buffer = 32"
  shows "\<exists>s'. kMain junk buffer s = Some s' \<and>
    ports s' = ports s @ serial_setup @ map (Pair COM1_DATA) (crlf (chars boot_text)) \<and>
    stage L (chars (hello_text @ done_text)) True True s'"
  by (rule kMain_result [OF assms])

definition any_array :: "u8 list" where
  "any_array = replicate 32 0x5A"

theorem kMain_boots_witness:
  "\<exists>s'. kMain (\<lambda>_. any_array) any_array blank_machine = Some s' \<and>
    ports s' = serial_setup @ map (Pair COM1_DATA) (crlf (chars boot_text)) \<and>
    stage (\<lambda>_. 0, 0) (chars (hello_text @ done_text)) True True s'"
proof -
  have "entry_state (\<lambda>_. 0, 0) blank_machine"
    using uart_live_blank by (simp add: entry_state_def low_kept_def agree_def blank_machine_def)
  from kMain_boots [OF this, of "\<lambda>_. any_array" any_array] show ?thesis
    by (simp add: any_array_def blank_machine_def)
qed

text \<open>
  C29: \<open>uint64_to_string\<close> stays inside both 32-byte arrays for every value and leaves a
  terminated numeral of decimal digits, with no leading zero except for 0 itself, that
  reads back as the value.
\<close>

theorem uint64_to_string_decimal:
  assumes "length temp = 32" "length buffer = 32"
  shows "\<exists>buffer'. uint64_to_string temp v buffer = Some buffer' \<and> length buffer' = 32 \<and>
    terminated buffer' \<and> decimal_value (content buffer') = unat v \<and>
    list_all (\<lambda>c. 0x30 \<le> unat c \<and> unat c \<le> 0x39) (content buffer') \<and>
    (hd (content buffer') = 0x30 \<longleftrightarrow> v = 0) \<and> length (content buffer') \<le> 20"
proof -
  obtain rest where b: "uint64_to_string temp v buffer = Some (numeral_of v @ 0 # rest)"
      "length (numeral_of v @ 0 # rest) = 32"
    using uint64_to_string_result [OF assms] by blast
  have "terminated (numeral_of v @ 0 # rest)" using b(2) by (simp add: terminated_def)
  moreover have "decimal_value (numeral_of v) = unat v"
    by (simp add: numeral_of_def decimal_value_rdigits) (simp add: decimal_value_def)
  moreover have "list_all (\<lambda>c. 0x30 \<le> unat c \<and> unat c \<le> 0x39) (numeral_of v)"
    using rdigits_range [of _ "unat v"] by (auto simp: numeral_of_def list_all_iff)
  moreover have "hd (numeral_of v) = 0x30 \<longleftrightarrow> v = 0"
  proof (cases "v = 0")
    case False
    then have "0 < unat v" by (simp add: unat_gt_0)
    from last_rdigits [OF this] rdigits_pos [OF this] False show ?thesis
      by (simp only: numeral_of_def if_False hd_rev)
  qed (simp add: numeral_of_def)
  ultimately show ?thesis
    using b length_numeral_of [of v] content_numeral [of v rest]
    by (intro exI [of _ "numeral_of v @ 0 # rest"]) simp
qed

theorem uint64_to_string_decimal_witness:
  "\<exists>buffer'. uint64_to_string any_array 1048576 any_array = Some buffer' \<and>
     decimal_value (content buffer') = 1048576"
  using uint64_to_string_decimal [of any_array any_array "1048576"] by (auto simp: any_array_def)

text \<open>
  The hexadecimal loop of the page test prints sixteen digits that read back as the
  page address, and leaves every variable and all of memory alone.
\<close>

lemma hex_loop_prints_value:
  assumes "uart_live s"
  shows "\<exists>s' ds. hex_loop 60 page s = Some s' \<and> ports s' = ports s @ map (Pair COM1_DATA) ds \<and>
    length ds = 16 \<and> hex_value ds = unat page \<and> s' = s\<lparr>lsr_reads := lsr_reads s', ports := ports s'\<rparr>"
proof -
  have "prints (hex_loop (4 * int 16 - 4) page) (hex_list 16 page)
      (\<lambda>u. uart_live u \<and> (\<exists>k p. u = s\<lparr>lsr_reads := k, ports := p\<rparr>))
      (\<lambda>u. uart_live u \<and> (\<exists>k p. u = s\<lparr>lsr_reads := k, ports := p\<rparr>))"
    by (rule prints_hex_loop [OF steady_driver])
  moreover have "uart_live s \<and> (\<exists>k p. s = s\<lparr>lsr_reads := k, ports := p\<rparr>)"
    using assms by (intro conjI exI [of _ "lsr_reads s"] exI [of _ "ports s"]) simp_all
  ultimately obtain s' where s': "hex_loop (4 * int 16 - 4) page s = Some s'"
      "ports s' = ports s @ map (Pair COM1_DATA) (crlf (hex_list 16 page))"
      "\<exists>k p. s' = s\<lparr>lsr_reads := k, ports := p\<rparr>"
    by (elim printsD) auto
  have "crlf (hex_list n page) = hex_list n page" for n
  proof (induction n)
    case (Suc n)
    have "unat (hex_char (ucast (drop_bit (4 * n) page AND 0xF))) \<noteq> unat (0x0A :: u8)"
      by (subst unat_hex_char [OF nibble_less]) auto
    then have "hex_char (ucast (drop_bit (4 * n) page AND 0xF)) \<noteq> 0x0A" by metis
    with Suc show ?case by simp
  qed simp
  moreover have "length (hex_list n page) = n" for n by (induction n) simp_all
  ultimately show ?thesis
    using s' hex_value_hex_list [of page] by (intro exI [of _ s'] exI [of _ "hex_list 16 page"]) auto
qed

lemma hex_loop_prints_value_witness:
  "\<exists>s' ds. hex_loop 60 0x180000 blank_machine = Some s' \<and> ports s' = map (Pair COM1_DATA) ds \<and>
     hex_value ds = 0x180000"
  using hex_loop_prints_value [OF uart_live_blank, of "0x180000"] by (auto simp: blank_machine_def)

end
