(* ===== verification/Boot.thy ===== *)
theory Boot
  imports Vmm
begin

text \<open>
  The last part of the loader before the kernel, \<open>LoaderEntry32\<close> of
  \<open>boot/fat32/Stage2_X86.asm\<close>: it copies the kernel to 1 MiB and builds the page tables the
  kernel runs on, an identity map of the first gigabyte in pages of 2 MiB. The lemmas give every
  entry it leaves; the properties say what the processor makes of the tables, and what the
  page mapper does when it meets them.
\<close>

section \<open>The loader\<close>

text \<open>The string instructions, with \<open>ecx\<close> counting down; the registers are 32 bits wide.\<close>

fun rep_movsb :: "nat \<Rightarrow> u32 \<Rightarrow> u32 \<Rightarrow> memory \<Rightarrow> memory" where
  "rep_movsb 0 esi edi m = m"
| "rep_movsb (Suc ecx) esi edi m = rep_movsb ecx (esi + 1) (edi + 1) (m(ucast edi := m (ucast esi)))"

fun rep_stosd :: "nat \<Rightarrow> u32 \<Rightarrow> u32 \<Rightarrow> memory \<Rightarrow> memory" where
  "rep_stosd 0 edi eax m = m"
| "rep_stosd (Suc ecx) edi eax m = rep_stosd ecx (edi + 4) eax (store32 m (ucast edi) eax)"

text \<open>The loop \<open>.SetEntry\<close> over the page directory.\<close>

fun set_entries :: "nat \<Rightarrow> u32 \<Rightarrow> u32 \<Rightarrow> memory \<Rightarrow> memory" where
  "set_entries 0 ebx edi m = m"
| "set_entries (Suc ecx) ebx edi m =
     (let eax = ebx OR 0x83;
          m = store32 m (ucast edi) eax;
          m = store32 m (ucast (edi + 4)) 0
      in set_entries ecx (ebx + 0x200000) (edi + 8) m)"

definition loader_tables :: "memory \<Rightarrow> memory" where
  "loader_tables m =
     (let m = rep_stosd 4096 0x1000 0 m;
          edi = 0x1000;
          m = store32 m (ucast edi) 0x2003;
          m = store32 m (ucast (edi + 4)) 0;
          edi = edi + 0x1000;
          m = store32 m (ucast edi) 0x3003;
          m = store32 m (ucast (edi + 4)) 0;
          edi = edi + 0x1000
      in set_entries 512 0 (edi :: u32) m)"

text \<open>\<open>KernelSize\<close> is the size the second stage found in the directory entry of the kernel's file.\<close>

definition LoaderEntry32 :: "u32 \<Rightarrow> 'a machine_scheme \<Rightarrow> 'a machine_scheme" where
  "LoaderEntry32 KernelSize s =
     (let m = rep_movsb (unat KernelSize) 0x500 0x100000 (mem s);
          m = loader_tables m
      in s\<lparr>mem := m, cr3 := 0x1000\<rparr>)"

section \<open>What it writes\<close>

lemma store_bytes_step:
  "0 < n \<Longrightarrow> store_bytes n m a v = store_bytes (n - 1) (m(a := ucast v)) (a + 1) (drop_bit 8 v)"
  by (cases n) simp_all

lemma store32_bytes:
  "store32 m a v = m(a := ucast v, a + 1 := ucast (drop_bit 8 v), a + 2 := ucast (drop_bit 16 v),
     a + 3 := ucast (drop_bit 24 v))"
  by (simp add: store32_def store_bytes_step drop_bit_drop_bit add.assoc)

lemma store64_bytes:
  "store64 m a v = (store32 m a (ucast v))(a + 4 := ucast (drop_bit 32 v), a + 5 := ucast (drop_bit 40 v),
     a + 6 := ucast (drop_bit 48 v), a + 7 := ucast (drop_bit 56 v))"
proof -
  have "(ucast (drop_bit k v) :: u8) = ucast (drop_bit k (ucast v :: u32))" if "k \<le> 24" for k
    by (rule bit_word_eqI) (use that in \<open>auto simp: bit_simps\<close>)
  from this [of 0] this [of 8] this [of 16] this [of 24] show ?thesis
    by (simp add: store32_bytes) (simp add: store64_def store_bytes_step drop_bit_drop_bit add.assoc)
qed

text \<open>Two halves of an entry with a clear upper half make one store of the entry.\<close>

lemma store32_pair: "store32 (store32 m a lo) (a + 4) 0 = store64 m a (ucast lo)"
proof -
  have "drop_bit k (ucast lo :: u64) = 0" if "32 \<le> k" for k
    by (rule bit_word_eqI) (use that in \<open>auto simp: bit_simps dest!: bit_imp_le_length\<close>)
  moreover have "(ucast (ucast lo :: u64) :: u32) = lo" by (rule bit_word_eqI) (auto simp: bit_simps)
  ultimately show ?thesis
    by (simp add: store64_bytes store32_bytes [of _ _ 0] add.assoc)
qed

lemma unat_ucast32 [simp]: "unat (ucast (a :: u32) :: u64) = unat a"
proof -
  have "unat a < 2 ^ LENGTH(32)" by (rule unsigned_less)
  then have "take_bit 64 (unat a) = unat a" by (intro take_bit_nat_eq_self) simp
  then show ?thesis by (simp add: unsigned_ucast_eq)
qed

lemma unat_add32: "unat a + n < 2 ^ 32 \<Longrightarrow> unat (a + of_nat n) = unat a + n" for a :: u32
  by (simp add: unat_word_ariths unat_of_nat take_bit_nat_eq_self)

lemma ucast_add32: "unat a + n < 2 ^ 32 \<Longrightarrow> (ucast (a + of_nat n) :: u64) = ucast a + of_nat n" for a :: u32
  by (rule word_unat_eq_iff [THEN iffD2]) (simp add: unat_add32 unat_add_of_nat)

text \<open>The table area is cleared.\<close>

lemma store32_zero: "unat a + 4 \<le> 2 ^ 64 \<Longrightarrow> unat a \<le> unat x \<Longrightarrow> unat x < unat a + 4 \<Longrightarrow> store32 m a 0 x = 0"
  for a x :: u64
proof -
  assume a: "unat a + 4 \<le> 2 ^ 64" and x: "unat a \<le> unat x" "unat x < unat a + 4"
  then consider "unat x = unat a" | "unat x = unat a + 1" | "unat x = unat a + 2" | "unat x = unat a + 3" by linarith
  then have "x = a \<or> x = a + 1 \<or> x = a + 2 \<or> x = a + 3"
    using a unat_add_of_nat [of a 1] unat_add_of_nat [of a 2] unat_add_of_nat [of a 3]
    by cases (auto simp: word_unat_eq_iff)
  then show "store32 m a 0 x = 0" by (auto simp: store32_bytes)
qed

lemma rep_stosd_zero:
  "unat edi + 4 * n < 2 ^ 32 \<Longrightarrow> only_changes m (rep_stosd n edi 0 m) (unat edi) (unat edi + 4 * n) \<and>
     (\<forall>x. unat edi \<le> unat x \<longrightarrow> unat x < unat edi + 4 * n \<longrightarrow> rep_stosd n edi 0 m x = 0)"
proof (induction n arbitrary: edi m)
  case 0
  then show ?case by simp
next
  case (Suc n)
  let ?m = "store32 m (ucast edi) 0"
  have next_edi: "unat (edi + 4) = unat edi + 4" using unat_add32 [of edi 4] Suc.prems by simp
  have IH: "only_changes ?m (rep_stosd n (edi + 4) 0 ?m) (unat edi + 4) (unat edi + 4 + 4 * n)"
    "\<And>x. unat edi + 4 \<le> unat x \<Longrightarrow> unat x < unat edi + 4 + 4 * n \<Longrightarrow> rep_stosd n (edi + 4) 0 ?m x = 0"
    using Suc.IH [of "edi + 4" ?m] Suc.prems by (simp_all add: next_edi)
  have first: "only_changes m ?m (unat edi) (unat edi + 4)"
    using store32_only_changes [of "ucast edi" m 0] Suc.prems by simp
  have zero: "unat edi \<le> unat x \<Longrightarrow> unat x < unat edi + 4 \<Longrightarrow> ?m x = 0" for x
    by (rule store32_zero) (use Suc.prems in simp_all)
  have "only_changes m (rep_stosd n (edi + 4) 0 ?m) (unat edi) (unat edi + 4 * Suc n)"
    by (rule only_changes_trans [OF only_changes_mono [OF first] only_changes_mono [OF IH(1)]]) simp_all
  moreover have "rep_stosd n (edi + 4) 0 ?m x = 0" if "unat edi \<le> unat x" "unat x < unat edi + 4 * Suc n" for x
  proof (cases "unat x < unat edi + 4")
    case True
    with zero that only_changesD [OF IH(1)] show ?thesis by simp
  next
    case False
    with IH(2) that show ?thesis by simp
  qed
  ultimately show ?case by simp
qed

text \<open>The page directory: entry \<open>i\<close> maps the \<open>i\<close>-th 2 MiB to themselves.\<close>

lemma set_entries_result:
  "k + n = 512 \<Longrightarrow> ebx = of_nat k * 0x200000 \<Longrightarrow> edi = 0x3000 + of_nat (8 * k) \<Longrightarrow>
   only_changes m (set_entries n ebx edi m) (0x3000 + 8 * k) 0x4000 \<and>
     (\<forall>i. k \<le> i \<longrightarrow> i < 512 \<longrightarrow> load64 (set_entries n ebx edi m) (0x3000 + of_nat (8 * i)) =
       of_nat i * 0x200000 OR 0x83)"
proof (induction n arbitrary: k ebx edi m)
  case 0
  then show ?case by simp
next
  case (Suc n)
  let ?a = "0x3000 + of_nat (8 * k) :: u64" and ?e = "of_nat k * 0x200000 OR 0x83 :: u64"
  let ?m = "store64 m ?a ?e"
  have k: "k < 512" using Suc.prems(1) by simp
  have edi: "unat edi = 0x3000 + 8 * k"
    using unat_add32 [of "0x3000" "8 * k"] k by (simp add: Suc.prems(3))
  have a: "ucast edi = ?a" "unat ?a = 0x3000 + 8 * k"
    using ucast_add32 [of "0x3000" "8 * k"] unat_add_of_nat [of "0x3000" "8 * k"] k by (simp_all add: Suc.prems(3))
  have four: "ucast (edi + 4) = (ucast edi + 4 :: u64)"
    using ucast_add32 [of edi 4] edi k by simp
  have "unat ebx = k * 0x200000" using k by (simp add: Suc.prems(2) unat_word_ariths unat_of_nat take_bit_nat_eq_self)
  then have "ucast ebx = (of_nat k * 0x200000 :: u64)"
    using k by (intro word_unat_eq_iff [THEN iffD2]) (simp add: unat_word_ariths unat_of_nat take_bit_nat_eq_self)
  moreover have "(ucast (x OR y) :: u64) = ucast x OR ucast y" for x y :: u32
    by (rule bit_word_eqI) (auto simp: bit_simps)
  ultimately have e: "ucast (ebx OR 0x83) = ?e" by simp
  have body: "set_entries (Suc n) ebx edi m = set_entries n (ebx + 0x200000) (edi + 8) ?m"
    by (simp add: Let_def four store32_pair e) (simp add: a(1))
  have IH: "only_changes ?m (set_entries n (ebx + 0x200000) (edi + 8) ?m) (0x3000 + 8 * Suc k) 0x4000 \<and>
     (\<forall>i. Suc k \<le> i \<longrightarrow> i < 512 \<longrightarrow> load64 (set_entries n (ebx + 0x200000) (edi + 8) ?m) (0x3000 + of_nat (8 * i)) =
       of_nat i * 0x200000 OR 0x83)"
    by (rule Suc.IH) (use Suc.prems in \<open>simp_all add: algebra_simps\<close>)
  have first: "only_changes m ?m (0x3000 + 8 * k) (0x3000 + 8 * k + 8)"
    using store64_only_changes [of ?a m ?e] a(2) k by simp
  have chg: "only_changes m (set_entries (Suc n) ebx edi m) (0x3000 + 8 * k) 0x4000"
    unfolding body
    by (rule only_changes_trans [OF only_changes_mono [OF first] only_changes_mono [OF IH [THEN conjunct1]]]) (use k in simp_all)
  have "load64 (set_entries (Suc n) ebx edi m) ?a = ?e"
    unfolding body using load64_frame [OF IH [THEN conjunct1], of ?a] load64_store64_same [of ?a m ?e] a(2) k by simp
  with chg IH show ?case unfolding body by (auto simp: le_Suc_eq Suc_le_eq dest!: le_neq_implies_less)
qed


text \<open>The tables of the loader, entry by entry.\<close>

definition identity_tables :: "memory \<Rightarrow> bool" where
  "identity_tables m \<longleftrightarrow> (\<forall>i < 512. pte m 0x1000 i = (if i = 0 then 0x2003 else 0) \<and>
     pte m 0x2000 i = (if i = 0 then 0x3003 else 0) \<and> pte m 0x3000 i = i * 0x200000 OR 0x83)"

text \<open>The part of it that maps the first gigabyte; the rest of the root may be in use.\<close>

definition identity_map :: "memory \<Rightarrow> bool" where
  "identity_map m \<longleftrightarrow> pte m 0x1000 0 = 0x2003 \<and> pte m 0x2000 0 = 0x3003 \<and>
     (\<forall>i < 512. pte m 0x3000 i = i * 0x200000 OR 0x83)"

lemma identity_tables_map: "identity_tables m \<Longrightarrow> identity_map m"
  by (simp add: identity_tables_def identity_map_def)

lemma table_frames: "frame_addr 0x1000" "frame_addr 0x2000" "frame_addr 0x3000"
  by (simp_all add: frame_addr_def PT_ADDR_MASK_def)

lemma load64_zero:
  assumes "\<forall>x. lo \<le> unat x \<longrightarrow> unat x < hi \<longrightarrow> m x = 0" "lo \<le> unat a" "unat a + 8 \<le> hi" "hi \<le> 2 ^ 64"
  shows "load64 m a = 0"
proof -
  have "load64 m a = load64 (\<lambda>_. 0) a"
    by (rule load64_agree) (use assms in \<open>auto simp: agree_def\<close>)
  moreover have "load_bytes n (\<lambda>_. 0) a = (0 :: u64)" for n a by (induction n arbitrary: a) simp_all
  ultimately show ?thesis by (simp add: load64_def)
qed

lemma loader_tables_result:
  "only_changes m (loader_tables m) 0x1000 0x5000" "identity_tables (loader_tables m)"
proof -
  let ?m1 = "rep_stosd 4096 0x1000 0 m"
  let ?m2 = "store64 ?m1 0x1000 0x2003"
  let ?m3 = "store64 ?m2 0x2000 0x3003"
  let ?m = "set_entries 512 0 0x3000 ?m3"
  have tables: "loader_tables m = ?m"
    using store32_pair [of ?m1 "0x1000" "0x2003"] store32_pair [of ?m2 "0x2000" "0x3003"]
    by (simp add: loader_tables_def)
  note z = rep_stosd_zero [of "0x1000" 4096 m, simplified]
  note d = set_entries_result [of 0 512 0 "0x3000" ?m3, simplified]
  note c2 = store64_only_changes [of "0x1000" ?m1 "0x2003", simplified]
  note c3 = store64_only_changes [of "0x2000" ?m2 "0x3003", simplified]
  have "only_changes m ?m1 0x1000 0x5000" "only_changes ?m1 ?m2 0x1000 0x5000"
    "only_changes ?m2 ?m3 0x1000 0x5000" "only_changes ?m3 ?m 0x1000 0x5000"
    using z d by (auto intro: only_changes_mono [OF c2] only_changes_mono [OF c3] only_changes_mono)
  then show "only_changes m (loader_tables m) 0x1000 0x5000"
    unfolding tables by (blast intro: only_changes_trans)
  have zero: "pte ?m1 t i = 0" if "t = 0x1000 \<or> t = 0x2000" "i < 512" for t i
  proof -
    have "frame_addr t" using that(1) table_frames by blast
    from unat_entry_addr [OF this that(2)] have a: "unat (t + 8 * i) = unat t + 8 * unat i" .
    have "unat i < 512" using that(2) by (simp add: word_less_nat_alt)
    then show ?thesis
      unfolding pte_def using that(1) a z by (intro load64_zero [of "0x1000" "0x5000"]) auto
  qed
  have last: "pte ?m t i = pte ?m3 t i" if "t = 0x1000 \<or> t = 0x2000" "i < 512" for t i
    by (rule pte_frame [OF d [THEN conjunct1]]) (use that table_frames in auto)
  have idx: "(512 :: u64) > 0" by simp
  have e1: "pte ?m3 0x1000 i = (if i = 0 then 0x2003 else 0)" if "i < 512" for i
    using pte_store_other [OF table_frames(2) idx table_frames(1) that, of ?m2 "0x3003"]
      pte_store_same [OF table_frames(1) idx, of ?m1 "0x2003"]
      pte_store_other [OF table_frames(1) idx table_frames(1) that, of ?m1 "0x2003"] zero [of "0x1000" i] that
    by simp
  have e2: "pte ?m3 0x2000 i = (if i = 0 then 0x3003 else 0)" if "i < 512" for i
    using pte_store_same [OF table_frames(2) idx, of ?m2 "0x3003"]
      pte_store_other [OF table_frames(2) idx table_frames(2) that, of ?m2 "0x3003"]
      pte_store_other [OF table_frames(1) idx table_frames(2) that, of ?m1 "0x2003"] zero [of "0x2000" i] that
    by simp
  have e3: "pte ?m 0x3000 i = i * 0x200000 OR 0x83" if "i < 512" for i
  proof -
    have "unat i < 512" using that by (simp add: word_less_nat_alt)
    with d [THEN conjunct2, rule_format, of "unat i"] show ?thesis by (simp add: pte_def)
  qed
  show "identity_tables (loader_tables m)"
    unfolding tables identity_tables_def by (auto simp: last e1 e2 e3)
qed

text \<open>The copy of the kernel, from below to above.\<close>

lemma rep_movsb_result:
  "unat esi + n \<le> unat edi \<Longrightarrow> unat edi + n < 2 ^ 32 \<Longrightarrow>
   only_changes m (rep_movsb n esi edi m) (unat edi) (unat edi + n) \<and>
     (\<forall>i < n. rep_movsb n esi edi m (ucast edi + of_nat i) = m (ucast esi + of_nat i))"
proof (induction n arbitrary: esi edi m)
  case 0
  then show ?case by simp
next
  case (Suc n)
  let ?m = "m(ucast edi := m (ucast esi))"
  have nx: "unat (esi + 1) = unat esi + 1" "unat (edi + 1) = unat edi + 1"
    "ucast (esi + 1) = (ucast esi + 1 :: u64)" "ucast (edi + 1) = (ucast edi + 1 :: u64)"
    using unat_add32 [of esi 1] unat_add32 [of edi 1] ucast_add32 [of esi 1] ucast_add32 [of edi 1] Suc.prems
    by simp_all
  have pre: "unat (esi + 1) + n \<le> unat (edi + 1)" "unat (edi + 1) + n < 2 ^ 32"
    using Suc.prems by (simp_all add: nx)
  have IH: "only_changes ?m (rep_movsb n (esi + 1) (edi + 1) ?m) (unat edi + 1) (unat edi + 1 + n)"
    "\<And>i. i < n \<Longrightarrow> rep_movsb n (esi + 1) (edi + 1) ?m (ucast edi + 1 + of_nat i) = ?m (ucast esi + 1 + of_nat i)"
    using Suc.IH [OF pre, of ?m, unfolded nx] by blast+
  have first: "only_changes m ?m (unat edi) (unat edi + 1)"
    using store8_only_changes [of m "ucast edi"] by simp
  have "only_changes m (rep_movsb n (esi + 1) (edi + 1) ?m) (unat edi) (unat edi + Suc n)"
    by (rule only_changes_trans [OF only_changes_mono [OF first] only_changes_mono [OF IH(1)]]) simp_all
  moreover have "rep_movsb n (esi + 1) (edi + 1) ?m (ucast edi + of_nat i) = m (ucast esi + of_nat i)"
    if i: "i < Suc n" for i
  proof (cases i)
    case 0
    then show ?thesis using only_changesD [OF IH(1), of "ucast edi"] by simp
  next
    case (Suc j)
    have "unat (ucast esi + 1 + of_nat j :: u64) = unat esi + 1 + j"
      using unat_add_of_nat [of "ucast esi :: u64" "1 + j"] Suc i Suc.prems by (simp add: add.assoc)
    then have "(ucast esi + 1 + of_nat j :: u64) \<noteq> ucast edi"
      using Suc i Suc.prems by (auto simp: word_unat_eq_iff)
    with IH(2) [of j] Suc i show ?thesis by (simp add: add.assoc)
  qed
  ultimately show ?case by simp
qed


section \<open>The processor on these tables\<close>

lemma index_bits:
  "unat v < 2 ^ 30 \<longleftrightarrow> (\<forall>n. bit v n \<longrightarrow> n < 30)" "unat v < 2 ^ 48 \<longleftrightarrow> (\<forall>n. bit v n \<longrightarrow> n < 48)" for v :: u64
proof -
  have "unat v < 2 ^ k \<longleftrightarrow> (\<forall>n. bit v n \<longrightarrow> n < k)" for k
  proof -
    have "unat v < 2 ^ k \<longleftrightarrow> take_bit k (unat v) = unat v" by (simp add: take_bit_nat_eq_self_iff)
    also have "\<dots> \<longleftrightarrow> take_bit k v = v" by (metis unsigned_take_bit_eq unsigned_word_eqI)
    also have "\<dots> \<longleftrightarrow> (\<forall>n. bit v n \<longrightarrow> n < k)"
      by (metis bit_take_bit_iff bit_word_eqI)
    finally show ?thesis .
  qed
  then show "unat v < 2 ^ 30 \<longleftrightarrow> (\<forall>n. bit v n \<longrightarrow> n < 30)" "unat v < 2 ^ 48 \<longleftrightarrow> (\<forall>n. bit v n \<longrightarrow> n < 48)" by blast+
qed

lemma low_indices:
  assumes "unat v < 2 ^ 30"
  shows "PML4_INDEX v = 0" "PDPT_INDEX v = 0"
  using assms unfolding index_bits by (auto simp: bit_eq_iff bit_index)

lemma high_indices:
  assumes "unat v < 2 ^ 48" "\<not> unat v < 2 ^ 30"
  shows "PML4_INDEX v \<noteq> 0 \<or> PDPT_INDEX v \<noteq> 0"
proof -
  from assms obtain n where n: "bit v n" "30 \<le> n" "n < 48" unfolding index_bits by (auto simp: not_less)
  then have "bit (PDPT_INDEX v) (n - 30) \<or> bit (PML4_INDEX v) (n - 39)"
    by (auto simp: bit_index)
  then show ?thesis by auto
qed

text \<open>The entry of the page directory for an address, and the two ways of reading it.\<close>

abbreviation large_entry :: "u64 \<Rightarrow> pte_t" where
  "large_entry v \<equiv> PD_INDEX v * 0x200000 OR 0x83"

lemma bit_0x83: "bit (0x83 :: u64) n \<longleftrightarrow> n = 0 \<or> n = 1 \<or> n = 7"
proof -
  have "(0x83 :: u64) = push_bit 0 1 OR push_bit 1 1 OR push_bit 7 1" by simp
  then show ?thesis by (simp only: bit_or_iff bit_push_bit_iff bit_1_iff) auto
qed

lemma bit_large_entry: "bit (large_entry v) n \<longleftrightarrow> 21 \<le> n \<and> n < 30 \<and> bit v n \<or> n = 0 \<or> n = 1 \<or> n = 7"
proof -
  have "PD_INDEX v * 0x200000 = push_bit 21 (PD_INDEX v)" by (simp add: push_bit_eq_mult)
  then have "bit (PD_INDEX v * 0x200000) n \<longleftrightarrow> 21 \<le> n \<and> n < 30 \<and> bit v n"
    by (auto simp: bit_simps bit_index)
  then show ?thesis by (simp only: bit_or_iff bit_0x83)
qed

lemma large_entry_facts:
  assumes "unat v < 2 ^ 30"
  shows "present (large_entry v)" "bit (large_entry v) 7"
    "(large_entry v AND 0x000FFFFFFFE00000) + (v AND 0x1FFFFF) = v"
    "pt_addr (large_entry v) = v AND NOT 0x1FFFFF"
proof -
  define e where "e = large_entry v"
  have be: "bit e n \<longleftrightarrow> 21 \<le> n \<and> n < 30 \<and> bit v n \<or> n = 0 \<or> n = 1 \<or> n = 7" for n
    unfolding e_def by (rule bit_large_entry)
  show "present (large_entry v)" "bit (large_entry v) 7"
    unfolding e_def [symmetric] by (simp_all add: present_iff be)
  have "bit (push_bit 21 (mask 31) :: u64) n \<longleftrightarrow> 21 \<le> n \<and> n < 52" for n
    by (auto simp: bit_simps)
  then have hi: "bit (0x000FFFFFFFE00000 :: u64) n \<longleftrightarrow> 21 \<le> n \<and> n < 52" for n
    by (simp add: mask_eq_exp_minus_1 push_bit_eq_mult)
  have lo: "(0x1FFFFF :: u64) = mask 21" by (simp add: mask_eq_exp_minus_1)
  have bits: "bit v n \<Longrightarrow> n < 30" for n using assms unfolding index_bits by blast
  have "(e AND 0x000FFFFFFFE00000) + (v AND 0x1FFFFF)
      = (e AND 0x000FFFFFFFE00000) OR (v AND 0x1FFFFF)"
    by (rule disjunctive_add) (simp only: bit_and_iff hi lo bit_mask_iff, linarith)
  also have "\<dots> = v"
    by (rule bit_word_eqI) (simp only: bit_or_iff bit_and_iff hi lo bit_mask_iff be, auto dest: bits)
  finally show "(large_entry v AND 0x000FFFFFFFE00000) + (v AND 0x1FFFFF) = v"
    unfolding e_def .
  show "pt_addr (large_entry v) = v AND NOT 0x1FFFFF"
    unfolding e_def [symmetric]
    by (rule bit_word_eqI) (auto simp: bit_and_iff bit_not_iff lo bit_mask_iff be bit_PT_ADDR_MASK dest: bits)
qed

lemma root_entries:
  "pt_addr 0x1000 = 0x1000" "pt_addr 0x2003 = 0x2000" "pt_addr 0x3003 = 0x3000"
  "(0x2003 :: u64) AND PT_PRESENT \<noteq> 0" "(0x3003 :: u64) AND PT_PRESENT \<noteq> 0" "\<not> bit (0x3003 :: u64) 7"
  by (simp_all add: PT_ADDR_MASK_def PT_PRESENT_def)

lemma identity_translate:
  assumes "identity_map m" "unat v < 2 ^ 30"
  shows "mmu_translate m 0x1000 v = Some v"
  using assms(1) large_entry_facts [OF assms(2)] root_entries
  by (simp add: mmu_translate_def Let_def low_indices [OF assms(2)] identity_map_def)

lemma identity_translate_above:
  assumes "identity_tables m" "unat v < 2 ^ 48" "\<not> unat v < 2 ^ 30"
  shows "mmu_translate m 0x1000 v = None"
proof -
  have "pte m 0x1000 (PML4_INDEX v) = (if PML4_INDEX v = 0 then 0x2003 else 0)"
    "pte m 0x2000 (PDPT_INDEX v) = (if PDPT_INDEX v = 0 then 0x3003 else 0)"
    using assms(1) index_less unfolding identity_tables_def by blast+
  with high_indices [OF assms(2,3)] root_entries show ?thesis
    by (auto simp: mmu_translate_def Let_def)
qed

lemma identity_map_frame:
  assumes "identity_map m" "only_changes m m' lo hi" "hi \<le> 0x1000 \<or> 0x4000 \<le> lo"
  shows "identity_map m'"
proof -
  have "pte m' t i = pte m t i" if "i < 512" "t = 0x1000 \<or> t = 0x2000 \<or> t = 0x3000" for t i
    by (rule pte_frame [OF assms(2)]) (use that table_frames assms(3) in auto)
  with assms(1) show ?thesis unfolding identity_map_def by simp
qed

text \<open>The page mapper's walk takes the large page for a table.\<close>

lemma identity_walk:
  assumes "identity_map m" "unat v < 2 ^ 30"
  shows "present (pte m 0x1000 (PML4_INDEX v))" "pt_addr (pte m 0x1000 (PML4_INDEX v)) = 0x2000"
    "present (pte m 0x2000 (PDPT_INDEX v))" "pt_addr (pte m 0x2000 (PDPT_INDEX v)) = 0x3000"
    "present (pte m 0x3000 (PD_INDEX v))" "pt_addr (pte m 0x3000 (PD_INDEX v)) = v AND NOT 0x1FFFFF"
proof -
  have e: "pte m 0x1000 (PML4_INDEX v) = 0x2003" "pte m 0x2000 (PDPT_INDEX v) = 0x3003"
    "pte m 0x3000 (PD_INDEX v) = large_entry v"
    using assms(1) index_less low_indices [OF assms(2)] unfolding identity_map_def by simp_all
  show "present (pte m 0x1000 (PML4_INDEX v))" "pt_addr (pte m 0x1000 (PML4_INDEX v)) = 0x2000"
    "present (pte m 0x2000 (PDPT_INDEX v))" "pt_addr (pte m 0x2000 (PDPT_INDEX v)) = 0x3000"
    "present (pte m 0x3000 (PD_INDEX v))" "pt_addr (pte m 0x3000 (PD_INDEX v)) = v AND NOT 0x1FFFFF"
    unfolding e using large_entry_facts [OF assms(2)] by (simp_all add: PT_PRESENT_def PT_ADDR_MASK_def)
qed

lemma large_base:
  "v AND NOT 0x1FFFFF = 0 \<longleftrightarrow> unat v < 0x200000" "\<not> unat v < 0x200000 \<Longrightarrow> 0x200000 \<le> unat (v AND NOT 0x1FFFFF)"
  "unat (v AND NOT 0x1FFFFF) \<le> unat v" for v :: u64
proof -
  have m: "(0x1FFFFF :: u64) = mask 21" by (simp add: mask_eq_exp_minus_1)
  have "v AND NOT 0x1FFFFF = push_bit 21 (drop_bit 21 v)"
    unfolding m by (rule bit_word_eqI) (auto simp: bit_simps)
  then have "v AND NOT 0x1FFFFF = v div 0x200000 * 0x200000"
    by (simp add: push_bit_eq_mult drop_bit_eq_div)
  moreover have "unat (v div 0x200000) = unat v div 0x200000" by (simp add: unat_div)
  moreover have "unat v div 0x200000 * 0x200000 < 2 ^ 64"
    by (rule le_less_trans [OF div_times_less_eq_dividend]) simp
  ultimately have u: "unat (v AND NOT 0x1FFFFF) = unat v div 0x200000 * 0x200000"
    using unat_mult_no_wrap [of "v div 0x200000" "0x200000"] by simp
  show "v AND NOT 0x1FFFFF = 0 \<longleftrightarrow> unat v < 0x200000"
    unfolding word_unat_eq_iff [of "v AND NOT 0x1FFFFF"] u by (simp add: div_eq_0_iff)
  show "\<not> unat v < 0x200000 \<Longrightarrow> 0x200000 \<le> unat (v AND NOT 0x1FFFFF)" using u by simp
  show "unat (v AND NOT 0x1FFFFF) \<le> unat v" using u by simp
qed

section \<open>Properties\<close>

text \<open>
  C10: The loader leaves tables that map the first gigabyte to itself and nothing above it, with
  CR3 at their root; the kernel is copied whole to 1 MiB before the tables overwrite the place
  it was read to; the rest of memory is left alone.
\<close>

theorem loader_maps_identity:
  assumes "unat KernelSize \<le> 0xFFB00"
  shows "cr3 (LoaderEntry32 KernelSize s) = 0x1000 \<and>
    (\<forall>v. unat v < 2 ^ 48 \<longrightarrow>
       mmu_translate (mem (LoaderEntry32 KernelSize s)) 0x1000 v = (if unat v < 2 ^ 30 then Some v else None)) \<and>
    (\<forall>i < unat KernelSize. mem (LoaderEntry32 KernelSize s) (0x100000 + of_nat i) = mem s (0x500 + of_nat i)) \<and>
    (\<forall>x. unat x < 0x1000 \<or> 0x5000 \<le> unat x \<and> unat x < 0x100000 \<or> 0x100000 + unat KernelSize \<le> unat x \<longrightarrow>
       mem (LoaderEntry32 KernelSize s) x = mem s x)"
proof -
  let ?n = "unat KernelSize" and ?m = "rep_movsb (unat KernelSize) 0x500 0x100000 (mem s)"
  have l: "mem (LoaderEntry32 KernelSize s) = loader_tables ?m" "cr3 (LoaderEntry32 KernelSize s) = 0x1000"
    by (simp_all add: LoaderEntry32_def)
  from rep_movsb_result [of "0x500" ?n "0x100000" "mem s"] assms
  have copy: "only_changes (mem s) ?m 0x100000 (0x100000 + ?n)"
    "\<And>i. i < ?n \<Longrightarrow> ?m (0x100000 + of_nat i) = mem s (0x500 + of_nat i)" by simp_all
  note t = loader_tables_result [of ?m]
  have "loader_tables ?m (0x100000 + of_nat i) = mem s (0x500 + of_nat i)" if "i < ?n" for i
  proof -
    have "unat (0x100000 + of_nat i :: u64) = 0x100000 + i"
      using unat_add_of_nat [of "0x100000" i] that assms by simp
    with only_changesD [OF t(1)] copy(2) [OF that] show ?thesis by simp
  qed
  moreover have "loader_tables ?m x = mem s x"
    if "unat x < 0x1000 \<or> 0x5000 \<le> unat x \<and> unat x < 0x100000 \<or> 0x100000 + ?n \<le> unat x" for x
    using only_changesD [OF t(1), of x] only_changesD [OF copy(1), of x] that by auto
  ultimately show ?thesis
    unfolding l using identity_translate [OF identity_tables_map [OF t(2)]] identity_translate_above [OF t(2)]
    by (auto simp: not_less)
qed

theorem loader_maps_identity_witness:
  "mmu_translate (mem (LoaderEntry32 0x20000 example_vmm)) 0x1000 0xB8000 = Some 0xB8000 \<and>
   mmu_translate (mem (LoaderEntry32 0x20000 example_vmm)) 0x1000 0x40000000 = None \<and>
   mem (LoaderEntry32 0x20000 example_vmm) 0x1A0000 = 0"
proof -
  have "mem example_vmm 0x1A0000 = 0" by (simp add: example_vmm_fields) (simp add: example_pmm_def)
  with loader_maps_identity [of "0x20000" example_vmm] show ?thesis by simp
qed

text \<open>
  C15: The page mapper does not know large pages. On the loader's tables a request for an address
  of the first gigabyte never has an effect on its translation: below 2 MiB \<open>vmm_map_page\<close> fails
  although memory need not be full; above, it reports success but has written the entry into the
  very 2 MiB of memory the address lies in, and the lookup reads its answer from there.
\<close>

theorem vmm_ignores_large_pages:
  assumes "identity_map (mem s)" "pml4 s = 0x1000" "unat v < 2 ^ 30"
  shows "vmm_map_page v phys flags s = (if unat v < 0x200000 then (False, s)
      else (True, invlpg v (s\<lparr>mem := store64 (mem s) ((v AND NOT 0x1FFFFF) + 8 * PT_INDEX v)
        ((phys AND PT_ADDR_MASK) OR flags OR PT_PRESENT)\<rparr>))) \<and>
    mmu_translate (mem (snd (vmm_map_page v phys flags s))) 0x1000 v = Some v \<and>
    vmm_get_physical v s = (let e = load64 (mem s) ((v AND NOT 0x1FFFFF) + 8 * PT_INDEX v)
      in if e AND PT_PRESENT = 0 then 0 else (e AND PT_ADDR_MASK) + (v AND 0xFFF))"
proof (intro conjI)
  note walk = identity_walk [OF assms(1,3)]
  note base = large_base [of v]
  let ?a = "(v AND NOT 0x1FFFFF) + 8 * PT_INDEX v" and ?e = "(phys AND PT_ADDR_MASK) OR flags OR PT_PRESENT"
  show result: "vmm_map_page v phys flags s = (if unat v < 0x200000 then (False, s)
      else (True, invlpg v (s\<lparr>mem := store64 (mem s) ?a ?e\<rparr>)))"
    using walk base(1) by (simp add: vmm_map_page_def get_or_create_table_def assms(2) set_pte_def)
  have "identity_map (store64 (mem s) ?a ?e)" if big: "\<not> unat v < 0x200000"
  proof -
    have fa: "frame_addr (v AND NOT 0x1FFFFF)"
      using walk(6) frame_addr_pt_addr [of "pte (mem s) 0x3000 (PD_INDEX v)"] by simp
    from unat_entry_addr [OF this index_less(4)]
    have "unat ?a = unat (v AND NOT 0x1FFFFF) + 8 * unat (PT_INDEX v)" .
    moreover have "unat (PT_INDEX v) < 512" using index_less(4) [of v] by (simp add: word_less_nat_alt)
    ultimately have "0x200000 \<le> unat ?a" "unat ?a + 8 \<le> 2 ^ 64" using base(2) [OF big] base(3) assms(3) by simp_all
    from identity_map_frame [OF assms(1) store64_only_changes [OF this(2)]] this(1) show ?thesis by simp
  qed
  with assms(1) have "identity_map (mem (snd (vmm_map_page v phys flags s)))"
    unfolding result by simp
  from identity_translate [OF this assms(3)]
  show "mmu_translate (mem (snd (vmm_map_page v phys flags s))) 0x1000 v = Some v" .
  show "vmm_get_physical v s = (let e = load64 (mem s) ?a
      in if e AND PT_PRESENT = 0 then 0 else (e AND PT_ADDR_MASK) + (v AND 0xFFF))"
    using walk by (simp add: vmm_get_physical_def assms(2) pte_def Let_def)
qed

theorem vmm_ignores_large_pages_witness:
  "fst (vmm_map_page 0x100000 0x700000 PT_WRITABLE (LoaderEntry32 0 example_vmm)) = False \<and>
   fst (vmm_map_page 0x400000 0x700000 PT_WRITABLE (LoaderEntry32 0 example_vmm)) = True \<and>
   mmu_translate (mem (snd (vmm_map_page 0x400000 0x700000 PT_WRITABLE (LoaderEntry32 0 example_vmm)))) 0x1000
     0x400000 = Some 0x400000"
proof -
  let ?s = "LoaderEntry32 0 example_vmm"
  have "identity_map (mem (LoaderEntry32 0 example_vmm))"
    using identity_tables_map [OF loader_tables_result(2)] by (simp add: LoaderEntry32_def)
  moreover have "pml4 (LoaderEntry32 0 example_vmm) = 0x1000"
    by (simp add: LoaderEntry32_def example_vmm_fields)
  ultimately have t: "unat v < 2 ^ 30 \<Longrightarrow> fst (vmm_map_page v 0x700000 PT_WRITABLE ?s) = (\<not> unat v < 0x200000) \<and>
      mmu_translate (mem (snd (vmm_map_page v 0x700000 PT_WRITABLE ?s))) 0x1000 v = Some v" for v
    using vmm_ignores_large_pages [of ?s v "0x700000" PT_WRITABLE] by (cases "unat v < 0x200000") auto
  from t [of "0x100000"] t [of "0x400000"] show ?thesis by simp
qed

end
