(* ===== verification/System.thy ===== *)
theory System
  imports KMain Boot
begin

text \<open>
  The machine after the boot: the loader's tables under the page mapper, the page allocator and
  the heap as \<open>kMain\<close> leaves them. The lemmas show that the contract of the page mapper holds
  there for every address outside the first entry of the root, and follow the first request
  for such an address, whose table is the page the heap starts in.
\<close>

section \<open>The state after the boot\<close>

definition booted :: "'a heap_scheme \<Rightarrow> bool" where
  "booted s \<longleftrightarrow> identity_tables (mem s) \<and> pml4 s = 0x1000 \<and> cr3 s = 0x1000 \<and> pages_ready s \<and>
     heap_rep s [Block 524264 True]"

text \<open>What the loader has to find: a UART that works and the kernel's variables clear.\<close>

definition power_on :: "'a heap_scheme \<Rightarrow> bool" where
  "power_on s \<longleftrightarrow> uart_live s \<and> used_pages s = 0 \<and> total_allocated s = 0"

lemma boot_booted:
  assumes "power_on s" "\<forall>n. length (junk n) = 32" "length buffer = 32"
  shows "\<exists>s'. kMain junk buffer (LoaderEntry32 KernelSize s) = Some s' \<and> booted s'"
proof -
  let ?s = "LoaderEntry32 KernelSize s" and ?L = "(mem (LoaderEntry32 KernelSize s), 0x1000 :: u64)"
  have "entry_state ?L ?s"
    using assms(1) by (simp add: power_on_def entry_state_def low_kept_def agree_def LoaderEntry32_def uart_live_def)
  from kMain_result [OF this assms(2,3)] obtain s' where s': "kMain junk buffer ?s = Some s'"
      "stage ?L (chars (hello_text @ done_text)) True True s'" by blast
  have "identity_tables (mem ?s)" by (simp add: LoaderEntry32_def loader_tables_result(2))
  moreover have kept: "agree (mem ?s) (mem s') 0 0xB8000" "cr3 s' = 0x1000"
    using s'(2) by (simp_all add: stage_def low_kept_def)
  have "pte (mem s') t i = pte (mem ?s) t i" if "i < 512" "t = 0x1000 \<or> t = 0x2000 \<or> t = 0x3000" for t i
  proof -
    have "frame_addr t" using that(2) table_frames by blast
    from unat_entry_addr [OF this that(1)] have "unat (t + 8 * i) = unat t + 8 * unat i" .
    moreover have "unat i < 512" using that(1) by (simp add: word_less_nat_alt)
    ultimately show ?thesis
      unfolding pte_def using that(2) kept(1)
      by (intro load64_agree) (auto intro: agree_sym agree_sub)
  qed
  ultimately have "identity_tables (mem s')" unfolding identity_tables_def by simp
  with s' kept(2) show ?thesis by (auto simp: booted_def stage_def)
qed

section \<open>The page mapper after the boot\<close>

abbreviation upper :: "u64 set" where
  "upper \<equiv> {i. i \<noteq> 0}"

lemma booted_root:
  assumes "booted s" "i < 512"
  shows "pte (mem s) 0x1000 i = (if i = 0 then 0x2003 else 0)"
  using assms unfolding booted_def identity_tables_def by blast

lemma booted_walk:
  assumes "booted s" "ps \<in> paths upper"
  shows "walk (mem s) 0x1000 ps = None"
  using assms(2) booted_root [OF assms(1)] by (cases ps) (auto simp: paths_def)

lemma booted_wf:
  assumes "booted s"
  shows "vmm_wf upper s" "small_tree upper (mem s) (pml4 s)"
proof -
  have pr: "pages_ready s" and root: "pml4 s = 0x1000" using assms by (simp_all add: booted_def)
  have "reserved 0x100000 = {p. p < 0x180}"
    by (simp add: reserved_segment reserved_end_def bitmap_pages_def)
  then have "pmm_inv s"
    using pr by (auto simp: pmm_inv_allocated pages_ready_def)
  moreover have "table_page s 0x1000"
    using pr by (simp add: table_page_def pages_ready_def PAGE_SIZE_def)
  ultimately show "vmm_wf upper s"
    unfolding vmm_wf_def root using table_frames(1) booted_walk [OF assms] by simp
  have "\<not> present (pte (mem s) t i)" if "ps @ [i] \<in> paths upper" "walk (mem s) 0x1000 ps = Some t" for ps i t
  proof (cases "ps = []")
    case True
    with that booted_root [OF assms, of i] show ?thesis by (auto simp: paths_def PT_PRESENT_def)
  next
    case False
    with paths_snoc [OF that(1)] that(2) booted_walk [OF assms, of ps] show ?thesis by simp
  qed
  then show "small_tree upper (mem s) (pml4 s)" unfolding clear_tree_def root by blast
qed

lemma booted_pages: "booted s \<Longrightarrow> card (allocated s) = 0x180 \<and> unat (total_pages s) = 0x100000"
  by (simp add: booted_def pages_ready_def card_segment)

text \<open>Nothing above the first gigabyte is mapped yet.\<close>

lemma booted_lookup:
  assumes "booted s" "PML4_INDEX w \<noteq> 0"
  shows "vmm_lookup s w = None"
  using booted_walk [OF assms(1) path_of_paths] assms by (simp add: vmm_lookup_def leaf_def booted_def)

text \<open>A request for an upper address leaves the loader's map alone.\<close>

lemma booted_tables: "booted s \<Longrightarrow> tables upper s = {0x1000}"
  using booted_walk [of s] by (auto simp: tables_def booted_def)

lemma booted_map_identity:
  assumes "booted s" "PML4_INDEX v \<noteq> 0" "vmm_map_page v phys flags s = (ok, s')"
  shows "identity_map (mem s')"
proof -
  note wf = booted_wf(1) [OF assms(1)]
  have root: "pml4 s = 0x1000" and pr: "pages_ready s" and id: "identity_map (mem s)"
    using assms(1) by (simp_all add: booted_def identity_tables_map)
  have v: "PML4_INDEX v \<in> upper" using assms(2) by simp
  note keeps = vmm_map_keeps_entries(1) [OF wf v assms(3), unfolded root]
  have "pte (mem s') 0x1000 0 = pte (mem s) 0x1000 0"
    using keeps_entriesD(2) [OF keeps, of "[]" "0x1000" 0] assms(2) by (simp add: path_of_def)
  moreover have "pte (mem s') t i = pte (mem s) t i" if t: "t = 0x2000 \<or> t = 0x3000" and i: "i < 512" for t i
  proof -
    have "frame_addr t" using t table_frames by blast
    from unat_entry_addr [OF this i] have a: "unat (t + 8 * i) = unat t + 8 * unat i" .
    have i': "unat i < 512" using i by (simp add: word_less_nat_alt)
    have "mem s' x = mem s x" if x: "unat t \<le> unat x" "unat x < unat t + 4096" for x
    proof -
      have "unat (x div PAGE_SIZE) < 0x180" using x t by (auto simp: unat_div PAGE_SIZE_def)
      then have "x div PAGE_SIZE \<in> allocated s" using pr by (simp add: pages_ready_def word_less_nat_alt)
      then have "untouched upper s x"
        using x t by (auto simp: untouched_def booted_tables [OF assms(1)])
      then show ?thesis
        using vmm_map_result [OF wf v assms(3)] by (auto simp: grows_def)
    qed
    then show ?thesis
      unfolding pte_def using a i' t by (intro load64_agree) (auto simp: agree_def)
  qed
  ultimately show ?thesis using id unfolding identity_map_def by simp
qed

lemma booted_map_ok:
  assumes "booted s" "PML4_INDEX v \<noteq> 0"
  shows "\<exists>s'. vmm_map_page v phys flags s = (True, s')"
proof -
  obtain ok s' where r: "vmm_map_page v phys flags s = (ok, s')" by fastforce
  have v: "PML4_INDEX v \<in> upper" using assms(2) by simp
  note res = vmm_map_result [OF booted_wf(1) [OF assms(1)] v r]
  have "card {p. p < total_pages s} \<le> card (allocated s')" if "\<not> ok"
    using res that by (intro card_mono) auto
  with res booted_pages [OF assms(1)] r show ?thesis
    by (cases ok) (auto simp: card_segment grows_def)
qed

section \<open>The page where the heap starts\<close>

lemma vmm_map_after_table:
  assumes "get_or_create_table (pml4 s) (PML4_INDEX v) PT_WRITABLE s = (q, s1)"
    "get_or_create_table (pml4 s1) (PML4_INDEX v) PT_WRITABLE s1 = (q, s1)"
  shows "vmm_map_page v phys flags s = vmm_map_page v phys flags s1"
  by (simp add: vmm_map_page_def assms)

text \<open>The first table for an upper address is the page at 0x180000, cleared.\<close>

lemma booted_first_table:
  assumes "booted s" "PML4_INDEX v \<noteq> 0"
  obtains s1 where "get_or_create_table (pml4 s) (PML4_INDEX v) PT_WRITABLE s = (0x180000, s1)"
    "\<forall>j < 512. pte (mem s1) 0x180000 j = 0"
proof -
  have root: "pml4 s = 0x1000" and pr: "pages_ready s" using assms(1) by (simp_all add: booted_def)
  have f: "frame_addr 0x180000" by (simp add: frame_addr_def PT_ADDR_MASK_def)
  from clear_table [OF f, of "mark_page 0x180 s"] obtain m where
    m: "for_loop 0 512 (\<lambda>i. set_pte 0x180000 i 0) (mark_page 0x180 s) = (mark_page 0x180 s)\<lparr>mem := m\<rparr>"
      "\<forall>i < 512. pte m 0x180000 i = 0" by blast
  have absent: "\<not> present (pte (mem s) 0x1000 (PML4_INDEX v))"
    using booted_root [OF assms(1) index_less(1)] assms(2) by (simp add: PT_PRESENT_def)
  let ?e = "0x180000 OR PT_WRITABLE OR PT_PRESENT"
  let ?s = "set_pte 0x1000 (PML4_INDEX v) ?e ((mark_page 0x180 s)\<lparr>mem := m\<rparr>)"
  have "get_or_create_table (pml4 s) (PML4_INDEX v) PT_WRITABLE s = (0x180000, ?s)"
    unfolding root using absent
    by (simp add: get_or_create_table_def alloc_page_table_def alloc_ready(1) [OF pr] m(1))
  moreover have "pte (mem ?s) 0x180000 j = 0" if "j < 512" for j
    using m(2) that pte_store_other [OF table_frames(1) index_less(1) f that, of v m ?e] by (simp add: set_pte_def)
  ultimately show thesis using that by blast
qed

lemma load64_byte:
  assumes "load64 m a = 0"
  shows "m a = 0"
proof -
  have "load64 m a = ucast (m a) OR push_bit 8 (load_bytes 7 m (a + 1))"
  proof -
    have "(8 :: nat) = Suc 7" by simp
    then show ?thesis unfolding load64_def by (simp only: load_bytes.simps)
  qed
  then have "bit (load64 m a) n \<longleftrightarrow> bit (m a) n" if "n < 8" for n
    using that by (simp add: bit_or_iff bit_push_bit_iff bit_ucast_iff)
  with assms show ?thesis by (intro bit_word_eqI) simp
qed

lemma booted_map_header:
  assumes "booted s" "PML4_INDEX v \<noteq> 0" "PDPT_INDEX v \<noteq> 1" "PDPT_INDEX v \<noteq> 2"
    and map: "vmm_map_page v phys flags s = (ok, s')"
  shows "\<not> blk_is_free (mem s') HEAP_START" "blk_next (mem s') HEAP_START = 0" "heap_start s' = HEAP_START"
proof -
  note wf = booted_wf(1) [OF assms(1)]
  have v: "PML4_INDEX v \<in> upper" using assms(2) by simp
  obtain s1 where s1: "get_or_create_table (pml4 s) (PML4_INDEX v) PT_WRITABLE s = (0x180000, s1)"
    "\<forall>j < 512. pte (mem s1) 0x180000 j = 0"
    using booted_first_table [OF assms(1,2)] by blast
  have "[] \<in> insert [] (paths upper)" "walk (mem s) (pml4 s) [] = Some (pml4 s)" "length ([] :: u64 list) \<le> 2"
    "prefix ([] @ [PML4_INDEX v]) [PML4_INDEX v]" by simp_all
  from get_or_create_table_prepares [OF wf this(1,2) path_prefixes(1) [OF v] this(3,4) s1(1)]
  have wf1: "vmm_wf upper s1" and root: "pml4 s1 = pml4 s"
    and w: "walk (mem s1) (pml4 s1) [PML4_INDEX v] = Some 0x180000"
    by (auto simp: prepared_def simp del: walk.simps(2))
  then have "get_or_create_table (pml4 s1) (PML4_INDEX v) PT_WRITABLE s1 = (0x180000, s1)"
    by (simp add: get_or_create_table_def split: if_splits)
  from map vmm_map_after_table [OF s1(1) this, of phys flags]
  have "vmm_map_page v phys flags s1 = (ok, s')" by simp
  note keeps = vmm_map_keeps_entries(1) [OF wf1 v this]
  have p: "[PML4_INDEX v] \<in> insert [] (paths upper)" using path_prefixes(1) [OF v] by simp
  have "pte (mem s') 0x180000 j = 0" if "j = 1 \<or> j = 2" for j
    using keeps_entriesD(2) [OF keeps p w, of j] s1(2) that assms(3,4) by (auto simp: path_of_def)
  from this [of 1] this [of 2] have z: "load64 (mem s') 0x180008 = 0" "load64 (mem s') 0x180010 = 0"
    by (simp_all add: pte_def)
  from load64_byte [OF z(1)] show "\<not> blk_is_free (mem s') HEAP_START"
    by (simp add: blk_is_free_def HEAP_START_def)
  show "blk_next (mem s') HEAP_START = 0" using z(2) by (simp add: blk_next_def HEAP_START_def)
  obtain m n i where "s' = s\<lparr>mem := m, used_pages := n, invlpgs := i\<rparr>"
    using vmm_map_keeps_entries(2) [OF wf v map] by blast
  then show "heap_start s' = HEAP_START"
    using assms(1) heap_repD(1) [of s "[Block 524264 True]"] by (simp add: booted_def)
qed

lemma kmalloc_without_free_block:
  assumes "heap_start s = HEAP_START" "\<not> blk_is_free (mem s) HEAP_START" "blk_next (mem s) HEAP_START = 0"
  shows "kmalloc sz s = Some (0, s)"
proof -
  have "HEAP_START \<noteq> 0" by (simp add: HEAP_START_def)
  then have "kmalloc_from HEAP_START sz s = Some (0, s)" for sz
    using assms(2,3) kmalloc_from.simps [of HEAP_START sz s] kmalloc_from.simps [of 0 sz s] by simp
  then show ?thesis by (simp add: kmalloc_def assms(1))
qed

end
