(* ===== verification/Cpp.thy ===== *)
theory Cpp
  imports Prelude
begin

text \<open>
  The part of the C preprocessor and of C's constant expressions that the sources
  under \<open>clang/lib/Headers\<close> rely on: the state after a prefix of a header (its macros
  and its type names), one function per directive, the expansion of a macro and the
  typed evaluation of a constant expression. It is the language the header theories
  are written in; nothing here is specific to one header.
\<close>

section \<open>Identifiers\<close>

text \<open>
  An identifier that carries a width is a constructor applied to the width:
  \<open>INT_TYPE n\<close> is \<open>__INTn_TYPE__\<close>, \<open>INT_C_SUFFIX n\<close> is \<open>__INTn_C_SUFFIX__\<close>, \<open>int_t n\<close> is
  \<open>intn_t\<close>, \<open>int_least n\<close> is \<open>__int_leastn_t\<close> and \<open>int_least_t n\<close> the public \<open>int_leastn_t\<close>,
  \<open>int_c_suffix n\<close> is \<open>__intn_c_suffix\<close>, \<open>INT_C n\<close> is \<open>INTn_C\<close>, \<open>INT_MAX n\<close> is \<open>INTn_MAX\<close>,
  \<open>least_max n\<close> is \<open>__INT_LEASTn_MAX\<close> and \<open>INT_LEAST_MAX n\<close> the public \<open>INT_LEASTn_MAX\<close>, and
  so on; every other identifier is \<open>Plain\<close> with its spelling.
\<close>

datatype name =
    INT_TYPE nat | UINT_TYPE nat | INT_C_SUFFIX nat
  | int_t nat | uint_t nat | int_least nat | uint_least nat
  | int_least_t nat | uint_least_t nat | int_fast_t nat | uint_fast_t nat
  | int_c_suffix nat | INT_C nat | UINT_C nat
  | INT_MAX nat | INT_MIN nat | UINT_MAX nat | INT_WIDTH nat | UINT_WIDTH nat
  | least_min nat | least_max nat | uleast_max nat | uleast_width nat
  | INT_LEAST_MIN nat | INT_LEAST_MAX nat | UINT_LEAST_MAX nat
  | INT_FAST_MIN nat | INT_FAST_MAX nat | UINT_FAST_MAX nat
  | INT_LEAST_WIDTH nat | UINT_LEAST_WIDTH nat | INT_FAST_WIDTH nat | UINT_FAST_WIDTH nat
  | Plain string

section \<open>Macros and directives\<close>

text \<open>
  A constant expression; \<open>Num n suf\<close> is a literal with its suffix, \<open>Const c n\<close> the call
  \<open>c(n)\<close> of a one-argument macro on a literal, \<open>IntN f c\<close> the call of one of the utility
  macros that paste the width \<open>c\<close> into an identifier.
\<close>

datatype expr =
    Num nat string | Mac name | Const name nat | IntN "nat \<Rightarrow> name" name | IntNC "nat \<Rightarrow> name" name nat
  | Neg expr | Add expr expr | Sub expr expr | Mul expr expr | Shr expr expr

text \<open>
  What a macro stands for: a token that is not expanded further (a type or a suffix, possibly
  empty), an expression, or a function-like macro of one argument \<open>v\<close>, with the bodies \<open>v\<close>,
  \<open>v ## U\<close>, \<open>__int_c(v, s)\<close> and \<open>__uint_c(v, s)\<close>.
\<close>

datatype function_body = Arg | ArgU | Int_c name | Uint_c name

datatype body = Word string | Expr expr | Fun function_body

text \<open>
  \<open>clean\<close> says that no directive so far needed a diagnostic: no macro has been redefined
  with another body, and every \<open>typedef\<close> named a known type and gave no second meaning to a name.
\<close>

record cpp =
  macros :: "name \<Rightarrow> body option"
  types :: "name \<Rightarrow> string option"
  clean :: bool

text \<open>Expansion down to a word: through aliases, and through type names once no macro applies.\<close>

fun word_of :: "nat \<Rightarrow> cpp \<Rightarrow> name \<Rightarrow> string option" where
  "word_of 0 s n = None"
| "word_of (Suc k) s n =
     (case macros s n of
        Some (Word w) \<Rightarrow> Some w
      | Some (Expr (Mac m)) \<Rightarrow> word_of k s m
      | Some _ \<Rightarrow> None
      | None \<Rightarrow> types s n)"

text \<open>Aliases in the headers are at most four deep.\<close>

abbreviation expand :: "cpp \<Rightarrow> name \<Rightarrow> string option" where
  "expand \<equiv> word_of 8"

fun run :: "(cpp \<Rightarrow> cpp) list \<Rightarrow> cpp \<Rightarrow> cpp" where
  "run [] s = s"
| "run (d # ds) s = run ds (d s)"

definition c_defined :: "name \<Rightarrow> cpp \<Rightarrow> bool" where
  "c_defined n s \<longleftrightarrow> macros s n \<noteq> None"

definition c_define :: "name \<Rightarrow> body \<Rightarrow> cpp \<Rightarrow> cpp" where
  "c_define n b s = s\<lparr>macros := (macros s)(n \<mapsto> b),
     clean := clean s \<and> (macros s n = None \<or> macros s n = Some b)\<rparr>"

definition c_undef :: "name \<Rightarrow> cpp \<Rightarrow> cpp" where
  "c_undef n s = s\<lparr>macros := (macros s)(n := None)\<rparr>"

definition c_typedef :: "name \<Rightarrow> name \<Rightarrow> cpp \<Rightarrow> cpp" where
  "c_typedef old new s = s\<lparr>types := (types s)(new := expand s old),
     clean := clean s \<and> expand s old \<noteq> None \<and> (types s new = None \<or> types s new = expand s old)\<rparr>"

definition c_if :: "(cpp \<Rightarrow> bool) \<Rightarrow> (cpp \<Rightarrow> cpp) list \<Rightarrow> (cpp \<Rightarrow> cpp) list \<Rightarrow> cpp \<Rightarrow> cpp" where
  "c_if c ds es s = (if c s then run ds s else run es s)"

abbreviation c_ifdef :: "name \<Rightarrow> (cpp \<Rightarrow> cpp) list \<Rightarrow> cpp \<Rightarrow> cpp" where
  "c_ifdef n ds \<equiv> c_if (c_defined n) ds []"

abbreviation c_ifndef :: "name \<Rightarrow> (cpp \<Rightarrow> cpp) list \<Rightarrow> cpp \<Rightarrow> cpp" where
  "c_ifndef n ds \<equiv> c_if (\<lambda>s. \<not> c_defined n s) ds []"

text \<open>\<open>#if X >= n\<close> for a macro that is a number; an identifier without one counts as 0.\<close>

definition version_at_least :: "string \<Rightarrow> nat \<Rightarrow> cpp \<Rightarrow> bool" where
  "version_at_least x n s \<longleftrightarrow>
     (case macros s (Plain x) of Some (Expr (Num v suf)) \<Rightarrow> v \<ge> n | _ \<Rightarrow> False)"

text \<open>Lists of names: tested by nested \<open>#ifndef\<close> or an \<open>||\<close> of \<open>defined\<close>, defined empty, or undefined.\<close>

definition any_defined :: "string list \<Rightarrow> cpp \<Rightarrow> bool" where
  "any_defined xs s \<longleftrightarrow> list_ex (\<lambda>x. c_defined (Plain x) s) xs"

definition c_defines :: "string list \<Rightarrow> cpp \<Rightarrow> cpp" where
  "c_defines xs = run (map (\<lambda>x. c_define (Plain x) (Word '''')) xs)"

definition c_undefs :: "string list \<Rightarrow> cpp \<Rightarrow> cpp" where
  "c_undefs xs = run (map (\<lambda>x. c_undef (Plain x)) xs)"

text \<open>
  \<open>c_declare\<close> is a \<open>typedef\<close> of a name that the program may have made a macro: it would
  declare something else then, which counts as an error. \<open>c_typedef_word\<close> is one whose old type
  is written out, as \<open>w\<close>. Each \<open>typedef\<close> of an anonymous structure makes a new type, so a
  second for the same name is an error too.
\<close>

definition c_declare :: "string \<Rightarrow> string \<Rightarrow> cpp \<Rightarrow> cpp" where
  "c_declare old new s = (let s' = c_typedef (Plain old) (Plain new) s
     in s'\<lparr>clean := clean s' \<and> macros s (Plain new) = None\<rparr>)"

definition c_typedef_word :: "string \<Rightarrow> string \<Rightarrow> cpp \<Rightarrow> cpp" where
  "c_typedef_word w new s = s\<lparr>types := (types s)(Plain new := Some w),
     clean := clean s \<and> macros s (Plain new) = None \<and> (types s (Plain new) = None \<or> types s (Plain new) = Some w)\<rparr>"

definition c_typedef_struct :: "string \<Rightarrow> string \<Rightarrow> cpp \<Rightarrow> cpp" where
  "c_typedef_struct w new s = s\<lparr>types := (types s)(Plain new := Some w),
     clean := clean s \<and> macros s (Plain new) = None \<and> types s (Plain new) = None\<rparr>"

section \<open>Constant expressions\<close>

text \<open>
  The widths of \<open>int\<close>, \<open>long\<close> and \<open>long long\<close> are the target's; a value carries its type.
\<close>

datatype rank = IntRank | LongRank | LongLongRank

record target =
  int_width :: nat
  long_width :: nat
  llong_width :: nat

fun rank_width :: "target \<Rightarrow> rank \<Rightarrow> nat" where
  "rank_width T IntRank = int_width T"
| "rank_width T LongRank = long_width T"
| "rank_width T LongLongRank = llong_width T"

fun rank_num :: "rank \<Rightarrow> nat" where
  "rank_num IntRank = 0"
| "rank_num LongRank = 1"
| "rank_num LongLongRank = 2"

datatype cval = CVal (uns: bool) (rank_of: rank) (val: int)

definition in_range :: "target \<Rightarrow> bool \<Rightarrow> rank \<Rightarrow> int \<Rightarrow> bool" where
  "in_range T u r v \<longleftrightarrow>
     (if u then 0 \<le> v \<and> v < 2 ^ rank_width T r
      else - (2 ^ (rank_width T r - 1)) \<le> v \<and> v < 2 ^ (rank_width T r - 1))"

text \<open>A decimal literal has the first type of its list that can hold it.\<close>

fun first_fit :: "target \<Rightarrow> bool \<Rightarrow> rank list \<Rightarrow> nat \<Rightarrow> cval option" where
  "first_fit T u [] n = None"
| "first_fit T u (r # rs) n = (if in_range T u r (int n) then Some (CVal u r (int n)) else first_fit T u rs n)"

definition literal :: "target \<Rightarrow> nat \<Rightarrow> string \<Rightarrow> cval option" where
  "literal T n suf =
     (if suf = '''' then first_fit T False [IntRank, LongRank, LongLongRank] n
      else if suf = ''L'' then first_fit T False [LongRank, LongLongRank] n
      else if suf = ''LL'' then first_fit T False [LongLongRank] n
      else if suf = ''U'' then first_fit T True [IntRank, LongRank, LongLongRank] n
      else if suf = ''UL'' then first_fit T True [LongRank, LongLongRank] n
      else if suf = ''ULL'' then first_fit T True [LongLongRank] n
      else None)"

text \<open>
  Unsigned arithmetic wraps; a signed result out of range is an overflow and has no value.
\<close>

definition fit :: "target \<Rightarrow> bool \<Rightarrow> rank \<Rightarrow> int \<Rightarrow> cval option" where
  "fit T u r v =
     (if u then Some (CVal u r (v mod 2 ^ rank_width T r))
      else if in_range T u r v then Some (CVal u r v) else None)"

text \<open>The usual arithmetic conversions of two operands, none of them narrower than \<open>int\<close>.\<close>

definition common_type :: "target \<Rightarrow> cval \<Rightarrow> cval \<Rightarrow> bool \<times> rank" where
  "common_type T a b =
     (let hi = (if rank_num (rank_of a) < rank_num (rank_of b) then b else a);
          lo = (if rank_num (rank_of a) < rank_num (rank_of b) then a else b)
      in if uns a = uns b then (uns a, rank_of hi)
         else if uns hi \<or> rank_of hi = rank_of lo then (True, rank_of hi)
         else if rank_width T (rank_of lo) < rank_width T (rank_of hi) then (False, rank_of hi)
         else (True, rank_of hi))"

definition convert :: "target \<Rightarrow> bool \<Rightarrow> rank \<Rightarrow> cval \<Rightarrow> int" where
  "convert T u r a = (if u then val a mod 2 ^ rank_width T r else val a)"

definition arith :: "target \<Rightarrow> (int \<Rightarrow> int \<Rightarrow> int) \<Rightarrow> cval \<Rightarrow> cval \<Rightarrow> cval option" where
  "arith T f a b =
     (let (u, r) = common_type T a b in fit T u r (f (convert T u r a) (convert T u r b)))"

text \<open>What a call of a function-like macro on a literal becomes: the literal and its suffix.\<close>

fun apply_macro :: "cpp \<Rightarrow> function_body \<Rightarrow> string option" where
  "apply_macro s Arg = Some ''''"
| "apply_macro s ArgU = Some ''U''"
| "apply_macro s (Int_c x) = expand s x"
| "apply_macro s (Uint_c x) = map_option (\<lambda>w. ''U'' @ w) (expand s x)"

text \<open>Evaluation; the fuel bounds the depth of the expansion, and an unknown identifier has no value.\<close>

fun eval :: "target \<Rightarrow> nat \<Rightarrow> cpp \<Rightarrow> expr \<Rightarrow> cval option" where
  "eval T 0 s e = None"
| "eval T (Suc k) s (Num n suf) = literal T n suf"
| "eval T (Suc k) s (Mac m) =
     (case macros s m of Some (Expr e) \<Rightarrow> eval T k s e | _ \<Rightarrow> None)"
| "eval T (Suc k) s (Const c n) =
     (case macros s c of
        Some (Fun b) \<Rightarrow> Option.bind (apply_macro s b) (literal T n)
      | _ \<Rightarrow> None)"
| "eval T (Suc k) s (IntN f c) = do {
     w \<leftarrow> eval T k s (Mac c);
     eval T k s (Mac (f (nat (val w))))
   }"
| "eval T (Suc k) s (IntNC f c n) = do {
     w \<leftarrow> eval T k s (Mac c);
     eval T k s (Const (f (nat (val w))) n)
   }"
| "eval T (Suc k) s (Neg e) = Option.bind (eval T k s e) (\<lambda>a. fit T (uns a) (rank_of a) (- val a))"
| "eval T (Suc k) s (Add e f) =
     Option.bind (eval T k s e) (\<lambda>a. Option.bind (eval T k s f) (arith T (+) a))"
| "eval T (Suc k) s (Sub e f) =
     Option.bind (eval T k s e) (\<lambda>a. Option.bind (eval T k s f) (arith T (-) a))"
| "eval T (Suc k) s (Mul e f) =
     Option.bind (eval T k s e) (\<lambda>a. Option.bind (eval T k s f) (arith T (*) a))"
| "eval T (Suc k) s (Shr e f) =
     Option.bind (eval T k s e) (\<lambda>a. Option.bind (eval T k s f)
       (\<lambda>b. fit T (uns a) (rank_of a) (drop_bit (nat (val b)) (val a))))"

text \<open>The value of a macro at a use after the header; sixteen expansions are more than any chain needs.\<close>

definition macro_value :: "target \<Rightarrow> cpp \<Rightarrow> name \<Rightarrow> int option" where
  "macro_value T s n = map_option val (eval T 16 s (Mac n))"

section \<open>Directives\<close>

lemma c_define_select [simp]:
  "macros (c_define n b s) = (macros s)(n \<mapsto> b)" "types (c_define n b s) = types s"
  "clean (c_define n b s) \<longleftrightarrow> clean s \<and> (macros s n = None \<or> macros s n = Some b)"
  by (simp_all add: c_define_def)

lemma c_undef_select [simp]:
  "macros (c_undef n s) = (macros s)(n := None)" "types (c_undef n s) = types s"
  "clean (c_undef n s) = clean s"
  by (simp_all add: c_undef_def)

lemma c_typedef_select [simp]:
  "macros (c_typedef a b s) = macros s" "types (c_typedef a b s) = (types s)(b := expand s a)"
  "clean (c_typedef a b s) \<longleftrightarrow>
     clean s \<and> expand s a \<noteq> None \<and> (types s b = None \<or> types s b = expand s a)"
  by (simp_all add: c_typedef_def)

lemma word_of_numeral:
  "word_of (numeral k) s n =
     (case macros s n of
        Some (Word w) \<Rightarrow> Some w
      | Some (Expr (Mac m)) \<Rightarrow> word_of (pred_numeral k) s m
      | Some _ \<Rightarrow> None
      | None \<Rightarrow> types s n)"
  by (simp add: numeral_eq_Suc)

lemma expand_plain: "macros s n = None \<Longrightarrow> expand s n = types s n"
  by (simp add: word_of_numeral)

lemma expand_word: "macros s n = Some (Word w) \<Longrightarrow> expand s n = Some w"
  by (simp add: word_of_numeral)

lemma expand_alias: "macros s n = Some (Expr (Mac m)) \<Longrightarrow> macros s m = None \<Longrightarrow> expand s n = types s m"
  by (simp add: word_of_numeral)

lemma expand_alias_word:
  "macros s n = Some (Expr (Mac m)) \<Longrightarrow> macros s m = Some (Word w) \<Longrightarrow> expand s n = Some w"
  by (simp add: word_of_numeral)

lemmas expand_simps = expand_plain expand_word expand_alias expand_alias_word

section \<open>Frames\<close>

text \<open>\<open>keeps P d\<close>: the directive leaves the macros and types of the names with \<open>P\<close> alone.\<close>

definition keeps :: "(name \<Rightarrow> bool) \<Rightarrow> (cpp \<Rightarrow> cpp) \<Rightarrow> bool" where
  "keeps P d \<longleftrightarrow> (\<forall>s x. P x \<longrightarrow> macros (d s) x = macros s x \<and> types (d s) x = types s x)"

lemma keepsD: "keeps P d \<Longrightarrow> P x \<Longrightarrow> macros (d s) x = macros s x \<and> types (d s) x = types s x"
  by (simp add: keeps_def)

lemma keeps_run: "list_all (keeps P) ds \<Longrightarrow> keeps P (run ds)"
proof (induction ds)
  case (Cons d ds)
  then have "keeps P d" "keeps P (run ds)" by simp_all
  then show ?case by (simp add: keeps_def)
qed (simp add: keeps_def)

lemma keeps_directives [simp]:
  "\<not> P n \<Longrightarrow> keeps P (c_define n b)" "\<not> P n \<Longrightarrow> keeps P (c_undef n)" "\<not> P n \<Longrightarrow> keeps P (c_typedef a n)"
  "list_all (keeps P) ds \<Longrightarrow> list_all (keeps P) es \<Longrightarrow> keeps P (c_if c ds es)"
proof -
  assume "list_all (keeps P) ds" "list_all (keeps P) es"
  from this [THEN keeps_run] show "keeps P (c_if c ds es)" by (simp add: keeps_def c_if_def)
qed (auto simp: keeps_def)

text \<open>Every name but those of a list.\<close>

definition apart :: "string list \<Rightarrow> name \<Rightarrow> bool" where
  "apart xs n \<longleftrightarrow> n \<notin> Plain ` set xs"

lemma apart_simps [simp]: "apart xs (Plain x) \<longleftrightarrow> x \<notin> set xs"
  by (auto simp: apart_def)

section \<open>No diagnostics\<close>

text \<open>\<open>tidy N d\<close>: on a state that defines none of the names \<open>N\<close>, \<open>d\<close> stays clean and defines at most those.\<close>

definition tidy :: "string set \<Rightarrow> (cpp \<Rightarrow> cpp) \<Rightarrow> bool" where
  "tidy N d \<longleftrightarrow> (\<forall>s. clean s \<and> (\<forall>x \<in> N. macros s (Plain x) = None) \<longrightarrow>
     clean (d s) \<and> (\<forall>x. x \<notin> N \<longrightarrow> macros (d s) (Plain x) = macros s (Plain x)))"

lemma tidy_define: "tidy {n} (c_define (Plain n) b)"
  by (simp add: tidy_def)

lemma tidyD:
  assumes "tidy N d" "clean s" "\<And>x. x \<in> N \<Longrightarrow> macros s (Plain x) = None"
  shows "clean (d s)" "x \<notin> N \<Longrightarrow> macros (d s) (Plain x) = macros s (Plain x)"
  using assms by (simp_all add: tidy_def)

lemma tidy_run: "tidy {} (run [])" "tidy A d \<Longrightarrow> tidy B (run ds) \<Longrightarrow> A \<inter> B = {} \<Longrightarrow> tidy (A \<union> B) (run (d # ds))"
proof -
  assume A: "tidy A d" and B: "tidy B (run ds)" and dis: "A \<inter> B = {}"
  show "tidy (A \<union> B) (run (d # ds))"
    unfolding tidy_def
  proof (intro allI impI)
    fix s :: cpp assume s: "clean s \<and> (\<forall>x \<in> A \<union> B. macros s (Plain x) = None)"
    have d: "clean (d s)" "\<And>x. x \<notin> A \<Longrightarrow> macros (d s) (Plain x) = macros s (Plain x)"
      using tidyD [OF A, of s] s by simp_all
    have "x \<in> B \<Longrightarrow> macros (d s) (Plain x) = None" for x
      using s d(2) [of x] dis by (auto simp: disjoint_iff)
    from tidyD [OF B d(1) this] d(2)
    show "clean (run (d # ds) s) \<and> (\<forall>x. x \<notin> A \<union> B \<longrightarrow> macros (run (d # ds) s) (Plain x) = macros s (Plain x))"
      by simp
  qed
qed (simp add: tidy_def)

lemma tidy_if: "tidy A (run ds) \<Longrightarrow> tidy B (run es) \<Longrightarrow> tidy (A \<union> B) (c_if c ds es)"
  by (simp add: tidy_def c_if_def)

lemmas tidy_rules = tidy_if tidy_run tidy_define

lemma tidy_mono: "tidy A d \<Longrightarrow> A \<subseteq> B \<Longrightarrow> tidy B d"
  unfolding tidy_def by blast

section \<open>Lists of names\<close>

lemma macros_run_defines:
  "macros (run (map (\<lambda>x. c_define (Plain x) b) xs) s) n = (if n \<in> Plain ` set xs then Some b else macros s n)"
  by (induction xs arbitrary: s) auto

lemma types_run_defines: "types (run (map (\<lambda>x. c_define (Plain x) b) xs) s) = types s"
  by (induction xs arbitrary: s) auto

lemma clean_run_defines:
  "clean (run (map (\<lambda>x. c_define (Plain x) b) xs) s) \<longleftrightarrow>
     clean s \<and> (\<forall>x \<in> set xs. macros s (Plain x) = None \<or> macros s (Plain x) = Some b)"
  by (induction xs arbitrary: s) auto

lemma c_defines_select [simp]:
  "macros (c_defines xs s) n = (if n \<in> Plain ` set xs then Some (Word '''') else macros s n)"
  "types (c_defines xs s) = types s"
  "clean (c_defines xs s) \<longleftrightarrow>
     clean s \<and> (\<forall>x \<in> set xs. macros s (Plain x) = None \<or> macros s (Plain x) = Some (Word ''''))"
  by (simp_all only: c_defines_def macros_run_defines types_run_defines clean_run_defines)

lemma c_undefs_select [simp]:
  "macros (c_undefs xs s) n = (if n \<in> Plain ` set xs then None else macros s n)"
  "types (c_undefs xs s) = types s" "clean (c_undefs xs s) = clean s"
proof -
  have "macros (run (map (\<lambda>x. c_undef (Plain x)) xs) s) n = (if n \<in> Plain ` set xs then None else macros s n) \<and>
    types (run (map (\<lambda>x. c_undef (Plain x)) xs) s) = types s \<and> clean (run (map (\<lambda>x. c_undef (Plain x)) xs) s) = clean s"
    by (induction xs arbitrary: s) auto
  then show "macros (c_undefs xs s) n = (if n \<in> Plain ` set xs then None else macros s n)"
    "types (c_undefs xs s) = types s" "clean (c_undefs xs s) = clean s"
    unfolding c_undefs_def by blast+
qed

lemma c_declare_select [simp]:
  "macros (c_declare a b s) = macros s" "types (c_declare a b s) = (types s)(Plain b := expand s (Plain a))"
  "clean (c_declare a b s) \<longleftrightarrow>
     clean s \<and> expand s (Plain a) \<noteq> None \<and> (types s (Plain b) = None \<or> types s (Plain b) = expand s (Plain a)) \<and>
     macros s (Plain b) = None"
  by (simp_all add: c_declare_def Let_def)

lemma c_typedef_word_select [simp]:
  "macros (c_typedef_word w b s) = macros s" "types (c_typedef_word w b s) = (types s)(Plain b \<mapsto> w)"
  "clean (c_typedef_word w b s) \<longleftrightarrow>
     clean s \<and> macros s (Plain b) = None \<and> (types s (Plain b) = None \<or> types s (Plain b) = Some w)"
  "macros (c_typedef_struct w b s) = macros s" "types (c_typedef_struct w b s) = (types s)(Plain b \<mapsto> w)"
  "clean (c_typedef_struct w b s) \<longleftrightarrow> clean s \<and> macros s (Plain b) = None \<and> types s (Plain b) = None"
  by (simp_all add: c_typedef_word_def c_typedef_struct_def)

lemma any_defined_simps [simp]:
  "\<not> any_defined [] s" "any_defined (x # xs) s \<longleftrightarrow> c_defined (Plain x) s \<or> any_defined xs s"
  by (simp_all add: any_defined_def)

lemma any_defined_none: "\<not> any_defined xs s \<longleftrightarrow> (\<forall>x \<in> set xs. macros s (Plain x) = None)"
  by (simp add: any_defined_def list_ex_iff c_defined_def)

lemma keeps_lists [simp]:
  "\<not> (\<exists>x \<in> set xs. P (Plain x)) \<Longrightarrow> keeps P (c_defines xs)"
  "\<not> (\<exists>x \<in> set xs. P (Plain x)) \<Longrightarrow> keeps P (c_undefs xs)"
  "\<not> P (Plain b) \<Longrightarrow> keeps P (c_declare a b)" "\<not> P (Plain b) \<Longrightarrow> keeps P (c_typedef_word w b)"
  "\<not> P (Plain b) \<Longrightarrow> keeps P (\<lambda>s. c_typedef_struct (f s) b s)"
  by (auto simp: keeps_def)

lemma c_defined_after:
  "c_defined n (c_define m b s) \<longleftrightarrow> n = m \<or> c_defined n s" "c_defined n (c_undef m s) \<longleftrightarrow> n \<noteq> m \<and> c_defined n s"
  "c_defined n (c_declare a b' s) = c_defined n s" "c_defined n (c_typedef_word w b' s) = c_defined n s"
  "c_defined (Plain x) (c_defines xs s) \<longleftrightarrow> x \<in> set xs \<or> c_defined (Plain x) s"
  "c_defined (Plain x) (c_undefs xs s) \<longleftrightarrow> x \<notin> set xs \<and> c_defined (Plain x) s"
  by (auto simp: c_defined_def image_iff)

lemma c_if_true: "c s \<Longrightarrow> c_if c ds es s = run ds s"
  by (simp add: c_if_def)

lemma c_if_false: "\<not> c s \<Longrightarrow> c_if c ds es s = run es s"
  by (simp add: c_if_def)

lemma keeps_id [simp]: "keeps P (run [])"
  by (simp add: keeps_def)

end
