(* ===== verification/Stdint.thy ===== *)
theory Stdint
  imports Cpp
begin

text \<open>
  \<open>clang/lib/Headers/stdint.h\<close>, the header that declares the integer
  types: the cascades that pick the least-width types, the suffixes of their constants and
  their limits, block by block as the header has them, and the types and limits of pointers
  and of the other integer types. The lemmas show that the three cascades agree on every target: a
  least-width type is the narrowest type of the target that is wide enough, and its constants
  and limits are those of that type; the width macros do so but for one case.
\<close>

section \<open>Exact, minimum and fastest types\<close>

text \<open>
  The blocks for 64, 32, 16 and 8 bits, each followed by the \<open>#ifdef\<close> of its public names; 56, 48
  and 40 have the same block but for the width.
\<close>

definition types_64 :: "cpp \<Rightarrow> cpp" where
  "types_64 =
    c_ifdef (INT_TYPE 64) [
      c_ifndef (Plain ''__int8_t_defined'') [
        c_typedef (INT_TYPE 64) (int_t 64)],
      c_typedef (UINT_TYPE 64) (uint_t 64),
      c_undef (int_least 64),
      c_define (int_least 64) (Expr (Mac (int_t 64))),
      c_undef (uint_least 64),
      c_define (uint_least 64) (Expr (Mac (uint_t 64))),
      c_undef (int_least 32),
      c_define (int_least 32) (Expr (Mac (int_t 64))),
      c_undef (uint_least 32),
      c_define (uint_least 32) (Expr (Mac (uint_t 64))),
      c_undef (int_least 16),
      c_define (int_least 16) (Expr (Mac (int_t 64))),
      c_undef (uint_least 16),
      c_define (uint_least 16) (Expr (Mac (uint_t 64))),
      c_undef (int_least 8),
      c_define (int_least 8) (Expr (Mac (int_t 64))),
      c_undef (uint_least 8),
      c_define (uint_least 8) (Expr (Mac (uint_t 64)))]"

definition least_types :: "nat \<Rightarrow> cpp \<Rightarrow> cpp" where
  "least_types n =
    c_ifdef (int_least n) [
      c_typedef (int_least n) (int_least_t n),
      c_typedef (uint_least n) (uint_least_t n),
      c_typedef (int_least n) (int_fast_t n),
      c_typedef (uint_least n) (uint_fast_t n)]"

definition types_mid :: "nat \<Rightarrow> cpp \<Rightarrow> cpp" where
  "types_mid n =
    c_ifdef (INT_TYPE n) [
      c_typedef (INT_TYPE n) (int_t n),
      c_typedef (UINT_TYPE n) (uint_t n),
      c_typedef (int_t n) (int_least_t n),
      c_typedef (uint_t n) (uint_least_t n),
      c_typedef (int_t n) (int_fast_t n),
      c_typedef (uint_t n) (uint_fast_t n),
      c_undef (int_least 32),
      c_define (int_least 32) (Expr (Mac (int_t n))),
      c_undef (uint_least 32),
      c_define (uint_least 32) (Expr (Mac (uint_t n))),
      c_undef (int_least 16),
      c_define (int_least 16) (Expr (Mac (int_t n))),
      c_undef (uint_least 16),
      c_define (uint_least 16) (Expr (Mac (uint_t n))),
      c_undef (int_least 8),
      c_define (int_least 8) (Expr (Mac (int_t n))),
      c_undef (uint_least 8),
      c_define (uint_least 8) (Expr (Mac (uint_t n)))]"

definition types_32 :: "cpp \<Rightarrow> cpp" where
  "types_32 =
    c_ifdef (INT_TYPE 32) [
      c_ifndef (Plain ''__int8_t_defined'') [
        c_typedef (INT_TYPE 32) (int_t 32)],
      c_ifndef (Plain ''__uint32_t_defined'') [
        c_define (Plain ''__uint32_t_defined'') (Word ''''),
        c_typedef (UINT_TYPE 32) (uint_t 32)],
      c_undef (int_least 32),
      c_define (int_least 32) (Expr (Mac (int_t 32))),
      c_undef (uint_least 32),
      c_define (uint_least 32) (Expr (Mac (uint_t 32))),
      c_undef (int_least 16),
      c_define (int_least 16) (Expr (Mac (int_t 32))),
      c_undef (uint_least 16),
      c_define (uint_least 16) (Expr (Mac (uint_t 32))),
      c_undef (int_least 8),
      c_define (int_least 8) (Expr (Mac (int_t 32))),
      c_undef (uint_least 8),
      c_define (uint_least 8) (Expr (Mac (uint_t 32)))]"

definition types_24 :: "cpp \<Rightarrow> cpp" where
  "types_24 =
    c_ifdef (INT_TYPE 24) [
      c_typedef (INT_TYPE 24) (int_t 24),
      c_typedef (UINT_TYPE 24) (uint_t 24),
      c_typedef (int_t 24) (int_least_t 24),
      c_typedef (uint_t 24) (uint_least_t 24),
      c_typedef (int_t 24) (int_fast_t 24),
      c_typedef (uint_t 24) (uint_fast_t 24),
      c_undef (int_least 16),
      c_define (int_least 16) (Expr (Mac (int_t 24))),
      c_undef (uint_least 16),
      c_define (uint_least 16) (Expr (Mac (uint_t 24))),
      c_undef (int_least 8),
      c_define (int_least 8) (Expr (Mac (int_t 24))),
      c_undef (uint_least 8),
      c_define (uint_least 8) (Expr (Mac (uint_t 24)))]"

definition types_16 :: "cpp \<Rightarrow> cpp" where
  "types_16 =
    c_ifdef (INT_TYPE 16) [
      c_ifndef (Plain ''__int8_t_defined'') [
        c_typedef (INT_TYPE 16) (int_t 16)],
      c_typedef (UINT_TYPE 16) (uint_t 16),
      c_undef (int_least 16),
      c_define (int_least 16) (Expr (Mac (int_t 16))),
      c_undef (uint_least 16),
      c_define (uint_least 16) (Expr (Mac (uint_t 16))),
      c_undef (int_least 8),
      c_define (int_least 8) (Expr (Mac (int_t 16))),
      c_undef (uint_least 8),
      c_define (uint_least 8) (Expr (Mac (uint_t 16)))]"

definition types_8 :: "cpp \<Rightarrow> cpp" where
  "types_8 =
    c_ifdef (INT_TYPE 8) [
      c_ifndef (Plain ''__int8_t_defined'') [
        c_typedef (INT_TYPE 8) (int_t 8)],
      c_typedef (UINT_TYPE 8) (uint_t 8),
      c_undef (int_least 8),
      c_define (int_least 8) (Expr (Mac (int_t 8))),
      c_undef (uint_least 8),
      c_define (uint_least 8) (Expr (Mac (uint_t 8)))]"

definition types_56_48_40 :: "cpp \<Rightarrow> cpp" where
  "types_56_48_40 = run [types_mid 56, types_mid 48, types_mid 40]"

definition stdint_types :: "cpp \<Rightarrow> cpp" where
  "stdint_types = run [
     types_64, least_types 64, types_56_48_40, types_32, least_types 32, types_24,
     types_16, least_types 16, types_8, least_types 8]"

section \<open>Suffixes of integer constants\<close>

definition suffix_64 :: "cpp \<Rightarrow> cpp" where
  "suffix_64 =
    c_ifdef (INT_TYPE 64) [
      c_undef (int_c_suffix 64),
      c_undef (int_c_suffix 32),
      c_undef (int_c_suffix 16),
      c_undef (int_c_suffix 8),
      c_ifdef (INT_C_SUFFIX 64) [
        c_define (int_c_suffix 64) (Expr (Mac (INT_C_SUFFIX 64))),
        c_define (int_c_suffix 32) (Expr (Mac (INT_C_SUFFIX 64))),
        c_define (int_c_suffix 16) (Expr (Mac (INT_C_SUFFIX 64))),
        c_define (int_c_suffix 8) (Expr (Mac (INT_C_SUFFIX 64)))]]"

definition least_constants :: "nat \<Rightarrow> cpp \<Rightarrow> cpp" where
  "least_constants n =
    c_ifdef (int_least n) [
      c_if (c_defined (int_c_suffix n)) [
        c_define (INT_C n) (Fun (Int_c (int_c_suffix n))),
        c_define (UINT_C n) (Fun (Uint_c (int_c_suffix n)))] [
        c_define (INT_C n) (Fun Arg),
        c_define (UINT_C n) (Fun ArgU)]]"

definition suffix_mid :: "nat \<Rightarrow> cpp \<Rightarrow> cpp" where
  "suffix_mid n =
    c_ifdef (INT_TYPE n) [
      c_undef (int_c_suffix 32),
      c_undef (int_c_suffix 16),
      c_undef (int_c_suffix 8),
      c_if (c_defined (INT_C_SUFFIX n)) [
        c_define (INT_C n) (Fun (Int_c (INT_C_SUFFIX n))),
        c_define (UINT_C n) (Fun (Uint_c (INT_C_SUFFIX n))),
        c_define (int_c_suffix 32) (Expr (Mac (INT_C_SUFFIX n))),
        c_define (int_c_suffix 16) (Expr (Mac (INT_C_SUFFIX n))),
        c_define (int_c_suffix 8) (Expr (Mac (INT_C_SUFFIX n)))] [
        c_define (INT_C n) (Fun Arg),
        c_define (UINT_C n) (Fun ArgU)]]"

definition suffix_32 :: "cpp \<Rightarrow> cpp" where
  "suffix_32 =
    c_ifdef (INT_TYPE 32) [
      c_undef (int_c_suffix 32),
      c_undef (int_c_suffix 16),
      c_undef (int_c_suffix 8),
      c_ifdef (INT_C_SUFFIX 32) [
        c_define (int_c_suffix 32) (Expr (Mac (INT_C_SUFFIX 32))),
        c_define (int_c_suffix 16) (Expr (Mac (INT_C_SUFFIX 32))),
        c_define (int_c_suffix 8) (Expr (Mac (INT_C_SUFFIX 32)))]]"

definition suffix_24 :: "cpp \<Rightarrow> cpp" where
  "suffix_24 =
    c_ifdef (INT_TYPE 24) [
      c_undef (int_c_suffix 16),
      c_undef (int_c_suffix 8),
      c_if (c_defined (INT_C_SUFFIX 24)) [
        c_define (INT_C 24) (Fun (Int_c (INT_C_SUFFIX 24))),
        c_define (UINT_C 24) (Fun (Uint_c (INT_C_SUFFIX 24))),
        c_define (int_c_suffix 16) (Expr (Mac (INT_C_SUFFIX 24))),
        c_define (int_c_suffix 8) (Expr (Mac (INT_C_SUFFIX 24)))] [
        c_define (INT_C 24) (Fun Arg),
        c_define (UINT_C 24) (Fun ArgU)]]"

definition suffix_16 :: "cpp \<Rightarrow> cpp" where
  "suffix_16 =
    c_ifdef (INT_TYPE 16) [
      c_undef (int_c_suffix 16),
      c_undef (int_c_suffix 8),
      c_ifdef (INT_C_SUFFIX 16) [
        c_define (int_c_suffix 16) (Expr (Mac (INT_C_SUFFIX 16))),
        c_define (int_c_suffix 8) (Expr (Mac (INT_C_SUFFIX 16)))]]"

definition suffix_8 :: "cpp \<Rightarrow> cpp" where
  "suffix_8 =
    c_ifdef (INT_TYPE 8) [
      c_undef (int_c_suffix 8),
      c_ifdef (INT_C_SUFFIX 8) [
        c_define (int_c_suffix 8) (Expr (Mac (INT_C_SUFFIX 8)))]]"

definition suffix_56_48_40 :: "cpp \<Rightarrow> cpp" where
  "suffix_56_48_40 = run [suffix_mid 56, suffix_mid 48, suffix_mid 40]"

definition stdint_constants :: "cpp \<Rightarrow> cpp" where
  "stdint_constants = run [
     suffix_64, least_constants 64, suffix_56_48_40, suffix_32, least_constants 32, suffix_24,
     suffix_16, least_constants 16, suffix_8, least_constants 8]"

section \<open>Limits and widths\<close>

text \<open>\<open>#if defined(__STDC_VERSION__) && __STDC_VERSION__ >= 202000L\<close>\<close>

definition c2x :: "cpp \<Rightarrow> bool" where
  "c2x s \<longleftrightarrow> (case macros s (Plain ''__STDC_VERSION__'') of
     Some (Expr (Num v suf)) \<Rightarrow> v \<ge> 202000 | _ \<Rightarrow> False)"

definition limits_64 :: "cpp \<Rightarrow> cpp" where
  "limits_64 =
    c_ifdef (INT_TYPE 64) [
      c_define (INT_MAX 64) (Expr (Const (INT_C 64) 9223372036854775807)),
      c_define (INT_MIN 64) (Expr (Sub (Neg (Const (INT_C 64) 9223372036854775807)) (Num 1 ''''))),
      c_define (UINT_MAX 64) (Expr (Const (UINT_C 64) 18446744073709551615)),
      c_if c2x [
        c_define (UINT_WIDTH 64) (Expr (Num 64 '''')),
        c_define (INT_WIDTH 64) (Expr (Mac (UINT_WIDTH 64))),
        c_define (uleast_width 64) (Expr (Mac (UINT_WIDTH 64))),
        c_undef (uleast_width 32),
        c_define (uleast_width 32) (Expr (Mac (UINT_WIDTH 64))),
        c_undef (uleast_width 16),
        c_define (uleast_width 16) (Expr (Mac (UINT_WIDTH 64))),
        c_undef (uleast_max 8),
        c_define (uleast_max 8) (Expr (Mac (UINT_MAX 64)))] [],
      c_define (least_min 64) (Expr (Mac (INT_MIN 64))),
      c_define (least_max 64) (Expr (Mac (INT_MAX 64))),
      c_define (uleast_max 64) (Expr (Mac (UINT_MAX 64))),
      c_undef (least_min 32),
      c_define (least_min 32) (Expr (Mac (INT_MIN 64))),
      c_undef (least_max 32),
      c_define (least_max 32) (Expr (Mac (INT_MAX 64))),
      c_undef (uleast_max 32),
      c_define (uleast_max 32) (Expr (Mac (UINT_MAX 64))),
      c_undef (least_min 16),
      c_define (least_min 16) (Expr (Mac (INT_MIN 64))),
      c_undef (least_max 16),
      c_define (least_max 16) (Expr (Mac (INT_MAX 64))),
      c_undef (uleast_max 16),
      c_define (uleast_max 16) (Expr (Mac (UINT_MAX 64))),
      c_undef (least_min 8),
      c_define (least_min 8) (Expr (Mac (INT_MIN 64))),
      c_undef (least_max 8),
      c_define (least_max 8) (Expr (Mac (INT_MAX 64))),
      c_undef (uleast_max 8),
      c_define (uleast_max 8) (Expr (Mac (UINT_MAX 64)))]"

definition least_limits :: "nat \<Rightarrow> cpp \<Rightarrow> cpp" where
  "least_limits n =
    c_ifdef (least_min n) [
      c_define (INT_LEAST_MIN n) (Expr (Mac (least_min n))),
      c_define (INT_LEAST_MAX n) (Expr (Mac (least_max n))),
      c_define (UINT_LEAST_MAX n) (Expr (Mac (uleast_max n))),
      c_define (INT_FAST_MIN n) (Expr (Mac (least_min n))),
      c_define (INT_FAST_MAX n) (Expr (Mac (least_max n))),
      c_define (UINT_FAST_MAX n) (Expr (Mac (uleast_max n))),
      c_if c2x [
        c_define (UINT_LEAST_WIDTH n) (Expr (Mac (uleast_width n))),
        c_define (INT_LEAST_WIDTH n) (Expr (Mac (UINT_LEAST_WIDTH n))),
        c_define (UINT_FAST_WIDTH n) (Expr (Mac (uleast_width n))),
        c_define (INT_FAST_WIDTH n) (Expr (Mac (UINT_FAST_WIDTH n)))] []]"

text \<open>The block of 56, 48 and 40 bits; \<open>m\<close> and \<open>u\<close> are the two literals that differ.\<close>

definition limits_mid :: "nat \<Rightarrow> nat \<Rightarrow> nat \<Rightarrow> cpp \<Rightarrow> cpp" where
  "limits_mid n m u =
    c_ifdef (INT_TYPE n) [
      c_define (INT_MAX n) (Expr (Const (INT_C n) m)),
      c_define (INT_MIN n) (Expr (Sub (Neg (Const (INT_C n) m)) (Num 1 ''''))),
      c_define (UINT_MAX n) (Expr (Const (UINT_C n) u)),
      c_define (INT_LEAST_MIN n) (Expr (Mac (INT_MIN n))),
      c_define (INT_LEAST_MAX n) (Expr (Mac (INT_MAX n))),
      c_define (UINT_LEAST_MAX n) (Expr (Mac (UINT_MAX n))),
      c_define (INT_FAST_MIN n) (Expr (Mac (INT_MIN n))),
      c_define (INT_FAST_MAX n) (Expr (Mac (INT_MAX n))),
      c_define (UINT_FAST_MAX n) (Expr (Mac (UINT_MAX n))),
      c_undef (least_min 32),
      c_define (least_min 32) (Expr (Mac (INT_MIN n))),
      c_undef (least_max 32),
      c_define (least_max 32) (Expr (Mac (INT_MAX n))),
      c_undef (uleast_max 32),
      c_define (uleast_max 32) (Expr (Mac (UINT_MAX n))),
      c_undef (least_min 16),
      c_define (least_min 16) (Expr (Mac (INT_MIN n))),
      c_undef (least_max 16),
      c_define (least_max 16) (Expr (Mac (INT_MAX n))),
      c_undef (uleast_max 16),
      c_define (uleast_max 16) (Expr (Mac (UINT_MAX n))),
      c_undef (least_min 8),
      c_define (least_min 8) (Expr (Mac (INT_MIN n))),
      c_undef (least_max 8),
      c_define (least_max 8) (Expr (Mac (INT_MAX n))),
      c_undef (uleast_max 8),
      c_define (uleast_max 8) (Expr (Mac (UINT_MAX n))),
      c_if c2x [
        c_define (UINT_WIDTH n) (Expr (Num n '''')),
        c_define (INT_WIDTH n) (Expr (Mac (UINT_WIDTH n))),
        c_define (UINT_LEAST_WIDTH n) (Expr (Mac (UINT_WIDTH n))),
        c_define (INT_LEAST_WIDTH n) (Expr (Mac (UINT_LEAST_WIDTH n))),
        c_define (UINT_FAST_WIDTH n) (Expr (Mac (UINT_WIDTH n))),
        c_define (INT_FAST_WIDTH n) (Expr (Mac (UINT_FAST_WIDTH n))),
        c_undef (uleast_width 32),
        c_define (uleast_width 32) (Expr (Mac (UINT_WIDTH n))),
        c_undef (uleast_width 16),
        c_define (uleast_width 16) (Expr (Mac (UINT_WIDTH n))),
        c_undef (uleast_width 8),
        c_define (uleast_width 8) (Expr (Mac (UINT_WIDTH n)))] []]"

definition limits_32 :: "cpp \<Rightarrow> cpp" where
  "limits_32 =
    c_ifdef (INT_TYPE 32) [
      c_define (INT_MAX 32) (Expr (Const (INT_C 32) 2147483647)),
      c_define (INT_MIN 32) (Expr (Sub (Neg (Const (INT_C 32) 2147483647)) (Num 1 ''''))),
      c_define (UINT_MAX 32) (Expr (Const (UINT_C 32) 4294967295)),
      c_undef (least_min 32),
      c_define (least_min 32) (Expr (Mac (INT_MIN 32))),
      c_undef (least_max 32),
      c_define (least_max 32) (Expr (Mac (INT_MAX 32))),
      c_undef (uleast_max 32),
      c_define (uleast_max 32) (Expr (Mac (UINT_MAX 32))),
      c_undef (least_min 16),
      c_define (least_min 16) (Expr (Mac (INT_MIN 32))),
      c_undef (least_max 16),
      c_define (least_max 16) (Expr (Mac (INT_MAX 32))),
      c_undef (uleast_max 16),
      c_define (uleast_max 16) (Expr (Mac (UINT_MAX 32))),
      c_undef (least_min 8),
      c_define (least_min 8) (Expr (Mac (INT_MIN 32))),
      c_undef (least_max 8),
      c_define (least_max 8) (Expr (Mac (INT_MAX 32))),
      c_undef (uleast_max 8),
      c_define (uleast_max 8) (Expr (Mac (UINT_MAX 32))),
      c_if c2x [
        c_define (UINT_WIDTH 32) (Expr (Num 32 '''')),
        c_define (INT_WIDTH 32) (Expr (Mac (UINT_WIDTH 32))),
        c_undef (uleast_width 32),
        c_define (uleast_width 32) (Expr (Mac (UINT_WIDTH 32))),
        c_undef (uleast_width 16),
        c_define (uleast_width 16) (Expr (Mac (UINT_WIDTH 32))),
        c_undef (uleast_width 8),
        c_define (uleast_width 8) (Expr (Mac (UINT_WIDTH 32)))] []]"

definition limits_24 :: "cpp \<Rightarrow> cpp" where
  "limits_24 =
    c_ifdef (INT_TYPE 24) [
      c_define (INT_MAX 24) (Expr (Const (INT_C 24) 8388607)),
      c_define (INT_MIN 24) (Expr (Sub (Neg (Const (INT_C 24) 8388607)) (Num 1 ''''))),
      c_define (UINT_MAX 24) (Expr (Const (UINT_C 24) 16777215)),
      c_define (INT_LEAST_MIN 24) (Expr (Mac (INT_MIN 24))),
      c_define (INT_LEAST_MAX 24) (Expr (Mac (INT_MAX 24))),
      c_define (UINT_LEAST_MAX 24) (Expr (Mac (UINT_MAX 24))),
      c_define (INT_FAST_MIN 24) (Expr (Mac (INT_MIN 24))),
      c_define (INT_FAST_MAX 24) (Expr (Mac (INT_MAX 24))),
      c_define (UINT_FAST_MAX 24) (Expr (Mac (UINT_MAX 24))),
      c_undef (least_min 16),
      c_define (least_min 16) (Expr (Mac (INT_MIN 24))),
      c_undef (least_max 16),
      c_define (least_max 16) (Expr (Mac (INT_MAX 24))),
      c_undef (uleast_max 16),
      c_define (uleast_max 16) (Expr (Mac (UINT_MAX 24))),
      c_undef (least_min 8),
      c_define (least_min 8) (Expr (Mac (INT_MIN 24))),
      c_undef (least_max 8),
      c_define (least_max 8) (Expr (Mac (INT_MAX 24))),
      c_undef (uleast_max 8),
      c_define (uleast_max 8) (Expr (Mac (UINT_MAX 24))),
      c_if c2x [
        c_define (UINT_WIDTH 24) (Expr (Num 24 '''')),
        c_define (INT_WIDTH 24) (Expr (Mac (UINT_WIDTH 24))),
        c_define (UINT_LEAST_WIDTH 24) (Expr (Mac (UINT_WIDTH 24))),
        c_define (INT_LEAST_WIDTH 24) (Expr (Mac (UINT_LEAST_WIDTH 24))),
        c_define (UINT_FAST_WIDTH 24) (Expr (Mac (UINT_WIDTH 24))),
        c_define (INT_FAST_WIDTH 24) (Expr (Mac (UINT_FAST_WIDTH 24))),
        c_undef (uleast_width 16),
        c_define (uleast_width 16) (Expr (Mac (UINT_WIDTH 24))),
        c_undef (uleast_width 8),
        c_define (uleast_width 8) (Expr (Mac (UINT_WIDTH 24)))] []]"

definition limits_16 :: "cpp \<Rightarrow> cpp" where
  "limits_16 =
    c_ifdef (INT_TYPE 16) [
      c_define (INT_MAX 16) (Expr (Const (INT_C 16) 32767)),
      c_define (INT_MIN 16) (Expr (Sub (Neg (Const (INT_C 16) 32767)) (Num 1 ''''))),
      c_define (UINT_MAX 16) (Expr (Const (UINT_C 16) 65535)),
      c_undef (least_min 16),
      c_define (least_min 16) (Expr (Mac (INT_MIN 16))),
      c_undef (least_max 16),
      c_define (least_max 16) (Expr (Mac (INT_MAX 16))),
      c_undef (uleast_max 16),
      c_define (uleast_max 16) (Expr (Mac (UINT_MAX 16))),
      c_undef (least_min 8),
      c_define (least_min 8) (Expr (Mac (INT_MIN 16))),
      c_undef (least_max 8),
      c_define (least_max 8) (Expr (Mac (INT_MAX 16))),
      c_undef (uleast_max 8),
      c_define (uleast_max 8) (Expr (Mac (UINT_MAX 16))),
      c_if c2x [
        c_define (UINT_WIDTH 16) (Expr (Num 16 '''')),
        c_define (INT_WIDTH 16) (Expr (Mac (UINT_WIDTH 16))),
        c_undef (uleast_width 16),
        c_define (uleast_width 16) (Expr (Mac (UINT_WIDTH 16))),
        c_undef (uleast_width 8),
        c_define (uleast_width 8) (Expr (Mac (UINT_WIDTH 16)))] []]"

definition limits_8 :: "cpp \<Rightarrow> cpp" where
  "limits_8 =
    c_ifdef (INT_TYPE 8) [
      c_define (INT_MAX 8) (Expr (Const (INT_C 8) 127)),
      c_define (INT_MIN 8) (Expr (Sub (Neg (Const (INT_C 8) 127)) (Num 1 ''''))),
      c_define (UINT_MAX 8) (Expr (Const (UINT_C 8) 255)),
      c_undef (least_min 8),
      c_define (least_min 8) (Expr (Mac (INT_MIN 8))),
      c_undef (least_max 8),
      c_define (least_max 8) (Expr (Mac (INT_MAX 8))),
      c_undef (uleast_max 8),
      c_define (uleast_max 8) (Expr (Mac (UINT_MAX 8))),
      c_if c2x [
        c_define (UINT_WIDTH 8) (Expr (Num 8 '''')),
        c_define (INT_WIDTH 8) (Expr (Mac (UINT_WIDTH 8))),
        c_undef (uleast_width 8),
        c_define (uleast_width 8) (Expr (Mac (UINT_WIDTH 8)))] []]"

definition limits_56_48_40 :: "cpp \<Rightarrow> cpp" where
  "limits_56_48_40 = run [
     limits_mid 56 36028797018963967 72057594037927935,
     limits_mid 48 140737488355327 281474976710655,
     limits_mid 40 549755813887 1099511627775]"

definition stdint_limits :: "cpp \<Rightarrow> cpp" where
  "stdint_limits = run [
     limits_64, least_limits 64, limits_56_48_40, limits_32, least_limits 32, limits_24,
     limits_16, least_limits 16, limits_8, least_limits 8]"

section \<open>Pointers, greatest widths and the rest\<close>

definition pointer_types :: "cpp \<Rightarrow> cpp" where
  "pointer_types = run [
     c_ifndef (Plain ''__int8_t_defined'') [
       c_define (Plain ''__int8_t_defined'') (Word '''')],
     c_ifndef (Plain ''_INTPTR_T'') [
       c_ifndef (Plain ''__intptr_t_defined'') [
         c_typedef (Plain ''__INTPTR_TYPE__'') (Plain ''intptr_t''),
         c_define (Plain ''__intptr_t_defined'') (Word ''''),
         c_define (Plain ''_INTPTR_T'') (Word '''')]],
     c_ifndef (Plain ''_UINTPTR_T'') [
       c_typedef (Plain ''__UINTPTR_TYPE__'') (Plain ''uintptr_t''),
       c_define (Plain ''_UINTPTR_T'') (Word '''')],
     c_typedef (Plain ''__INTMAX_TYPE__'') (Plain ''intmax_t''),
     c_typedef (Plain ''__UINTMAX_TYPE__'') (Plain ''uintmax_t'')]"

definition c_alias :: "string \<Rightarrow> string \<Rightarrow> cpp \<Rightarrow> cpp" where
  "c_alias n m = c_define (Plain n) (Expr (Mac (Plain m)))"

text \<open>\<open>(-m-1)\<close>, the least value of a signed type with the greatest value \<open>m\<close>.\<close>

definition negative_limit :: "string \<Rightarrow> string \<Rightarrow> cpp \<Rightarrow> cpp" where
  "negative_limit n m = c_define (Plain n) (Expr (Sub (Neg (Mac (Plain m))) (Num 1 '''')))"

definition pointer_limits :: "cpp \<Rightarrow> cpp" where
  "pointer_limits = run [
     negative_limit ''INTPTR_MIN'' ''__INTPTR_MAX__'',
     c_alias ''INTPTR_MAX'' ''__INTPTR_MAX__'',
     c_alias ''UINTPTR_MAX'' ''__UINTPTR_MAX__'',
     negative_limit ''PTRDIFF_MIN'' ''__PTRDIFF_MAX__'',
     c_alias ''PTRDIFF_MAX'' ''__PTRDIFF_MAX__'',
     c_alias ''SIZE_MAX'' ''__SIZE_MAX__'',
     c_if c2x [
       c_alias ''INTPTR_WIDTH'' ''__INTPTR_WIDTH__'',
       c_alias ''UINTPTR_WIDTH'' ''__UINTPTR_WIDTH__''] []]"

definition lib_ext1 :: "cpp \<Rightarrow> bool" where
  "lib_ext1 s \<longleftrightarrow> (case macros s (Plain ''__STDC_WANT_LIB_EXT1__'') of
     Some (Expr (Num v suf)) \<Rightarrow> v \<ge> 1 | _ \<Rightarrow> False)"

definition greatest_limits :: "cpp \<Rightarrow> cpp" where
  "greatest_limits = run [
     c_if lib_ext1 [
       c_define (Plain ''RSIZE_MAX'') (Expr (Shr (Mac (Plain ''SIZE_MAX'')) (Num 1 '''')))] [],
     negative_limit ''INTMAX_MIN'' ''__INTMAX_MAX__'',
     c_alias ''INTMAX_MAX'' ''__INTMAX_MAX__'',
     c_alias ''UINTMAX_MAX'' ''__UINTMAX_MAX__'',
     c_if c2x [
       c_alias ''INTMAX_WIDTH'' ''__INTMAX_WIDTH__'',
       c_alias ''UINTMAX_WIDTH'' ''__UINTMAX_WIDTH__''] []]"

text \<open>\<open>#if __WCHAR_MAX__ == __INTN_MAX(__WCHAR_WIDTH__)\<close>\<close>

definition wchar_signed :: "target \<Rightarrow> cpp \<Rightarrow> bool" where
  "wchar_signed T s \<longleftrightarrow>
     map_option val (eval T 16 s (Mac (Plain ''__WCHAR_MAX__''))) =
     map_option val (eval T 16 s (IntN INT_MAX (Plain ''__WCHAR_WIDTH__'')))"

definition other_limits :: "target \<Rightarrow> cpp \<Rightarrow> cpp" where
  "other_limits T = run [
     c_define (Plain ''SIG_ATOMIC_MIN'') (Expr (IntN INT_MIN (Plain ''__SIG_ATOMIC_WIDTH__''))),
     c_define (Plain ''SIG_ATOMIC_MAX'') (Expr (IntN INT_MAX (Plain ''__SIG_ATOMIC_WIDTH__''))),
     c_if (c_defined (Plain ''__WINT_UNSIGNED__'')) [
       c_define (Plain ''WINT_MIN'') (Expr (IntNC UINT_C (Plain ''__WINT_WIDTH__'') 0)),
       c_define (Plain ''WINT_MAX'') (Expr (IntN UINT_MAX (Plain ''__WINT_WIDTH__'')))] [
       c_define (Plain ''WINT_MIN'') (Expr (IntN INT_MIN (Plain ''__WINT_WIDTH__''))),
       c_define (Plain ''WINT_MAX'') (Expr (IntN INT_MAX (Plain ''__WINT_WIDTH__'')))],
     c_ifndef (Plain ''WCHAR_MAX'') [
       c_alias ''WCHAR_MAX'' ''__WCHAR_MAX__''],
     c_ifndef (Plain ''WCHAR_MIN'') [
       c_if (wchar_signed T) [
         c_define (Plain ''WCHAR_MIN'') (Expr (IntN INT_MIN (Plain ''__WCHAR_WIDTH__'')))] [
         c_define (Plain ''WCHAR_MIN'') (Expr (IntNC UINT_C (Plain ''__WCHAR_WIDTH__'') 0))]],
     c_define (Plain ''INTMAX_C'') (Fun (Int_c (Plain ''__INTMAX_C_SUFFIX__''))),
     c_define (Plain ''UINTMAX_C'') (Fun (Int_c (Plain ''__UINTMAX_C_SUFFIX__''))),
     c_if c2x [
       c_alias ''PTRDIFF_WIDTH'' ''__PTRDIFF_WIDTH__'',
       c_alias ''SIG_ATOMIC_WIDTH'' ''__SIG_ATOMIC_WIDTH__'',
       c_alias ''SIZE_WIDTH'' ''__SIZE_WIDTH__'',
       c_alias ''WCHAR_WIDTH'' ''__WCHAR_WIDTH__'',
       c_alias ''WINT_WIDTH'' ''__WINT_WIDTH__''] []]"

section \<open>The header\<close>

definition stdint_freestanding :: "target \<Rightarrow> cpp \<Rightarrow> cpp" where
  "stdint_freestanding T = run [
     stdint_types, pointer_types, stdint_constants, stdint_limits,
     pointer_limits, greatest_limits, other_limits T]"

text \<open>
  In a hosted environment with a system header, here \<open>sys\<close>, that header is used, with the
  two C++ macros set around it.
\<close>

definition stdint_hosted :: "(cpp \<Rightarrow> cpp) \<Rightarrow> cpp \<Rightarrow> cpp" where
  "stdint_hosted sys = run [
     c_ifdef (Plain ''__cplusplus'') [
       c_ifndef (Plain ''__STDC_LIMIT_MACROS'') [
         c_define (Plain ''__STDC_LIMIT_MACROS'') (Word ''''),
         c_define (Plain ''__STDC_LIMIT_MACROS_DEFINED_BY_CLANG'') (Word '''')],
       c_ifndef (Plain ''__STDC_CONSTANT_MACROS'') [
         c_define (Plain ''__STDC_CONSTANT_MACROS'') (Word ''''),
         c_define (Plain ''__STDC_CONSTANT_MACROS_DEFINED_BY_CLANG'') (Word '''')]],
     sys,
     c_ifdef (Plain ''__STDC_LIMIT_MACROS_DEFINED_BY_CLANG'') [
       c_undef (Plain ''__STDC_LIMIT_MACROS''),
       c_undef (Plain ''__STDC_LIMIT_MACROS_DEFINED_BY_CLANG'')],
     c_ifdef (Plain ''__STDC_CONSTANT_MACROS_DEFINED_BY_CLANG'') [
       c_undef (Plain ''__STDC_CONSTANT_MACROS''),
       c_undef (Plain ''__STDC_CONSTANT_MACROS_DEFINED_BY_CLANG'')]]"

definition hosted :: "(cpp \<Rightarrow> cpp) option \<Rightarrow> cpp \<Rightarrow> bool" where
  "hosted sys s \<longleftrightarrow> sys \<noteq> None \<and> (case macros s (Plain ''__STDC_HOSTED__'') of
     Some (Expr (Num v suf)) \<Rightarrow> v \<noteq> 0 | _ \<Rightarrow> False)"

text \<open>\<open>sys\<close> is the next \<open>stdint.h\<close> on the include path, if there is one.\<close>

definition stdint_h :: "target \<Rightarrow> (cpp \<Rightarrow> cpp) option \<Rightarrow> cpp \<Rightarrow> cpp" where
  "stdint_h T sys =
    c_ifndef (Plain ''__CLANG_STDINT_H'') [
      c_if (\<lambda>s. \<not> c_defined (Plain ''_AIX'') s \<or> \<not> c_defined (Plain ''_STD_TYPES_T'') s \<or>
          \<not> c_defined (Plain ''__STDC_HOSTED__'') s) [
        c_define (Plain ''__CLANG_STDINT_H'') (Word '''')] [],
      c_if (hosted sys) [stdint_hosted (the sys)] [stdint_freestanding T]]"

end
