(* ===== verification/StdintCascade.thy ===== *)
theory StdintCascade
  imports Stdint
begin

text \<open>
  The three cascades of \<open>stdint.h\<close> against their specification. A target has exact types of
  some of the eight widths the header knows; \<open>narrow\<close> is the width a least-width type should
  have. Each block of a cascade is a step of an invariant whose parameter is the width down to
  which the widths have been seen; the properties at the end are about the whole header.
\<close>

section \<open>Targets\<close>

text \<open>The integer types of a target: the widths, the C types and the suffixes of their constants.\<close>

record int_types =
  widths :: "nat set"
  sname :: "nat \<Rightarrow> string"
  uname :: "nat \<Rightarrow> string"
  csuffix :: "nat \<Rightarrow> string option"

definition levels :: "nat list" where
  "levels = [8, 16, 24, 32, 40, 48, 56, 64]"

definition std :: "nat \<Rightarrow> bool" where
  "std k \<longleftrightarrow> k \<in> {8, 16, 32, 64}"

text \<open>The width of the narrowest type that has at least \<open>k\<close> bits.\<close>

definition narrow :: "nat set \<Rightarrow> nat \<Rightarrow> nat option" where
  "narrow W k = find (\<lambda>w. k \<le> w \<and> w \<in> W) levels"

text \<open>Least-width types exist for the standard widths and for the exact widths in between.\<close>

definition least_type :: "nat set \<Rightarrow> nat \<Rightarrow> nat option" where
  "least_type W k = (if std k then narrow W k else if k \<in> W then Some k else None)"

definition compiler :: "int_types \<Rightarrow> cpp \<Rightarrow> bool" where
  "compiler I s \<longleftrightarrow> widths I \<subseteq> set levels \<and>
     (\<forall>n. macros s (INT_TYPE n) = (if n \<in> widths I then Some (Word (sname I n)) else None)) \<and>
     (\<forall>n. macros s (UINT_TYPE n) = (if n \<in> widths I then Some (Word (uname I n)) else None)) \<and>
     (\<forall>n. macros s (INT_C_SUFFIX n) = (if n \<in> widths I then map_option Word (csuffix I n) else None))"

lemma narrow_width: "narrow W k = Some w \<Longrightarrow> w \<in> W \<and> k \<le> w \<and> w \<in> set levels"
  by (auto simp: narrow_def find_Some_iff)

lemma narrow_minimal: "narrow W k = Some w \<Longrightarrow> v \<in> W \<Longrightarrow> k \<le> v \<Longrightarrow> v \<in> set levels \<Longrightarrow> w \<le> v"
  by (auto simp: narrow_def levels_def split: if_splits)

text \<open>Consecutive levels; 65 stands above the last one.\<close>

definition consec :: "nat \<Rightarrow> nat \<Rightarrow> bool" where
  "consec n n' \<longleftrightarrow> (n, n') \<in> set (zip levels (tl levels @ [65]))"

lemma consec_simps:
  "consec 64 65" "consec 56 64" "consec 48 56" "consec 40 48" "consec 32 40" "consec 24 32"
  "consec 16 24" "consec 8 16"
  by (simp_all add: consec_def levels_def)

lemma narrow_top: "narrow W (max 65 k) = None"
  by (simp add: narrow_def levels_def)

lemma narrow_steps:
  "narrow W (max 64 k) = (if k \<le> 64 \<and> 64 \<in> W then Some 64 else narrow W (max 65 k))"
  "narrow W (max 56 k) = (if k \<le> 56 \<and> 56 \<in> W then Some 56 else narrow W (max 64 k))"
  "narrow W (max 48 k) = (if k \<le> 48 \<and> 48 \<in> W then Some 48 else narrow W (max 56 k))"
  "narrow W (max 40 k) = (if k \<le> 40 \<and> 40 \<in> W then Some 40 else narrow W (max 48 k))"
  "narrow W (max 32 k) = (if k \<le> 32 \<and> 32 \<in> W then Some 32 else narrow W (max 40 k))"
  "narrow W (max 24 k) = (if k \<le> 24 \<and> 24 \<in> W then Some 24 else narrow W (max 32 k))"
  "narrow W (max 16 k) = (if k \<le> 16 \<and> 16 \<in> W then Some 16 else narrow W (max 24 k))"
  "narrow W (max 8 k) = (if k \<le> 8 \<and> 8 \<in> W then Some 8 else narrow W (max 16 k))"
  by (simp_all add: narrow_def levels_def)

lemma consec_cases:
  "consec n n' \<Longrightarrow> n = 64 \<and> n' = 65 \<or> n = 56 \<and> n' = 64 \<or> n = 48 \<and> n' = 56 \<or> n = 40 \<and> n' = 48 \<or>
     n = 32 \<and> n' = 40 \<or> n = 24 \<and> n' = 32 \<or> n = 16 \<and> n' = 24 \<or> n = 8 \<and> n' = 16"
  by (auto simp: consec_def levels_def)

lemma narrow_step:
  "consec n n' \<Longrightarrow> narrow W (max n k) = (if k \<le> n \<and> n \<in> W then Some n else narrow W (max n' k))"
  by (drule consec_cases, elim disjE conjE; hypsubst; rule narrow_steps)

lemma level_step: "consec n n' \<Longrightarrow> k \<in> set levels \<Longrightarrow> n \<le> k \<longleftrightarrow> k = n \<or> n' \<le> k"
  by (drule consec_cases) (auto simp: levels_def)

lemma least_type_level: "W \<subseteq> set levels \<Longrightarrow> k \<notin> set levels \<Longrightarrow> least_type W k = None"
  by (auto simp: least_type_def std_def levels_def)

text \<open>
  The two shapes of a table that a cascade fills: \<open>cascade W n h f\<close>, for each standard width what
  \<open>h\<close> says of the narrowest suitable width among those from \<open>n\<close> on, and \<open>from_level m g f\<close>, the values
  of \<open>g\<close> from \<open>m\<close> on. A block adds one level.
\<close>

definition cascade :: "nat set \<Rightarrow> nat \<Rightarrow> (nat \<Rightarrow> 'a option) \<Rightarrow> (nat \<Rightarrow> 'a option) \<Rightarrow> bool" where
  "cascade W n h f \<longleftrightarrow> (\<forall>k. f k = (if std k then Option.bind (narrow W (max n k)) h else None))"

definition from_level :: "nat \<Rightarrow> (nat \<Rightarrow> 'a option) \<Rightarrow> (nat \<Rightarrow> 'a option) \<Rightarrow> bool" where
  "from_level m g f \<longleftrightarrow> (\<forall>k. f k = (if m \<le> k then g k else None))"

lemma cascade_step:
  "cascade W n' h f \<Longrightarrow> consec n n' \<Longrightarrow> (\<And>k. f' k = (if n \<in> W \<and> std k \<and> k \<le> n then h n else f k)) \<Longrightarrow>
   cascade W n h f'"
  by (simp add: cascade_def narrow_step)

lemma from_level_step:
  assumes "from_level m' g f" "consec m m'" "\<And>k. k \<notin> set levels \<Longrightarrow> g k = None"
    and "\<And>k. f' k = (if k = m then g k else f k)"
  shows "from_level m g f'"
proof -
  have "(if m \<le> k then g k else None) = (if k = m then g k else if m' \<le> k then g k else None)" for k
    using level_step [OF assms(2), of k] assms(3) [of k] by (cases "k \<in> set levels") auto
  with assms(1,4) show ?thesis by (simp add: from_level_def)
qed

definition for_widths :: "nat set \<Rightarrow> (nat \<Rightarrow> 'a) \<Rightarrow> nat \<Rightarrow> 'a option" where
  "for_widths W h k = (if k \<in> W then Some (h k) else None)"

lemma for_widths_level: "W \<subseteq> set levels \<Longrightarrow> k \<notin> set levels \<Longrightarrow> for_widths W h k = None"
  by (auto simp: for_widths_def)

section \<open>Types\<close>

text \<open>
  \<open>exact I n s\<close>: the exact types from \<open>n\<close> bits on are defined, and each \<open>__int_leastN_t\<close> names
  the narrowest suitable type among those. \<open>leasts I m s\<close>: the public least-width and fastest
  types from \<open>m\<close> bits on are what they should be.
\<close>

definition exact :: "int_types \<Rightarrow> nat \<Rightarrow> cpp \<Rightarrow> bool" where
  "exact I n s \<longleftrightarrow> compiler I s \<and>
     cascade (widths I) n (\<lambda>w. Some (Expr (Mac (int_t w)))) (\<lambda>k. macros s (int_least k)) \<and>
     cascade (widths I) n (\<lambda>w. Some (Expr (Mac (uint_t w)))) (\<lambda>k. macros s (uint_least k)) \<and>
     (\<forall>k. macros s (int_t k) = None \<and> macros s (uint_t k) = None) \<and>
     from_level n (for_widths (widths I) (sname I)) (\<lambda>k. types s (int_t k)) \<and>
     from_level n (for_widths (widths I) (uname I)) (\<lambda>k. types s (uint_t k))"

definition leasts :: "int_types \<Rightarrow> nat \<Rightarrow> cpp \<Rightarrow> bool" where
  "leasts I m s \<longleftrightarrow>
     from_level m (\<lambda>k. map_option (sname I) (least_type (widths I) k)) (\<lambda>k. types s (int_least_t k)) \<and>
     from_level m (\<lambda>k. map_option (uname I) (least_type (widths I) k)) (\<lambda>k. types s (uint_least_t k)) \<and>
     from_level m (\<lambda>k. map_option (sname I) (least_type (widths I) k)) (\<lambda>k. types s (int_fast_t k)) \<and>
     from_level m (\<lambda>k. map_option (uname I) (least_type (widths I) k)) (\<lambda>k. types s (uint_fast_t k))"

lemma exact_step:
  assumes "exact I n' s" "consec n n'"
    and "\<And>k. macros s' (INT_TYPE k) = macros s (INT_TYPE k)" "\<And>k. macros s' (UINT_TYPE k) = macros s (UINT_TYPE k)"
    and "\<And>k. macros s' (INT_C_SUFFIX k) = macros s (INT_C_SUFFIX k)"
    and "\<And>k. macros s' (int_t k) = macros s (int_t k)" "\<And>k. macros s' (uint_t k) = macros s (uint_t k)"
    and "\<And>k. macros s' (int_least k) =
      (if n \<in> widths I \<and> std k \<and> k \<le> n then Some (Expr (Mac (int_t n))) else macros s (int_least k))"
    and "\<And>k. macros s' (uint_least k) =
      (if n \<in> widths I \<and> std k \<and> k \<le> n then Some (Expr (Mac (uint_t n))) else macros s (uint_least k))"
    and "\<And>k. types s' (int_t k) = (if n \<in> widths I \<and> k = n then Some (sname I n) else types s (int_t k))"
    and "\<And>k. types s' (uint_t k) = (if n \<in> widths I \<and> k = n then Some (uname I n) else types s (uint_t k))"
  shows "exact I n s'"
proof -
  note ex = assms(1) [unfolded exact_def]
  have W: "widths I \<subseteq> set levels" using ex by (simp add: compiler_def)
  have "n < n'" using assms(2) by (auto dest: consec_cases)
  then have none: "types s (int_t n) = None" "types s (uint_t n) = None"
    using ex by (simp_all add: from_level_def)
  have fl: "from_level n' (for_widths (widths I) (sname I)) (\<lambda>k. types s (int_t k))"
    "from_level n' (for_widths (widths I) (uname I)) (\<lambda>k. types s (uint_t k))"
    using ex by simp_all
  have "from_level n (for_widths (widths I) (sname I)) (\<lambda>k. types s' (int_t k))"
    by (rule from_level_step [OF fl(1) assms(2) for_widths_level [OF W]])
      (simp_all add: assms(10) none for_widths_def)
  moreover have "from_level n (for_widths (widths I) (uname I)) (\<lambda>k. types s' (uint_t k))"
    by (rule from_level_step [OF fl(2) assms(2) for_widths_level [OF W]])
      (simp_all add: assms(11) none for_widths_def)
  moreover have "cascade (widths I) n (\<lambda>w. Some (Expr (Mac (int_t w)))) (\<lambda>k. macros s' (int_least k))"
    by (rule cascade_step [OF _ assms(2)]) (use ex assms(8) in auto)
  moreover have "cascade (widths I) n (\<lambda>w. Some (Expr (Mac (uint_t w)))) (\<lambda>k. macros s' (uint_least k))"
    by (rule cascade_step [OF _ assms(2)]) (use ex assms(9) in auto)
  ultimately show ?thesis
    using ex assms(3-7) by (simp add: exact_def compiler_def)
qed

lemma leasts_step:
  assumes "leasts I m' s" "consec m m'" "widths I \<subseteq> set levels"
    and "\<And>k. types s' (int_least_t k) =
      (if k = m then map_option (sname I) (least_type (widths I) k) else types s (int_least_t k))"
    and "\<And>k. types s' (uint_least_t k) =
      (if k = m then map_option (uname I) (least_type (widths I) k) else types s (uint_least_t k))"
    and "\<And>k. types s' (int_fast_t k) =
      (if k = m then map_option (sname I) (least_type (widths I) k) else types s (int_fast_t k))"
    and "\<And>k. types s' (uint_fast_t k) =
      (if k = m then map_option (uname I) (least_type (widths I) k) else types s (uint_fast_t k))"
  shows "leasts I m s'"
proof -
  note step = from_level_step [OF _ assms(2)]
  have none: "k \<notin> set levels \<Longrightarrow> map_option f (least_type (widths I) k) = None" for k and f :: "nat \<Rightarrow> string"
    by (simp add: least_type_level [OF assms(3)])
  show ?thesis
    using assms(1) unfolding leasts_def
    by (elim conjE, intro conjI) (erule step, rule none, assumption, rule assms(4-7))+
qed

lemma leasts_cong: "leasts I m s \<Longrightarrow> (\<And>k. types s' (int_least_t k) = types s (int_least_t k)) \<Longrightarrow>
   (\<And>k. types s' (uint_least_t k) = types s (uint_least_t k)) \<Longrightarrow>
   (\<And>k. types s' (int_fast_t k) = types s (int_fast_t k)) \<Longrightarrow>
   (\<And>k. types s' (uint_fast_t k) = types s (uint_fast_t k)) \<Longrightarrow> leasts I m s'"
  by (simp add: leasts_def)

definition no_glibc :: "cpp \<Rightarrow> bool" where
  "no_glibc s \<longleftrightarrow> macros s (Plain ''__int8_t_defined'') = None \<and> macros s (Plain ''__uint32_t_defined'') = None"

text \<open>The state between two blocks of the cascade.\<close>

definition typed :: "int_types \<Rightarrow> nat \<Rightarrow> nat \<Rightarrow> cpp \<Rightarrow> bool" where
  "typed I n m s \<longleftrightarrow> exact I n s \<and> leasts I m s \<and> clean s \<and> macros s (Plain ''__int8_t_defined'') = None \<and>
     (32 < n \<longrightarrow> macros s (Plain ''__uint32_t_defined'') = None)"

lemmas table_defs = exact_def leasts_def compiler_def cascade_def from_level_def for_widths_def

lemmas block_simps = c_if_def c_defined_def expand_simps

lemma types_64_typed:
  assumes "typed I 65 65 s"
  shows "typed I 64 65 (types_64 s)"
proof -
  have ex: "exact I 65 s" and le: "leasts I 65 s" and cl: "clean s"
    and pl: "macros s (Plain ''__int8_t_defined'') = None" "macros s (Plain ''__uint32_t_defined'') = None"
    using assms by (simp_all add: typed_def)
  note f = ex [unfolded table_defs]
  have "exact I 64 (types_64 s)"
    by (rule exact_step [OF ex consec_simps(1)])
      (use f pl in \<open>auto simp: types_64_def block_simps std_def\<close>)
  moreover have "leasts I 65 (types_64 s)"
    by (rule leasts_cong [OF le]) (use f in \<open>simp_all add: types_64_def block_simps\<close>)
  moreover have "clean (types_64 s)"
    using f pl cl by (simp add: types_64_def block_simps)
  ultimately show ?thesis
    using pl by (simp add: typed_def types_64_def block_simps)
qed

lemma types_32_typed:
  assumes "typed I 40 m s"
  shows "typed I 32 m (types_32 s)"
proof -
  have ex: "exact I 40 s" and le: "leasts I m s" and cl: "clean s"
    and pl: "macros s (Plain ''__int8_t_defined'') = None" "macros s (Plain ''__uint32_t_defined'') = None"
    using assms by (simp_all add: typed_def)
  note f = ex [unfolded table_defs]
  have "exact I 32 (types_32 s)"
    by (rule exact_step [OF ex consec_simps(5)])
      (use f pl in \<open>auto simp: types_32_def block_simps std_def\<close>)
  moreover have "leasts I m (types_32 s)"
    by (rule leasts_cong [OF le]) (use f pl in \<open>simp_all add: types_32_def block_simps\<close>)
  moreover have "clean (types_32 s)"
    using f pl cl by (simp add: types_32_def block_simps)
  ultimately show ?thesis
    using pl by (simp add: typed_def types_32_def block_simps)
qed

lemma types_16_typed:
  assumes "typed I 24 m s"
  shows "typed I 16 m (types_16 s)"
proof -
  have ex: "exact I 24 s" and le: "leasts I m s" and cl: "clean s"
    and pl: "macros s (Plain ''__int8_t_defined'') = None"
    using assms by (simp_all add: typed_def)
  note f = ex [unfolded table_defs]
  have "exact I 16 (types_16 s)"
    by (rule exact_step [OF ex consec_simps(7)])
      (use f pl in \<open>auto simp: types_16_def block_simps std_def\<close>)
  moreover have "leasts I m (types_16 s)"
    by (rule leasts_cong [OF le]) (use f pl in \<open>simp_all add: types_16_def block_simps\<close>)
  moreover have "clean (types_16 s)"
    using f pl cl by (simp add: types_16_def block_simps)
  ultimately show ?thesis
    using pl by (simp add: typed_def types_16_def block_simps)
qed

lemma types_8_typed:
  assumes "typed I 16 m s"
  shows "typed I 8 m (types_8 s)"
proof -
  have ex: "exact I 16 s" and le: "leasts I m s" and cl: "clean s"
    and pl: "macros s (Plain ''__int8_t_defined'') = None"
    using assms by (simp_all add: typed_def)
  note f = ex [unfolded table_defs]
  have "exact I 8 (types_8 s)"
    by (rule exact_step [OF ex consec_simps(8)])
      (use f pl in \<open>auto simp: types_8_def block_simps std_def\<close>)
  moreover have "leasts I m (types_8 s)"
    by (rule leasts_cong [OF le]) (use f pl in \<open>simp_all add: types_8_def block_simps\<close>)
  moreover have "clean (types_8 s)"
    using f pl cl by (simp add: types_8_def block_simps)
  ultimately show ?thesis
    using pl by (simp add: typed_def types_8_def block_simps)
qed

lemma types_mid_typed:
  assumes "typed I n' n' s" "consec n n'" "n \<in> {56, 48, 40}"
  shows "typed I n n (types_mid n s)"
proof -
  have ex: "exact I n' s" and le: "leasts I n' s" and cl: "clean s"
    using assms(1) by (simp_all add: typed_def)
  have n: "\<not> std n" "\<And>k. std k \<and> k \<le> n \<longleftrightarrow> k \<in> {32, 16, 8}" "n < n'" "32 < n" "32 < n'"
    using assms(2,3) by (auto simp: std_def dest: consec_cases)
  note f = ex [unfolded table_defs] and g = le [unfolded table_defs]
  have W: "widths I \<subseteq> set levels" using f by blast
  have "exact I n (types_mid n s)"
    by (rule exact_step [OF ex assms(2)])
      (use f n in \<open>auto simp: types_mid_def block_simps\<close>)
  moreover have "leasts I n (types_mid n s)"
    by (rule leasts_step [OF le assms(2) W])
      (use f g n in \<open>auto simp: types_mid_def block_simps least_type_def\<close>)
  moreover have "clean (types_mid n s)"
    using f g n cl by (auto simp: types_mid_def block_simps)
  ultimately show ?thesis
    using assms(1) n by (auto simp: typed_def types_mid_def block_simps)
qed

lemma types_24_typed:
  assumes "typed I 32 32 s"
  shows "typed I 24 24 (types_24 s)"
proof -
  have ex: "exact I 32 s" and le: "leasts I 32 s" and cl: "clean s"
    using assms by (simp_all add: typed_def)
  have n: "\<not> std 24" "\<And>k. std k \<and> k \<le> 24 \<longleftrightarrow> k \<in> {16, 8}" by (auto simp: std_def)
  note f = ex [unfolded table_defs] and g = le [unfolded table_defs]
  have W: "widths I \<subseteq> set levels" using f by blast
  have "exact I 24 (types_24 s)"
    by (rule exact_step [OF ex consec_simps(6)])
      (use f n in \<open>auto simp: types_24_def block_simps\<close>)
  moreover have "leasts I 24 (types_24 s)"
    by (rule leasts_step [OF le consec_simps(6) W])
      (use f g n in \<open>auto simp: types_24_def block_simps least_type_def\<close>)
  moreover have "clean (types_24 s)"
    using f g n cl by (auto simp: types_24_def block_simps)
  ultimately show ?thesis
    using assms by (auto simp: typed_def types_24_def block_simps)
qed

lemma least_types_typed:
  assumes "typed I n n' s" "consec n n'" "std n"
  shows "typed I n n (least_types n s)"
proof -
  have ex: "exact I n s" and le: "leasts I n' s" and cl: "clean s"
    using assms(1) by (simp_all add: typed_def)
  have n: "n < n'" using assms(2) by (auto dest: consec_cases)
  note f = ex [unfolded table_defs] and g = le [unfolded table_defs]
  have W: "widths I \<subseteq> set levels" using f by blast
  have ex': "exact I n (least_types n s)"
    using ex by (simp add: table_defs least_types_def c_if_def)
  have pl: "macros (least_types n s) = macros s"
    by (simp add: least_types_def c_if_def)
  show ?thesis
  proof (cases "narrow (widths I) n")
    case None
    then have "least_types n s = s"
      using f assms(3) by (simp add: least_types_def block_simps)
    moreover have "leasts I n s"
      by (rule leasts_step [OF le assms(2) W]) (use g n assms(3) None in \<open>auto simp: least_type_def\<close>)
    ultimately show ?thesis using assms(1) ex by (simp add: typed_def)
  next
    case (Some w)
    from narrow_width [OF this] have w: "w \<in> widths I" "n \<le> w" by simp_all
    have new: "macros s (int_least n) = Some (Expr (Mac (int_t w)))"
      "macros s (uint_least n) = Some (Expr (Mac (uint_t w)))"
      "types s (int_t w) = Some (sname I w)" "types s (uint_t w) = Some (uname I w)"
      using f w assms(3) Some by simp_all
    have "leasts I n (least_types n s)"
      by (rule leasts_step [OF le assms(2) W])
        (use f new assms(3) Some in \<open>auto simp: least_types_def block_simps least_type_def\<close>)
    moreover have "clean (least_types n s)"
      using f g n cl new by (simp add: least_types_def block_simps)
    ultimately show ?thesis using assms(1) ex' by (simp add: typed_def pl)
  qed
qed

text \<open>The whole cascade of types.\<close>

lemma stdint_types_typed:
  assumes "typed I 65 65 s"
  shows "typed I 8 8 (stdint_types s)"
proof -
  have std: "std 64" "std 32" "std 16" "std 8" by (simp_all add: std_def)
  note mids = types_mid_typed [OF _ consec_simps(2)] types_mid_typed [OF _ consec_simps(3)]
    types_mid_typed [OF _ consec_simps(4)]
  have "typed I 64 64 (least_types 64 (types_64 s))"
    by (rule least_types_typed [OF types_64_typed [OF assms] consec_simps(1) std(1)])
  then have "typed I 40 40 (types_56_48_40 (least_types 64 (types_64 s)))" (is "typed I 40 40 ?a")
    using mids by (simp add: types_56_48_40_def)
  then have "typed I 32 32 (least_types 32 (types_32 ?a))"
    by (rule least_types_typed [OF types_32_typed consec_simps(5) std(2)])
  then have "typed I 16 16 (least_types 16 (types_16 (types_24 (least_types 32 (types_32 ?a)))))"
    by (rule least_types_typed [OF types_16_typed [OF types_24_typed] consec_simps(7) std(3)])
  then have "typed I 8 8 (least_types 8 (types_8 (least_types 16 (types_16 (types_24 (least_types 32 (types_32 ?a)))))))"
    by (rule least_types_typed [OF types_8_typed consec_simps(8) std(4)])
  then show ?thesis by (simp add: stdint_types_def)
qed

end
