(* ===== verification/StdintConstants.thy ===== *)
theory StdintConstants
  imports StdintCascade
begin

text \<open>
  The cascade of constant suffixes and the \<open>INTn_C\<close> and \<open>UINTn_C\<close> macros of \<open>stdint.h\<close>: what each
  block adds, and the macros after the whole cascade.
\<close>

section \<open>Constants\<close>

text \<open>
  \<open>suffixes I n s\<close>: each \<open>__intN_c_suffix\<close> names the suffix of the narrowest suitable type among
  those from \<open>n\<close> bits on, if the compiler gives one. \<open>constants I m s\<close>: the constant macros from \<open>m\<close>
  bits on.
\<close>

definition suffix_body :: "int_types \<Rightarrow> nat \<Rightarrow> body option" where
  "suffix_body I w = map_option (\<lambda>_. Expr (Mac (INT_C_SUFFIX w))) (csuffix I w)"

definition suffix_macro :: "nat \<Rightarrow> nat \<Rightarrow> name" where
  "suffix_macro k w = (if std k then int_c_suffix k else INT_C_SUFFIX w)"

definition const_body :: "int_types \<Rightarrow> nat \<Rightarrow> body option" where
  "const_body I k = map_option (\<lambda>w. Fun (case csuffix I w of None \<Rightarrow> Arg | Some _ \<Rightarrow> Int_c (suffix_macro k w)))
     (least_type (widths I) k)"

definition uconst_body :: "int_types \<Rightarrow> nat \<Rightarrow> body option" where
  "uconst_body I k = map_option (\<lambda>w. Fun (case csuffix I w of None \<Rightarrow> ArgU | Some _ \<Rightarrow> Uint_c (suffix_macro k w)))
     (least_type (widths I) k)"

definition constants :: "int_types \<Rightarrow> nat \<Rightarrow> nat \<Rightarrow> cpp \<Rightarrow> bool" where
  "constants I n m s \<longleftrightarrow> compiler I s \<and> clean s \<and>
     (\<forall>k. std k \<longrightarrow> (macros s (int_least k) = None \<longleftrightarrow> narrow (widths I) k = None)) \<and>
     cascade (widths I) n (suffix_body I) (\<lambda>k. macros s (int_c_suffix k)) \<and>
     from_level m (const_body I) (\<lambda>k. macros s (INT_C k)) \<and>
     from_level m (uconst_body I) (\<lambda>k. macros s (UINT_C k))"

lemma const_level:
  "widths I \<subseteq> set levels \<Longrightarrow> k \<notin> set levels \<Longrightarrow> const_body I k = None"
  "widths I \<subseteq> set levels \<Longrightarrow> k \<notin> set levels \<Longrightarrow> uconst_body I k = None"
  by (simp_all add: const_body_def uconst_body_def least_type_level)

lemma constants_step:
  assumes "constants I n' m' s" "n = n' \<or> consec n n'" "m = m' \<or> consec m m'" "clean s'"
    and "\<And>k. macros s' (INT_TYPE k) = macros s (INT_TYPE k)" "\<And>k. macros s' (UINT_TYPE k) = macros s (UINT_TYPE k)"
    and "\<And>k. macros s' (INT_C_SUFFIX k) = macros s (INT_C_SUFFIX k)"
    and "\<And>k. macros s' (int_least k) = macros s (int_least k)"
    and "\<And>k. macros s' (int_c_suffix k) =
      (if n \<noteq> n' \<and> n \<in> widths I \<and> std k \<and> k \<le> n then suffix_body I n else macros s (int_c_suffix k))"
    and "\<And>k. macros s' (INT_C k) = (if m \<noteq> m' \<and> k = m then const_body I k else macros s (INT_C k))"
    and "\<And>k. macros s' (UINT_C k) = (if m \<noteq> m' \<and> k = m then uconst_body I k else macros s (UINT_C k))"
  shows "constants I n m s'"
proof -
  note c = assms(1) [unfolded constants_def]
  have W: "widths I \<subseteq> set levels" using c by (simp add: compiler_def)
  have cs: "cascade (widths I) n' (suffix_body I) (\<lambda>k. macros s (int_c_suffix k))"
    "from_level m' (const_body I) (\<lambda>k. macros s (INT_C k))"
    "from_level m' (uconst_body I) (\<lambda>k. macros s (UINT_C k))" using c by simp_all
  have ne: "consec a b \<Longrightarrow> a \<noteq> b" for a b by (auto dest: consec_cases)
  have "cascade (widths I) n (suffix_body I) (\<lambda>k. macros s' (int_c_suffix k))"
    using assms(2)
  proof
    assume "consec n n'"
    from cascade_step [OF cs(1) this] show ?thesis using assms(9) ne [OF \<open>consec n n'\<close>] by simp
  qed (use cs(1) assms(9) in simp)
  moreover have "from_level m (const_body I) (\<lambda>k. macros s' (INT_C k))"
    using assms(3)
  proof
    assume "consec m m'"
    from from_level_step [OF cs(2) this const_level(1) [OF W]] show ?thesis
      using assms(10) ne [OF \<open>consec m m'\<close>] by simp
  qed (use cs(2) assms(10) in simp)
  moreover have "from_level m (uconst_body I) (\<lambda>k. macros s' (UINT_C k))"
    using assms(3)
  proof
    assume "consec m m'"
    from from_level_step [OF cs(3) this const_level(2) [OF W]] show ?thesis
      using assms(11) ne [OF \<open>consec m m'\<close>] by simp
  qed (use cs(3) assms(11) in simp)
  ultimately show ?thesis
    using c assms(4-8) by (simp add: constants_def compiler_def)
qed

lemmas const_defs = constants_def compiler_def cascade_def from_level_def

lemma suffix_64_constants:
  assumes "constants I 65 m s"
  shows "constants I 64 m (suffix_64 s)"
proof (rule constants_step [OF assms])
  note f = assms [unfolded const_defs]
  have n: "\<And>k. std k \<and> k \<le> 64 \<longleftrightarrow> k \<in> {64, 32, 16, 8}" by (auto simp: std_def)
  show "clean (suffix_64 s)" 
    using f by (simp add: suffix_64_def block_simps)
  show "macros (suffix_64 s) (int_c_suffix k) =
      (if (64 :: nat) \<noteq> 65 \<and> 64 \<in> widths I \<and> std k \<and> k \<le> 64 then suffix_body I 64 else macros s (int_c_suffix k))" for k
    using f n [of k] by (auto simp: suffix_64_def block_simps suffix_body_def)
qed (simp_all add: consec_simps suffix_64_def c_if_def)

lemma suffix_32_constants:
  assumes "constants I 40 m s"
  shows "constants I 32 m (suffix_32 s)"
proof (rule constants_step [OF assms])
  note f = assms [unfolded const_defs]
  have n: "\<And>k. std k \<and> k \<le> 32 \<longleftrightarrow> k \<in> {32, 16, 8}" by (auto simp: std_def)
  show "clean (suffix_32 s)"
    using f by (simp add: suffix_32_def block_simps)
  show "macros (suffix_32 s) (int_c_suffix k) =
      (if (32 :: nat) \<noteq> 40 \<and> 32 \<in> widths I \<and> std k \<and> k \<le> 32 then suffix_body I 32 else macros s (int_c_suffix k))" for k
    using f n [of k] by (auto simp: suffix_32_def block_simps suffix_body_def)
qed (simp_all add: consec_simps suffix_32_def c_if_def)

lemma suffix_16_constants:
  assumes "constants I 24 m s"
  shows "constants I 16 m (suffix_16 s)"
proof (rule constants_step [OF assms])
  note f = assms [unfolded const_defs]
  have n: "\<And>k. std k \<and> k \<le> 16 \<longleftrightarrow> k \<in> {16, 8}" by (auto simp: std_def)
  show "clean (suffix_16 s)"
    using f by (simp add: suffix_16_def block_simps)
  show "macros (suffix_16 s) (int_c_suffix k) =
      (if (16 :: nat) \<noteq> 24 \<and> 16 \<in> widths I \<and> std k \<and> k \<le> 16 then suffix_body I 16 else macros s (int_c_suffix k))" for k
    using f n [of k] by (auto simp: suffix_16_def block_simps suffix_body_def)
qed (simp_all add: consec_simps suffix_16_def c_if_def)

lemma suffix_8_constants:
  assumes "constants I 16 m s"
  shows "constants I 8 m (suffix_8 s)"
proof (rule constants_step [OF assms])
  note f = assms [unfolded const_defs]
  have n: "\<And>k. std k \<and> k \<le> 8 \<longleftrightarrow> k \<in> {8}" by (auto simp: std_def)
  show "clean (suffix_8 s)"
    using f by (simp add: suffix_8_def block_simps)
  show "macros (suffix_8 s) (int_c_suffix k) =
      (if (8 :: nat) \<noteq> 16 \<and> 8 \<in> widths I \<and> std k \<and> k \<le> 8 then suffix_body I 8 else macros s (int_c_suffix k))" for k
    using f n [of k] by (auto simp: suffix_8_def block_simps suffix_body_def)
qed (simp_all add: consec_simps suffix_8_def c_if_def)

lemma suffix_mid_constants:
  assumes "constants I n' n' s" "consec n n'" "n \<in> {56, 48, 40}"
  shows "constants I n n (suffix_mid n s)"
proof (rule constants_step [OF assms(1)])
  note f = assms(1) [unfolded const_defs]
  have n: "\<not> std n" "\<And>k. std k \<and> k \<le> n \<longleftrightarrow> k \<in> {32, 16, 8}" "n < n'"
    using assms(2,3) by (auto simp: std_def dest: consec_cases)
  then have none: "macros s (INT_C n) = None" "macros s (UINT_C n) = None"
    using f by simp_all
  show "clean (suffix_mid n s)"
    using f none by (simp add: suffix_mid_def block_simps)
  show "macros (suffix_mid n s) (int_c_suffix k) =
      (if n \<noteq> n' \<and> n \<in> widths I \<and> std k \<and> k \<le> n then suffix_body I n else macros s (int_c_suffix k))" for k
    using f n(2) [of k] n(3) by (auto simp: suffix_mid_def block_simps suffix_body_def)
  show "macros (suffix_mid n s) (INT_C k) = (if n \<noteq> n' \<and> k = n then const_body I k else macros s (INT_C k))"
    "macros (suffix_mid n s) (UINT_C k) = (if n \<noteq> n' \<and> k = n then uconst_body I k else macros s (UINT_C k))" for k
    using f n none by (auto simp: suffix_mid_def block_simps const_body_def uconst_body_def suffix_macro_def
        least_type_def split: option.splits)
qed (use assms(2) in \<open>simp_all add: suffix_mid_def c_if_def\<close>)

lemma suffix_24_constants:
  assumes "constants I 32 32 s"
  shows "constants I 24 24 (suffix_24 s)"
proof (rule constants_step [OF assms])
  note f = assms [unfolded const_defs]
  have n: "\<not> std 24" "\<And>k. std k \<and> k \<le> 24 \<longleftrightarrow> k \<in> {16, 8}"
    by (auto simp: std_def)
  have none: "macros s (INT_C 24) = None" "macros s (UINT_C 24) = None"
    using f by simp_all
  show "clean (suffix_24 s)"
    using f none by (simp add: suffix_24_def block_simps)
  show "macros (suffix_24 s) (int_c_suffix k) =
      (if (24 :: nat) \<noteq> 32 \<and> 24 \<in> widths I \<and> std k \<and> k \<le> 24 then suffix_body I 24 else macros s (int_c_suffix k))" for k
    using f n(2) [of k] by (auto simp: suffix_24_def block_simps suffix_body_def)
  show "macros (suffix_24 s) (INT_C k) = (if (24 :: nat) \<noteq> 32 \<and> k = 24 then const_body I k else macros s (INT_C k))"
    "macros (suffix_24 s) (UINT_C k) = (if (24 :: nat) \<noteq> 32 \<and> k = 24 then uconst_body I k else macros s (UINT_C k))" for k
    using f n none by (auto simp: suffix_24_def block_simps const_body_def uconst_body_def suffix_macro_def
        least_type_def split: option.splits)
qed (simp_all add: consec_simps suffix_24_def c_if_def)

lemma least_constants_constants:
  assumes "constants I n n' s" "consec n n'" "std n"
  shows "constants I n n (least_constants n s)"
proof (rule constants_step [OF assms(1)])
  note f = assms(1) [unfolded const_defs]
  have "n < n'" using assms(2) by (auto dest: consec_cases)
  then have none: "macros s (INT_C n) = None" "macros s (UINT_C n) = None"
    using f by simp_all
  show "clean (least_constants n s)"
    using f none by (simp add: least_constants_def block_simps)
  show "macros (least_constants n s) (INT_C k) = (if n \<noteq> n' \<and> k = n then const_body I k else macros s (INT_C k))"
    "macros (least_constants n s) (UINT_C k) = (if n \<noteq> n' \<and> k = n then uconst_body I k else macros s (UINT_C k))" for k
    using f assms(3) none \<open>n < n'\<close>
    by (auto simp: least_constants_def block_simps const_body_def uconst_body_def suffix_macro_def suffix_body_def
        least_type_def split: option.splits bind_split)
qed (use assms(2) in \<open>simp_all add: least_constants_def c_if_def\<close>)

lemma stdint_constants_constants:
  assumes "constants I 65 65 s"
  shows "constants I 8 8 (stdint_constants s)"
proof -
  have std: "std 64" "std 32" "std 16" "std 8" by (simp_all add: std_def)
  note mids = suffix_mid_constants [OF _ consec_simps(2)] suffix_mid_constants [OF _ consec_simps(3)]
    suffix_mid_constants [OF _ consec_simps(4)]
  have "constants I 64 64 (least_constants 64 (suffix_64 s))"
    by (rule least_constants_constants [OF suffix_64_constants [OF assms] consec_simps(1) std(1)])
  then have "constants I 40 40 (suffix_56_48_40 (least_constants 64 (suffix_64 s)))" (is "constants I 40 40 ?a")
    using mids by (simp add: suffix_56_48_40_def)
  then have "constants I 32 32 (least_constants 32 (suffix_32 ?a))"
    by (rule least_constants_constants [OF suffix_32_constants consec_simps(5) std(2)])
  then have "constants I 16 16 (least_constants 16 (suffix_16 (suffix_24 (least_constants 32 (suffix_32 ?a)))))"
    by (rule least_constants_constants [OF suffix_16_constants [OF suffix_24_constants] consec_simps(7) std(3)])
  then have "constants I 8 8 (least_constants 8 (suffix_8
      (least_constants 16 (suffix_16 (suffix_24 (least_constants 32 (suffix_32 ?a)))))))"
    by (rule least_constants_constants [OF suffix_8_constants consec_simps(8) std(4)])
  then show ?thesis by (simp add: stdint_constants_def)
qed

end
