(* ===== verification/StdintLimits.thy ===== *)
theory StdintLimits
  imports StdintConstants
begin

text \<open>
  The cascade of limits and widths of \<open>stdint.h\<close>: the table of macros it should produce, and the
  proof that every block adds its level of that table.
\<close>

section \<open>Limits\<close>

text \<open>
  What the macros of the last cascade stand for, when the exact widths from \<open>n\<close> on and the least
  widths from \<open>m\<close> on have been seen; \<open>c\<close> says whether the width macros are wanted. The macro
  \<open>__UINT_LEAST8_WIDTH\<close> misses the 64-bit type, as the header does.
\<close>

definition smax :: "nat \<Rightarrow> nat" where "smax w = 2 ^ (w - 1) - 1"
definition umax :: "nat \<Rightarrow> nat" where "umax w = 2 ^ w - 1"

definition public_limit :: "nat set \<Rightarrow> (nat \<Rightarrow> name) \<Rightarrow> (nat \<Rightarrow> name) \<Rightarrow> nat \<Rightarrow> nat \<Rightarrow> body option" where
  "public_limit W least ex m k =
     (if m \<le> k \<and> least_type W k \<noteq> None then Some (Expr (Mac (if std k then least k else ex k))) else None)"

fun limit_spec :: "nat set \<Rightarrow> bool \<Rightarrow> nat \<Rightarrow> nat \<Rightarrow> name \<Rightarrow> body option" where
  "limit_spec W c n m (INT_MAX k) = (if n \<le> k \<and> k \<in> W then Some (Expr (Const (INT_C k) (smax k))) else None)"
| "limit_spec W c n m (INT_MIN k) =
     (if n \<le> k \<and> k \<in> W then Some (Expr (Sub (Neg (Const (INT_C k) (smax k))) (Num 1 ''''))) else None)"
| "limit_spec W c n m (UINT_MAX k) = (if n \<le> k \<and> k \<in> W then Some (Expr (Const (UINT_C k) (umax k))) else None)"
| "limit_spec W c n m (UINT_WIDTH k) = (if c \<and> n \<le> k \<and> k \<in> W then Some (Expr (Num k '''')) else None)"
| "limit_spec W c n m (INT_WIDTH k) = (if c \<and> n \<le> k \<and> k \<in> W then Some (Expr (Mac (UINT_WIDTH k))) else None)"
| "limit_spec W c n m (least_min k) =
     (if std k then map_option (\<lambda>w. Expr (Mac (INT_MIN w))) (narrow W (max n k)) else None)"
| "limit_spec W c n m (least_max k) =
     (if std k then map_option (\<lambda>w. Expr (Mac (INT_MAX w))) (narrow W (max n k)) else None)"
| "limit_spec W c n m (uleast_max k) =
     (if std k then map_option (\<lambda>w. Expr (Mac (UINT_MAX w))) (narrow W (max n k)) else None)"
| "limit_spec W c n m (uleast_width k) =
     (if c \<and> std k then map_option (\<lambda>w. Expr (Mac (UINT_WIDTH w)))
        (narrow (if k = 8 then W - {64} else W) (max n k)) else None)"
| "limit_spec W c n m (INT_LEAST_MIN k) = public_limit W least_min INT_MIN m k"
| "limit_spec W c n m (INT_LEAST_MAX k) = public_limit W least_max INT_MAX m k"
| "limit_spec W c n m (UINT_LEAST_MAX k) = public_limit W uleast_max UINT_MAX m k"
| "limit_spec W c n m (INT_FAST_MIN k) = public_limit W least_min INT_MIN m k"
| "limit_spec W c n m (INT_FAST_MAX k) = public_limit W least_max INT_MAX m k"
| "limit_spec W c n m (UINT_FAST_MAX k) = public_limit W uleast_max UINT_MAX m k"
| "limit_spec W c n m (UINT_LEAST_WIDTH k) = (if c then public_limit W uleast_width UINT_WIDTH m k else None)"
| "limit_spec W c n m (INT_LEAST_WIDTH k) = (if c then public_limit W UINT_LEAST_WIDTH UINT_LEAST_WIDTH m k else None)"
| "limit_spec W c n m (UINT_FAST_WIDTH k) = (if c then public_limit W uleast_width UINT_WIDTH m k else None)"
| "limit_spec W c n m (INT_FAST_WIDTH k) = (if c then public_limit W UINT_FAST_WIDTH UINT_FAST_WIDTH m k else None)"
| "limit_spec W c n m _ = None"

fun is_limit :: "name \<Rightarrow> bool" where
  "is_limit (INT_TYPE _) = False" | "is_limit (UINT_TYPE _) = False" | "is_limit (INT_C_SUFFIX _) = False"
| "is_limit (int_t _) = False" | "is_limit (uint_t _) = False" | "is_limit (int_least _) = False"
| "is_limit (uint_least _) = False" | "is_limit (int_least_t _) = False" | "is_limit (uint_least_t _) = False"
| "is_limit (int_fast_t _) = False" | "is_limit (uint_fast_t _) = False" | "is_limit (int_c_suffix _) = False"
| "is_limit (INT_C _) = False" | "is_limit (UINT_C _) = False" | "is_limit (Plain _) = False"
| "is_limit _ = True"

definition limited :: "nat set \<Rightarrow> nat \<Rightarrow> nat \<Rightarrow> cpp \<Rightarrow> bool" where
  "limited W n m s \<longleftrightarrow> W \<subseteq> set levels \<and> clean s \<and> (\<forall>k. macros s (INT_TYPE k) \<noteq> None \<longleftrightarrow> k \<in> W) \<and>
     (\<forall>x. is_limit x \<longrightarrow> macros s x = limit_spec W (c2x s) n m x)"

lemma c2x_select [simp]:
  "\<forall>x. n \<noteq> Plain x \<Longrightarrow> c2x (c_define n b s) = c2x s" "\<forall>x. n \<noteq> Plain x \<Longrightarrow> c2x (c_undef n s) = c2x s"
  by (auto simp: c2x_def)

lemma std_simps: "std 8" "std 16" "std 32" "std 64" "\<not> std 24" "\<not> std 40" "\<not> std 48" "\<not> std 56"
  by (simp_all add: std_def)

lemma narrow_above: "64 < k \<Longrightarrow> narrow W k = None"
  by (simp add: narrow_def levels_def)

lemma limits_64_limited:
  assumes "limited W 65 m s"
  shows "limited W 64 m (limits_64 s)"
proof -
  note f = assms [unfolded limited_def]
  have lv: "k \<in> W \<Longrightarrow> 64 \<le> k \<longleftrightarrow> k = 64 \<or> 65 \<le> k" for k using level_step [OF consec_simps(1)] f by blast
  note nw = narrow_step [OF consec_simps(1)]
  have c: "c2x (limits_64 s) = c2x s" by (simp add: limits_64_def c_if_def)
  have "macros (limits_64 s) x = limit_spec W (c2x s) 64 m x" if "is_limit x" for x
  proof (cases "64 \<in> W")
    case True
    with f that show ?thesis
      by (cases x) (auto simp: limits_64_def block_simps nw lv smax_def umax_def std_def public_limit_def least_type_def)
  next
    case False
    with f that show ?thesis
      by (cases x) (auto simp: limits_64_def block_simps nw lv public_limit_def least_type_def)
  qed
  moreover have "clean (limits_64 s)"
    using f by (simp add: limits_64_def block_simps narrow_above public_limit_def)
  moreover have "macros (limits_64 s) (INT_TYPE k) = macros s (INT_TYPE k)" for k
    by (simp add: limits_64_def c_if_def)
  ultimately show ?thesis using f by (simp add: limited_def c)
qed

lemma limits_32_limited:
  assumes "limited W 40 m s"
  shows "limited W 32 m (limits_32 s)"
proof -
  note f = assms [unfolded limited_def]
  have lv: "k \<in> W \<Longrightarrow> 32 \<le> k \<longleftrightarrow> k = 32 \<or> 40 \<le> k" for k using level_step [OF consec_simps(5)] f by blast
  note nw = narrow_step [OF consec_simps(5)]
  have c: "c2x (limits_32 s) = c2x s" by (simp add: limits_32_def c_if_def)
  have "macros (limits_32 s) x = limit_spec W (c2x s) 32 m x" if "is_limit x" for x
  proof (cases "32 \<in> W")
    case True
    with f that show ?thesis
      by (cases x) (auto simp: limits_32_def block_simps nw lv smax_def umax_def std_def public_limit_def least_type_def)
  next
    case False
    with f that show ?thesis
      by (cases x) (auto simp: limits_32_def block_simps nw lv public_limit_def least_type_def)
  qed
  moreover have "clean (limits_32 s)"
    using f by (simp add: limits_32_def block_simps public_limit_def)
  moreover have "macros (limits_32 s) (INT_TYPE k) = macros s (INT_TYPE k)" for k
    by (simp add: limits_32_def c_if_def)
  ultimately show ?thesis using f by (simp add: limited_def c)
qed

lemma limits_16_limited:
  assumes "limited W 24 m s"
  shows "limited W 16 m (limits_16 s)"
proof -
  note f = assms [unfolded limited_def]
  have lv: "k \<in> W \<Longrightarrow> 16 \<le> k \<longleftrightarrow> k = 16 \<or> 24 \<le> k" for k using level_step [OF consec_simps(7)] f by blast
  note nw = narrow_step [OF consec_simps(7)]
  have c: "c2x (limits_16 s) = c2x s" by (simp add: limits_16_def c_if_def)
  have "macros (limits_16 s) x = limit_spec W (c2x s) 16 m x" if "is_limit x" for x
  proof (cases "16 \<in> W")
    case True
    with f that show ?thesis
      by (cases x) (auto simp: limits_16_def block_simps nw lv smax_def umax_def std_def public_limit_def least_type_def)
  next
    case False
    with f that show ?thesis
      by (cases x) (auto simp: limits_16_def block_simps nw lv public_limit_def least_type_def)
  qed
  moreover have "clean (limits_16 s)"
    using f by (simp add: limits_16_def block_simps public_limit_def)
  moreover have "macros (limits_16 s) (INT_TYPE k) = macros s (INT_TYPE k)" for k
    by (simp add: limits_16_def c_if_def)
  ultimately show ?thesis using f by (simp add: limited_def c)
qed

lemma limits_8_limited:
  assumes "limited W 16 m s"
  shows "limited W 8 m (limits_8 s)"
proof -
  note f = assms [unfolded limited_def]
  have lv: "k \<in> W \<Longrightarrow> 8 \<le> k \<longleftrightarrow> k = 8 \<or> 16 \<le> k" for k using level_step [OF consec_simps(8)] f by blast
  note nw = narrow_step [OF consec_simps(8)]
  have c: "c2x (limits_8 s) = c2x s" by (simp add: limits_8_def c_if_def)
  have "macros (limits_8 s) x = limit_spec W (c2x s) 8 m x" if "is_limit x" for x
  proof (cases "8 \<in> W")
    case True
    with f that show ?thesis
      by (cases x) (auto simp: limits_8_def block_simps nw lv smax_def umax_def std_def public_limit_def least_type_def)
  next
    case False
    with f that show ?thesis
      by (cases x) (auto simp: limits_8_def block_simps nw lv public_limit_def least_type_def)
  qed
  moreover have "clean (limits_8 s)"
    using f by (simp add: limits_8_def block_simps public_limit_def)
  moreover have "macros (limits_8 s) (INT_TYPE k) = macros s (INT_TYPE k)" for k
    by (simp add: limits_8_def c_if_def)
  ultimately show ?thesis using f by (simp add: limited_def c)
qed

lemma least_limits_limited:
  assumes "limited W n n' s" "consec n n'" "std n"
  shows "limited W n n (least_limits n s)"
proof -
  note f = assms(1) [unfolded limited_def]
  have W: "W \<subseteq> set levels" using f by simp
  have lv: "least_type W k \<noteq> None \<Longrightarrow> n \<le> k \<longleftrightarrow> k = n \<or> n' \<le> k" for k
    using level_step [OF assms(2), of k] least_type_level [OF W, of k] by (cases "k \<in> set levels") simp_all
  have n: "n < n'" using assms(2) by (auto dest: consec_cases)
  have other: "k \<noteq> n \<Longrightarrow> public_limit W a b n k = public_limit W a b n' k" for a b k
    using lv [of k] by (auto simp: public_limit_def)
  have here: "public_limit W a b n n = (if least_type W n = None then None else Some (Expr (Mac (a n))))"
    "public_limit W a b n' n = None" for a b
    using assms(3) n by (simp_all add: public_limit_def)
  have c: "c2x (least_limits n s) = c2x s" by (simp add: least_limits_def c_if_def)
  have lim: "is_limit x \<Longrightarrow> macros s x = limit_spec W (c2x s) n n' x" for x using f by simp
  have least: "c_defined (least_min n) s \<longleftrightarrow> least_type W n \<noteq> None"
    using lim [of "least_min n"] assms(3) by (simp add: least_type_def c_defined_def)
  have "macros (least_limits n s) x = limit_spec W (c2x s) n n x" if "is_limit x" for x
  proof (cases "least_type W n = None")
    case False
    then have "public_limit W a b n n = Some (Expr (Mac (a n)))" for a b by (simp only: here if_False)
    with that lim [OF that] False show ?thesis
      by (cases x; cases "c2x s") (simp_all add: least_limits_def c_if_def least other)
  next
    case True
    have "public_limit W a b n k = public_limit W a b n' k" for a b k
      using here other True by (cases "k = n") auto
    with that lim [OF that] True show ?thesis
      by (cases x; cases "c2x s") (simp_all add: least_limits_def c_if_def least)
  qed
  moreover have "clean (least_limits n s)"
    using f lim n by (simp add: least_limits_def c_if_def here)
  moreover have "macros (least_limits n s) (INT_TYPE k) = macros s (INT_TYPE k)" for k
    by (simp add: least_limits_def c_if_def)
  ultimately show ?thesis using f by (simp add: limited_def c)
qed

lemma limits_24_limited:
  assumes "limited W 32 32 s"
  shows "limited W 24 24 (limits_24 s)"
proof -
  note f = assms(1) [unfolded limited_def]
  have n: "\<not> std 24" "\<And>k. std k \<and> k \<le> 24 \<longleftrightarrow> k \<in> {16, 8}" "(24 :: nat) < 32" "consec 24 32" "\<not> std 24 \<and> (24 :: nat) \<noteq> 64"
    by (auto simp: std_def consec_simps)
  have W: "W \<subseteq> set levels" using f by simp
  have lv: "24 \<le> k \<and> k \<in> W \<longleftrightarrow> (if 24 \<in> W then k = 24 \<or> 32 \<le> k \<and> k \<in> W else 32 \<le> k \<and> k \<in> W)" for k
    using level_step [OF n(4), of k] W n(3) by (auto simp: subset_iff)
  have other: "k \<noteq> 24 \<Longrightarrow> public_limit W a b 24 k = public_limit W a b 32 k" for a b k
    using level_step [OF n(4), of k] least_type_level [OF W, of k]
    by (cases "k \<in> set levels") (simp_all add: public_limit_def)
  have here: "public_limit W a b 24 24 = (if 24 \<in> W then Some (Expr (Mac (b 24))) else None)"
    "public_limit W a b 32 24 = None" for a b
    using n(1,3) by (simp_all add: public_limit_def least_type_def)
  have c: "c2x (limits_24 s) = c2x s" by (simp add: limits_24_def c_if_def)
  have lim: "is_limit x \<Longrightarrow> macros s x = limit_spec W (c2x s) 32 32 x" for x using f by simp
  have has: "c_defined (INT_TYPE 24) s \<longleftrightarrow> 24 \<in> W" using f by (simp add: c_defined_def)
  have std: "std k \<Longrightarrow> k \<le> 24 \<longleftrightarrow> k = 16 \<or> k = 8" for k
    using n(2) [of k] by auto
  have "macros (limits_24 s) x = limit_spec W (c2x s) 24 24 x" if "is_limit x" for x
  proof (cases "24 \<in> W")
    case False
    have "public_limit W a b 24 k = public_limit W a b 32 k" for a b k
      using here other False by (cases "k = 24") auto
    with that lim [OF that] False show ?thesis
      by (cases x; cases "c2x s") (simp_all add: lv limits_24_def c_if_def has narrow_step [OF n(4)])
  next
    case True
    then have "public_limit W a b 24 24 = Some (Expr (Mac (b 24)))" for a b by (simp only: here if_True)
    with that lim [OF that] True n(1,3,5) show ?thesis
      by (cases x; cases "c2x s") (simp_all add: lv std_simps limits_24_def c_if_true c_if_false has narrow_step [OF n(4)] other std smax_def umax_def)
  qed
  moreover have "clean (limits_24 s)"
    using f lim n(3) by (simp add: limits_24_def c_if_def here)
  moreover have "macros (limits_24 s) (INT_TYPE k) = macros s (INT_TYPE k)" for k
    by (simp add: limits_24_def c_if_def)
  ultimately show ?thesis using f by (simp add: limited_def c)
qed

lemma limits_mid_limited:
  assumes "limited W n' n' s" "consec n n'" "n \<in> {56, 48, 40}"
  shows "limited W n n (limits_mid n (smax n) (umax n) s)"
proof -
  note f = assms(1) [unfolded limited_def]
  have n: "\<not> std n" "\<And>k. std k \<and> k \<le> n \<longleftrightarrow> k \<in> {32, 16, 8}" "n < n'" "consec n n'" "n \<noteq> 64 \<and> n \<noteq> 32 \<and> n \<noteq> 16 \<and> n \<noteq> 8"
    using assms(2,3) by (auto simp: std_def dest: consec_cases)
  have W: "W \<subseteq> set levels" using f by simp
  have lv: "n \<le> k \<and> k \<in> W \<longleftrightarrow> (if n \<in> W then k = n \<or> n' \<le> k \<and> k \<in> W else n' \<le> k \<and> k \<in> W)" for k
    using level_step [OF n(4), of k] W n(3) by (auto simp: subset_iff)
  have other: "k \<noteq> n \<Longrightarrow> public_limit W a b n k = public_limit W a b n' k" for a b k
    using level_step [OF n(4), of k] least_type_level [OF W, of k]
    by (cases "k \<in> set levels") (simp_all add: public_limit_def)
  have here: "public_limit W a b n n = (if n \<in> W then Some (Expr (Mac (b n))) else None)"
    "public_limit W a b n' n = None" for a b
    using n(1,3) by (simp_all add: public_limit_def least_type_def)
  have c: "c2x (limits_mid n (smax n) (umax n) s) = c2x s" by (simp add: limits_mid_def c_if_def)
  have lim: "is_limit x \<Longrightarrow> macros s x = limit_spec W (c2x s) n' n' x" for x using f by simp
  have has: "c_defined (INT_TYPE n) s \<longleftrightarrow> n \<in> W" using f by (simp add: c_defined_def)
  have std: "std k \<Longrightarrow> k \<le> n \<longleftrightarrow> k = 32 \<or> k = 16 \<or> k = 8" for k
    using n(2) [of k] by auto
  have "macros (limits_mid n (smax n) (umax n) s) x = limit_spec W (c2x s) n n x" if "is_limit x" for x
  proof (cases "n \<in> W")
    case False
    have "public_limit W a b n k = public_limit W a b n' k" for a b k
      using here other False by (cases "k = n") auto
    with that lim [OF that] False show ?thesis
      by (cases x; cases "c2x s") (simp_all add: lv limits_mid_def c_if_def has narrow_step [OF n(4)])
  next
    case True
    then have "public_limit W a b n n = Some (Expr (Mac (b n)))" for a b by (simp only: here if_True)
    with that lim [OF that] True n(1,3,5) show ?thesis
      by (cases x; cases "c2x s") (simp_all add: lv std_simps limits_mid_def c_if_true c_if_false has narrow_step [OF n(4)] other std smax_def umax_def)
  qed
  moreover have "clean (limits_mid n (smax n) (umax n) s)"
    using f lim n(3) by (simp add: limits_mid_def c_if_def here)
  moreover have "macros (limits_mid n (smax n) (umax n) s) (INT_TYPE k) = macros s (INT_TYPE k)" for k
    by (simp add: limits_mid_def c_if_def)
  ultimately show ?thesis using f by (simp add: limited_def c)
qed

lemma stdint_limits_limited:
  assumes "limited W 65 65 s"
  shows "limited W 8 8 (stdint_limits s)"
proof -
  have literals: "(36028797018963967 :: nat) = smax 56" "(72057594037927935 :: nat) = umax 56"
    "(140737488355327 :: nat) = smax 48" "(281474976710655 :: nat) = umax 48"
    "(549755813887 :: nat) = smax 40" "(1099511627775 :: nat) = umax 40"
    by (simp_all add: smax_def umax_def)
  note mids = limits_mid_limited [OF _ consec_simps(2)] limits_mid_limited [OF _ consec_simps(3)]
    limits_mid_limited [OF _ consec_simps(4)]
  have "limited W 64 64 (least_limits 64 (limits_64 s))"
    by (rule least_limits_limited [OF limits_64_limited [OF assms] consec_simps(1) std_simps(4)])
  then have "limited W 40 40 (limits_56_48_40 (least_limits 64 (limits_64 s)))" (is "limited W 40 40 ?a")
    unfolding limits_56_48_40_def literals using mids by simp
  then have "limited W 32 32 (least_limits 32 (limits_32 ?a))"
    by (rule least_limits_limited [OF limits_32_limited consec_simps(5) std_simps(3)])
  then have "limited W 16 16 (least_limits 16 (limits_16 (limits_24 (least_limits 32 (limits_32 ?a)))))"
    by (rule least_limits_limited [OF limits_16_limited [OF limits_24_limited] consec_simps(7) std_simps(2)])
  then have "limited W 8 8 (least_limits 8 (limits_8
      (least_limits 16 (limits_16 (limits_24 (least_limits 32 (limits_32 ?a)))))))"
    by (rule least_limits_limited [OF limits_8_limited consec_simps(8) std_simps(1)])
  then show ?thesis by (simp add: stdint_limits_def)
qed

end
