(* ===== verification/StdintCorrect.thy ===== *)
theory StdintCorrect
  imports StdintLimits
begin

text \<open>
  \<open>stdint.h\<close> as a whole: what its sections leave of one another's names, the absence of
  diagnostics, the values of its limits, and the properties of the header on every freestanding
  target; x86-64 is the instance the examples use.
\<close>

section \<open>Groups of names\<close>

text \<open>The four groups of names: those of the types, of the constants, of the limits, and the rest.\<close>

fun is_const :: "name \<Rightarrow> bool" where
  "is_const (int_c_suffix _) = True" | "is_const (INT_C _) = True" | "is_const (UINT_C _) = True"
| "is_const _ = False"

fun is_plain :: "name \<Rightarrow> bool" where
  "is_plain (Plain _) = True" | "is_plain _ = False"

lemma keeps_types: "keeps (\<lambda>x. is_limit x \<or> is_const x) stdint_types"
  unfolding stdint_types_def types_56_48_40_def
  by (rule keeps_run)
    (simp add: keeps_run types_64_def least_types_def types_mid_def types_32_def types_24_def types_16_def types_8_def)

lemma keeps_types_plain:
  "keeps (\<lambda>x. is_plain x \<and> x \<noteq> Plain ''__uint32_t_defined'') stdint_types"
  unfolding stdint_types_def types_56_48_40_def
  by (rule keeps_run)
    (simp add: keeps_run types_64_def least_types_def types_mid_def types_32_def types_24_def types_16_def types_8_def)

lemma keeps_constants: "keeps (\<lambda>x. \<not> is_const x) stdint_constants"
  unfolding stdint_constants_def suffix_56_48_40_def
  by (rule keeps_run)
    (simp add: keeps_run suffix_64_def least_constants_def suffix_mid_def suffix_32_def suffix_24_def suffix_16_def
      suffix_8_def)

lemma keeps_limits: "keeps (\<lambda>x. \<not> is_limit x) stdint_limits"
  unfolding stdint_limits_def limits_56_48_40_def
  by (rule keeps_run)
    (simp add: keeps_run limits_64_def least_limits_def limits_mid_def limits_32_def limits_24_def limits_16_def
      limits_8_def)

lemma keeps_rest:
  "keeps (\<lambda>x. \<not> is_plain x) pointer_types"
  "keeps (\<lambda>x. \<not> is_plain x) (run [pointer_limits, greatest_limits, other_limits T])"
  by (simp_all add: keeps_run pointer_types_def pointer_limits_def greatest_limits_def other_limits_def
      c_alias_def negative_limit_def)

section \<open>No diagnostics in the last sections\<close>

definition limit_names :: "string list" where
  "limit_names = [''INTPTR_MIN'', ''INTPTR_MAX'', ''UINTPTR_MAX'', ''PTRDIFF_MIN'', ''PTRDIFF_MAX'', ''SIZE_MAX'',
     ''INTPTR_WIDTH'', ''UINTPTR_WIDTH'', ''RSIZE_MAX'', ''INTMAX_MIN'', ''INTMAX_MAX'', ''UINTMAX_MAX'',
     ''INTMAX_WIDTH'', ''UINTMAX_WIDTH'', ''SIG_ATOMIC_MIN'', ''SIG_ATOMIC_MAX'', ''WINT_MIN'', ''WINT_MAX'',
     ''WCHAR_MAX'', ''WCHAR_MIN'', ''INTMAX_C'', ''UINTMAX_C'', ''PTRDIFF_WIDTH'', ''SIG_ATOMIC_WIDTH'',
     ''SIZE_WIDTH'', ''WCHAR_WIDTH'', ''WINT_WIDTH'']"

lemma tidy_rest: "tidy (set limit_names) (run [pointer_limits, greatest_limits, other_limits T])"
proof -
  have "\<exists>N. tidy N (run [pointer_limits, greatest_limits, other_limits T]) \<and> N \<subseteq> set limit_names"
    unfolding pointer_limits_def greatest_limits_def other_limits_def c_alias_def negative_limit_def
    by (intro exI conjI, (rule tidy_rules | (simp; fail))+) (simp add: limit_names_def)
  then show ?thesis using tidy_mono by blast
qed

section \<open>The whole header\<close>

text \<open>
  The state in which a freestanding translation unit includes the header: the compiler has
  defined the macros for its types, and none of the names of the header is in use.
\<close>

fun by_width :: "name \<Rightarrow> bool" where
  "by_width (Plain _) = False" | "by_width (INT_TYPE _) = False" | "by_width (UINT_TYPE _) = False"
| "by_width (INT_C_SUFFIX _) = False" | "by_width _ = True"

definition guard_names :: "string list" where
  "guard_names = [''__CLANG_STDINT_H'', ''__int8_t_defined'', ''__uint32_t_defined'', ''_INTPTR_T'',
     ''__intptr_t_defined'', ''_UINTPTR_T'', ''intptr_t'', ''uintptr_t'', ''intmax_t'', ''uintmax_t'']"

definition fresh :: "int_types \<Rightarrow> cpp \<Rightarrow> bool" where
  "fresh I s \<longleftrightarrow> compiler I s \<and> clean s \<and> \<not> c_defined (Plain ''_AIX'') s \<and>
     (\<forall>x. by_width x \<longrightarrow> macros s x = None \<and> types s x = None) \<and>
     list_all (\<lambda>x. macros s (Plain x) = None \<and> types s (Plain x) = None) (guard_names @ limit_names) \<and>
     list_all (\<lambda>x. case macros s (Plain x) of Some (Word w) \<Rightarrow> True | _ \<Rightarrow> False)
       [''__INTPTR_TYPE__'', ''__UINTPTR_TYPE__'', ''__INTMAX_TYPE__'', ''__UINTMAX_TYPE__'']"

text \<open>What the header leaves: the three cascades complete, and no diagnostic.\<close>

definition included :: "int_types \<Rightarrow> cpp \<Rightarrow> bool" where
  "included I s \<longleftrightarrow> exact I 8 s \<and> leasts I 8 s \<and> clean s \<and> constants I 8 8 s \<and> limited (widths I) 8 8 s"

lemma stdint_h_freestanding:
  assumes "fresh I s" "\<not> hosted sys s"
  shows "stdint_h T sys s = stdint_freestanding T (c_define (Plain ''__CLANG_STDINT_H'') (Word '''') s)"
proof -
  have "\<not> hosted sys (c_define (Plain ''__CLANG_STDINT_H'') (Word '''') s)"
    using assms(2) by (simp add: hosted_def)
  with assms(1) show ?thesis
    by (simp add: stdint_h_def c_if_def c_defined_def fresh_def guard_names_def)
qed

lemma wordE:
  assumes "case m of Some (Word w) \<Rightarrow> True | _ \<Rightarrow> False"
  obtains w where "m = Some (Word w)"
  using assms that by (auto split: option.splits body.splits)

lemma std_max: "std k \<Longrightarrow> max 8 k = k"
  by (auto simp: std_def)

lemma above_levels:
  assumes "W \<subseteq> set levels" "65 \<le> k"
  shows "k \<notin> W" "least_type W k = None"
proof -
  have "w \<in> W \<Longrightarrow> w \<le> 64" for w using assms(1) by (auto simp: levels_def)
  with assms(2) show "k \<notin> W" by fastforce
  with assms(2) show "least_type W k = None" by (auto simp: least_type_def std_def)
qed

lemma fresh_typed:
  assumes "fresh I s"
  shows "typed I 65 65 (c_define (Plain ''__CLANG_STDINT_H'') (Word '''') s)"
proof -
  note f = assms [unfolded fresh_def compiler_def]
  have W: "widths I \<subseteq> set levels" using f by blast
  note above_levels [OF W, simp]
  show ?thesis
    using f by (simp add: typed_def exact_def leasts_def compiler_def cascade_def from_level_def guard_names_def
      for_widths_def narrow_above)
qed

lemma exact_keeps:
  "exact I n s \<Longrightarrow> keeps P d \<Longrightarrow> (\<And>x. \<not> is_limit x \<Longrightarrow> \<not> is_const x \<Longrightarrow> \<not> is_plain x \<Longrightarrow> P x) \<Longrightarrow> exact I n (d s)"
  by (simp add: exact_def compiler_def cascade_def from_level_def keeps_def)

lemma leasts_keeps:
  "leasts I n s \<Longrightarrow> keeps P d \<Longrightarrow> (\<And>x. \<not> is_limit x \<Longrightarrow> \<not> is_const x \<Longrightarrow> \<not> is_plain x \<Longrightarrow> P x) \<Longrightarrow> leasts I n (d s)"
  by (simp add: leasts_def from_level_def keeps_def)

lemma constants_keeps:
  "constants I n m s \<Longrightarrow> keeps P d \<Longrightarrow> (\<And>x. \<not> is_limit x \<Longrightarrow> \<not> is_plain x \<Longrightarrow> P x) \<Longrightarrow> clean (d s) \<Longrightarrow>
   constants I n m (d s)"
  by (simp add: constants_def compiler_def cascade_def from_level_def keeps_def)

lemma pointer_types_clean:
  assumes "clean s" "macros s (Plain ''_INTPTR_T'') = None" "macros s (Plain ''__intptr_t_defined'') = None"
    "macros s (Plain ''_UINTPTR_T'') = None"
    "list_all (\<lambda>x. types s (Plain x) = None) [''intptr_t'', ''uintptr_t'', ''intmax_t'', ''uintmax_t'']"
    "list_all (\<lambda>x. case macros s (Plain x) of Some (Word w) \<Rightarrow> True | _ \<Rightarrow> False)
       [''__INTPTR_TYPE__'', ''__UINTPTR_TYPE__'', ''__INTMAX_TYPE__'', ''__UINTMAX_TYPE__'']"
  shows "clean (pointer_types s) \<and> (\<forall>x \<in> set limit_names. macros (pointer_types s) (Plain x) = macros s (Plain x)) \<and>
    c2x (pointer_types s) = c2x s"
proof -
  obtain a b c d where w: "macros s (Plain ''__INTPTR_TYPE__'') = Some (Word a)"
      "macros s (Plain ''__UINTPTR_TYPE__'') = Some (Word b)" "macros s (Plain ''__INTMAX_TYPE__'') = Some (Word c)"
      "macros s (Plain ''__UINTMAX_TYPE__'') = Some (Word d)"
    using assms(6) by (auto elim!: wordE)
  show ?thesis
    using assms(1-5) w
    by (cases "macros s (Plain ''__int8_t_defined'')")
      (simp_all add: pointer_types_def c_if_def c_defined_def expand_word limit_names_def c2x_def)
qed

lemma stdint_freestanding_included:
  assumes "fresh I s"
  shows "included I (stdint_freestanding T (c_define (Plain ''__CLANG_STDINT_H'') (Word '''') s)) \<and>
    c2x (stdint_freestanding T (c_define (Plain ''__CLANG_STDINT_H'') (Word '''') s)) = c2x s"
proof -
  note f = assms [unfolded fresh_def]
  define s0 where "s0 = c_define (Plain ''__CLANG_STDINT_H'') (Word '''') s"
  define s1 where "s1 = stdint_types s0"
  define s2 where "s2 = pointer_types s1"
  define s3 where "s3 = stdint_constants s2"
  define s4 where "s4 = stdint_limits s3"
  define s5 where "s5 = run [pointer_limits, greatest_limits, other_limits T] s4"
  have t1: "typed I 8 8 s1"
    unfolding s1_def s0_def by (rule stdint_types_typed [OF fresh_typed [OF assms]])
  then have e1: "exact I 8 s1" "leasts I 8 s1" "clean s1" by (simp_all add: typed_def)
  have p1: "x \<noteq> ''__uint32_t_defined'' \<Longrightarrow> macros s1 (Plain x) = macros s0 (Plain x) \<and> types s1 (Plain x) = types s0 (Plain x)" for x
    unfolding s1_def by (rule keepsD [OF keeps_types_plain]) simp
  have n1: "is_limit x \<or> is_const x \<Longrightarrow> macros s1 x = None" for x
    using keepsD [OF keeps_types, of x s0] f by (cases x) (auto simp: s1_def s0_def)
  have c1: "c2x s1 = c2x s" using p1 by (simp add: c2x_def s0_def)
  have p2: "clean s2 \<and> (\<forall>x \<in> set limit_names. macros s2 (Plain x) = macros s1 (Plain x)) \<and> c2x s2 = c2x s1"
    unfolding s2_def by (rule pointer_types_clean) (use e1 p1 f in \<open>simp_all add: s0_def guard_names_def\<close>)
  have k2: "\<not> is_plain x \<Longrightarrow> macros s2 x = macros s1 x" for x
    unfolding s2_def using keepsD [OF keeps_rest(1)] by blast
  have e2: "exact I 8 s2" "leasts I 8 s2"
    unfolding s2_def by (rule exact_keeps [OF e1(1) keeps_rest(1)] leasts_keeps [OF e1(2) keeps_rest(1)]; simp)+
  have n2: "is_limit x \<or> is_const x \<Longrightarrow> macros s2 x = None" for x
    using n1 [of x] k2 [of x] by (cases x) auto
  have W: "widths I \<subseteq> set levels" using f by (simp add: compiler_def)
  note above = above_levels [OF W]
  have "constants I 65 65 s2"
    using e2(1) p2 n2 unfolding constants_def exact_def
    by (simp add: cascade_def from_level_def narrow_above const_body_def uconst_body_def std_max above
        bind_eq_None_conv)
  then have t3: "constants I 8 8 s3" unfolding s3_def by (rule stdint_constants_constants)
  note k3 = keepsD [OF keeps_constants, of _ s2, folded s3_def]
  have p3: "macros s3 (Plain x) = macros s2 (Plain x)" for x using k3 [of "Plain x"] by simp
  have e3: "exact I 8 s3" "leasts I 8 s3"
    unfolding s3_def by (rule exact_keeps [OF e2(1) keeps_constants] leasts_keeps [OF e2(2) keeps_constants]; simp)+
  have n3: "is_limit x \<Longrightarrow> macros s3 x = None" for x
    using n2 [of x] k3 [of x] by (cases x) auto
  have "limited (widths I) 65 65 s3"
  proof -
    have ty: "\<forall>k. macros s3 (INT_TYPE k) \<noteq> None \<longleftrightarrow> k \<in> widths I"
      using t3 by (auto simp: constants_def compiler_def)
    have "public_limit (widths I) a b 65 k = None" for a b k
      using above(2) [of k] by (auto simp: public_limit_def)
    then have "limit_spec (widths I) c 65 65 x = None" for c x
      by (cases x) (simp_all add: narrow_above above)
    with ty W n3 t3 show ?thesis by (simp add: limited_def constants_def)
  qed
  then have t4: "limited (widths I) 8 8 s4" unfolding s4_def by (rule stdint_limits_limited)
  have cl4: "clean s4" using t4 by (simp add: limited_def)
  note k4 = keepsD [OF keeps_limits, of _ s3, folded s4_def]
  have p4: "macros s4 (Plain x) = macros s3 (Plain x)" for x using k4 [of "Plain x"] by simp
  have e4: "exact I 8 s4" "leasts I 8 s4" "constants I 8 8 s4"
    unfolding s4_def using cl4
    by (simp_all add: exact_keeps [OF e3(1) keeps_limits] leasts_keeps [OF e3(2) keeps_limits]
        constants_keeps [OF t3 keeps_limits] s4_def)
  have none: "x \<in> set limit_names \<Longrightarrow> macros s4 (Plain x) = None" for x
  proof -
    assume x: "x \<in> set limit_names"
    then have "x \<noteq> ''__uint32_t_defined''" "x \<noteq> ''__CLANG_STDINT_H''" by (auto simp: limit_names_def)
    moreover have "macros s (Plain x) = None" using f x by (simp add: list_all_iff)
    ultimately show ?thesis using p1 [of x] p2 x by (simp add: p4 p3 s0_def)
  qed
  note rest = tidyD [OF tidy_rest [of T] cl4 none, folded s5_def]
  note k5 = keeps_rest(2) [of T]
  have cl5: "clean s5" using rest(1) by blast
  have c5: "c2x s5 = c2x s"
  proof -
    have "macros s5 (Plain ''__STDC_VERSION__'') = macros s4 (Plain ''__STDC_VERSION__'')"
      by (rule rest(2)) (simp_all add: limit_names_def)
    then have "c2x s5 = c2x s4" by (simp add: c2x_def)
    also have "\<dots> = c2x s2" by (simp add: c2x_def p4 p3)
    also have "\<dots> = c2x s" using p2 c1 by simp
    finally show ?thesis .
  qed
  have c4: "c2x s4 = c2x s" using p2 c1 by (simp add: c2x_def p4 p3)
  have "exact I 8 s5" "leasts I 8 s5"
    unfolding s5_def by (rule exact_keeps [OF e4(1) k5] leasts_keeps [OF e4(2) k5]; simp)+
  moreover have "constants I 8 8 s5"
    using constants_keeps [OF e4(3) k5] cl5 unfolding s5_def by blast
  moreover have "limited (widths I) 8 8 s5"
  proof -
    have "macros s5 x = macros s4 x" if "\<not> is_plain x" for x
      unfolding s5_def using keepsD [OF k5 that] by blast
    moreover have "is_limit x \<Longrightarrow> \<not> is_plain x" for x by (cases x) auto
    ultimately show ?thesis
      using t4 cl5 by (simp add: limited_def c4 c5)
  qed
  ultimately have "included I s5 \<and> c2x s5 = c2x s" using cl5 c5 by (simp add: included_def)
  moreover have "stdint_freestanding T s0 = s5"
    by (simp add: stdint_freestanding_def s1_def s2_def s3_def s4_def s5_def)
  ultimately show ?thesis by (simp add: s0_def)
qed

section \<open>Values\<close>

text \<open>Targets whose integer types have the widths C asks for, with 64 bits at most needed.\<close>

definition sane :: "target \<Rightarrow> bool" where
  "sane T \<longleftrightarrow> 16 \<le> int_width T \<and> int_width T \<le> long_width T \<and> long_width T \<le> llong_width T \<and> 64 \<le> llong_width T"

definition const_suffix :: "int_types \<Rightarrow> nat \<Rightarrow> string" where
  "const_suffix I w = (case csuffix I w of None \<Rightarrow> '''' | Some x \<Rightarrow> x)"

definition plain_suffixes :: "int_types \<Rightarrow> bool" where
  "plain_suffixes I \<longleftrightarrow> (\<forall>w \<in> widths I. const_suffix I w \<in> {'''', ''L'', ''LL''})"

lemma fits_llong:
  assumes "sane T"
  shows "n < 2 ^ 63 \<Longrightarrow> in_range T False LongLongRank (int n)" "n < 2 ^ 64 \<Longrightarrow> in_range T True LongLongRank (int n)"
proof -
  have "63 \<le> llong_width T - 1" "64 \<le> llong_width T" using assms by (auto simp: sane_def)
  from this [THEN power_increasing, of "2 :: int"]
  have "(2 :: int) ^ 63 \<le> 2 ^ (llong_width T - 1)" "(2 :: int) ^ 64 \<le> 2 ^ llong_width T" by simp_all
  note pow = this
  show "in_range T False LongLongRank (int n)" if "n < 2 ^ 63"
  proof -
    have "int n < 2 ^ (llong_width T - 1)" using that pow(1) by (intro less_le_trans [OF _ pow(1)]) simp
    moreover have "- (2 ^ (llong_width T - 1)) \<le> int n" by (rule order.trans [of _ 0]) simp_all
    ultimately show ?thesis by (simp add: in_range_def)
  qed
  show "in_range T True LongLongRank (int n)" if "n < 2 ^ 64"
  proof -
    have "int n < 2 ^ llong_width T" using that pow(2) by (intro less_le_trans [OF _ pow(2)]) simp
    then show ?thesis by (simp add: in_range_def)
  qed
qed

lemma first_fit_last:
  "in_range T u r (int n) \<Longrightarrow>
   \<exists>r'. first_fit T u (rs @ [r]) n = Some (CVal u r' (int n)) \<and> in_range T u r' (int n)"
  by (induction rs) auto

lemma literal_signed:
  assumes "sane T" "n < 2 ^ 63" "suf \<in> {'''', ''L'', ''LL''}"
  shows "\<exists>r. literal T n suf = Some (CVal False r (int n)) \<and> in_range T False r (int n)"
  using first_fit_last [OF fits_llong(1) [OF assms(1,2)], of "[IntRank, LongRank]"]
    first_fit_last [OF fits_llong(1) [OF assms(1,2)], of "[LongRank]"]
    first_fit_last [OF fits_llong(1) [OF assms(1,2)], of "[]"] assms(3)
  by (auto simp: literal_def simp del: first_fit.simps)

lemma literal_unsigned:
  assumes "sane T" "n < 2 ^ 64" "suf \<in> {'''', ''L'', ''LL''}"
  shows "\<exists>r. literal T n (''U'' @ suf) = Some (CVal True r (int n))"
  using first_fit_last [OF fits_llong(2) [OF assms(1,2)], of "[IntRank, LongRank]"]
    first_fit_last [OF fits_llong(2) [OF assms(1,2)], of "[LongRank]"]
    first_fit_last [OF fits_llong(2) [OF assms(1,2)], of "[]"] assms(3)
  by (auto simp: literal_def simp del: first_fit.simps)

text \<open>\<open>(-n-1)\<close> for a literal \<open>n\<close> never overflows.\<close>

lemma negative_value:
  assumes "sane T" "in_range T False r (int n)"
  shows "\<exists>a. fit T False r (- int n) = Some a \<and>
    (\<exists>b. Option.bind (literal T 1 '''') (arith T (-) a) = Some b \<and> val b = - int n - 1)"
proof -
  let ?w = "rank_width T r"
  have range: "int n < 2 ^ (?w - 1)" using assms(2) by (simp add: in_range_def)
  then have "fit T False r (- int n) = Some (CVal False r (- int n))"
    by (simp add: fit_def in_range_def) (simp add: not_le order.strict_trans1 [of _ "0 :: int"])
  moreover have "literal T 1 '''' = Some (CVal False IntRank 1)"
  proof -
    have "(2 :: int) ^ 1 \<le> 2 ^ (int_width T - 1)"
      using assms(1) by (intro power_increasing) (auto simp: sane_def)
    then show ?thesis by (simp add: literal_def in_range_def)
  qed
  moreover have "arith T (-) (CVal False r (- int n)) (CVal False IntRank 1) = Some (CVal False r (- int n - 1))"
  proof -
    have "common_type T (CVal False r (- int n)) (CVal False IntRank 1) = (False, r)"
      by (cases r) (simp_all add: common_type_def)
    moreover have "in_range T False r (- int n - 1)"
      using range by (simp add: in_range_def) (simp add: order.strict_trans1 [of _ "0 :: int"])
    ultimately show ?thesis by (simp add: arith_def convert_def fit_def)
  qed
  ultimately show ?thesis by simp
qed

lemma eval_mac: "macros s n = Some (Expr e) \<Longrightarrow> eval T (Suc k) s (Mac n) = eval T k s e"
  by simp

lemma narrow_exact:
  assumes "W \<subseteq> set levels" "k \<in> W"
  shows "narrow W k = Some k"
proof -
  have k: "k \<in> set levels" using assms by blast
  have "narrow W k \<noteq> None"
    using assms(2) k unfolding narrow_def find_None_iff by blast
  then obtain w where w: "narrow W k = Some w" by blast
  with narrow_width [OF w] narrow_minimal [OF w assms(2) _ k] show ?thesis by simp
qed

lemma least_type_exact: "W \<subseteq> set levels \<Longrightarrow> k \<in> W \<Longrightarrow> least_type W k = Some k"
  by (simp add: least_type_def narrow_exact)

lemma included_const:
  assumes "included I s" "k \<in> widths I"
  shows "eval T (Suc j) s (Const (INT_C k) n) = literal T n (const_suffix I k)"
    "eval T (Suc j) s (Const (UINT_C k) n) = literal T n (''U'' @ const_suffix I k)"
proof -
  note c = assms(1) [unfolded included_def constants_def compiler_def cascade_def from_level_def]
  have W: "widths I \<subseteq> set levels" using c by blast
  have k: "8 \<le> k" using W assms(2) by (auto simp: levels_def)
  note ex = least_type_exact [OF W assms(2)] narrow_exact [OF W assms(2)]
  have "expand s (suffix_macro k k) = csuffix I k" if "csuffix I k \<noteq> None"
    using that c assms(2) ex by (auto simp: suffix_macro_def expand_simps suffix_body_def std_max)
  then show "eval T (Suc j) s (Const (INT_C k) n) = literal T n (const_suffix I k)"
    "eval T (Suc j) s (Const (UINT_C k) n) = literal T n (''U'' @ const_suffix I k)"
    using c k ex by (auto simp: const_body_def uconst_body_def const_suffix_def split: option.splits)
qed

lemma included_limits:
  assumes "included I s" "k \<in> widths I" "sane T" "plain_suffixes I"
  shows "\<exists>a. eval T (Suc (Suc (Suc (Suc j)))) s (Mac (INT_MAX k)) = Some a \<and> val a = 2 ^ (k - 1) - 1"
    "\<exists>a. eval T (Suc (Suc (Suc (Suc j)))) s (Mac (INT_MIN k)) = Some a \<and> val a = - (2 ^ (k - 1))"
    "\<exists>a. eval T (Suc (Suc (Suc (Suc j)))) s (Mac (UINT_MAX k)) = Some a \<and> val a = 2 ^ k - 1"
proof -
  note l = assms(1) [unfolded included_def limited_def]
  have W: "widths I \<subseteq> set levels" using l by blast
  then have k: "8 \<le> k" "k \<le> 64" using assms(2) by (auto simp: levels_def)
  have "k - 1 \<le> 63" using k by simp
  from power_increasing [OF this, of "2 :: nat"] power_increasing [OF k(2), of "2 :: nat"]
  have pow: "(2 :: nat) ^ (k - 1) \<le> 2 ^ 63" "(2 :: nat) ^ k \<le> 2 ^ 64" by simp_all
  then have small: "smax k < 2 ^ 63" "umax k < 2 ^ 64"
    by (auto simp: smax_def umax_def) 
  have int: "int (smax k) = 2 ^ (k - 1) - 1" "int (umax k) = 2 ^ k - 1"
    by (simp_all add: smax_def umax_def of_nat_diff)
  have suf: "const_suffix I k \<in> {'''', ''L'', ''LL''}" using assms(2,4) by (simp add: plain_suffixes_def)
  obtain r where r: "literal T (smax k) (const_suffix I k) = Some (CVal False r (int (smax k)))"
    "in_range T False r (int (smax k))"
    using literal_signed [OF assms(3) small(1) suf] by blast
  have m: "macros s (INT_MAX k) = Some (Expr (Const (INT_C k) (smax k)))"
    "macros s (INT_MIN k) = Some (Expr (Sub (Neg (Const (INT_C k) (smax k))) (Num 1 '''')))"
    "macros s (UINT_MAX k) = Some (Expr (Const (UINT_C k) (umax k)))"
    using l k(1) assms(2) by simp_all
  note c = included_const [OF assms(1,2)]
  show "\<exists>a. eval T (Suc (Suc (Suc (Suc j)))) s (Mac (INT_MAX k)) = Some a \<and> val a = 2 ^ (k - 1) - 1"
    unfolding eval_mac [OF m(1)] c(1) r(1) int by simp
  show "\<exists>a. eval T (Suc (Suc (Suc (Suc j)))) s (Mac (INT_MIN k)) = Some a \<and> val a = - (2 ^ (k - 1))"
    unfolding eval_mac [OF m(2)] unfolding eval.simps(2,7,9) c(1) r(1) bind.simps cval.sel
    using negative_value [OF assms(3) r(2)] by (auto simp: int)
  show "\<exists>a. eval T (Suc (Suc (Suc (Suc j)))) s (Mac (UINT_MAX k)) = Some a \<and> val a = 2 ^ k - 1"
    unfolding eval_mac [OF m(3)] c(2)
    using literal_unsigned [OF assms(3) small(2) suf] int(2) by auto
qed

text \<open>The public limits reach those of the exact type in two more expansions.\<close>

lemma included_least:
  assumes "included I s" "std k" "narrow (widths I) k = Some w"
  shows "eval T (Suc (Suc j)) s (Mac (INT_LEAST_MAX k)) = eval T j s (Mac (INT_MAX w))"
    "eval T (Suc (Suc j)) s (Mac (INT_LEAST_MIN k)) = eval T j s (Mac (INT_MIN w))"
    "eval T (Suc (Suc j)) s (Mac (UINT_LEAST_MAX k)) = eval T j s (Mac (UINT_MAX w))"
    "eval T (Suc (Suc j)) s (Mac (INT_FAST_MAX k)) = eval T j s (Mac (INT_MAX w))"
    "eval T (Suc (Suc j)) s (Mac (INT_FAST_MIN k)) = eval T j s (Mac (INT_MIN w))"
    "eval T (Suc (Suc j)) s (Mac (UINT_FAST_MAX k)) = eval T j s (Mac (UINT_MAX w))"
proof -
  have "8 \<le> k" using assms(2) by (auto simp: std_def)
  moreover have "\<And>x. is_limit x \<Longrightarrow> macros s x = limit_spec (widths I) (c2x s) 8 8 x"
    using assms(1) by (simp add: included_def limited_def)
  ultimately show "eval T (Suc (Suc j)) s (Mac (INT_LEAST_MAX k)) = eval T j s (Mac (INT_MAX w))"
    "eval T (Suc (Suc j)) s (Mac (INT_LEAST_MIN k)) = eval T j s (Mac (INT_MIN w))"
    "eval T (Suc (Suc j)) s (Mac (UINT_LEAST_MAX k)) = eval T j s (Mac (UINT_MAX w))"
    "eval T (Suc (Suc j)) s (Mac (INT_FAST_MAX k)) = eval T j s (Mac (INT_MAX w))"
    "eval T (Suc (Suc j)) s (Mac (INT_FAST_MIN k)) = eval T j s (Mac (INT_MIN w))"
    "eval T (Suc (Suc j)) s (Mac (UINT_FAST_MAX k)) = eval T j s (Mac (UINT_MAX w))"
    using assms(2,3) by (simp_all add: public_limit_def least_type_def std_max)
qed

section \<open>x86-64\<close>

definition x86_64_types :: int_types where
  "x86_64_types = \<lparr>widths = {8, 16, 32, 64},
     sname = (\<lambda>w. if w = 8 then ''signed char'' else if w = 16 then ''short'' else if w = 32 then ''int'' else ''long int''),
     uname = (\<lambda>w. if w = 8 then ''unsigned char'' else if w = 16 then ''unsigned short''
       else if w = 32 then ''unsigned int'' else ''long unsigned int''),
     csuffix = (\<lambda>w. Some (if w = 64 then ''L'' else ''''))\<rparr>"

text \<open>A target whose only integer type has 64 bits.\<close>

definition wide_types :: int_types where
  "wide_types = \<lparr>widths = {64}, sname = (\<lambda>_. ''int''), uname = (\<lambda>_. ''unsigned int''), csuffix = (\<lambda>_. None)\<rparr>"

definition lp64 :: target where
  "lp64 = \<lparr>int_width = 32, long_width = 64, llong_width = 64\<rparr>"

fun predefined :: "int_types \<Rightarrow> nat \<Rightarrow> name \<Rightarrow> body option" where
  "predefined I v (INT_TYPE n) = (if n \<in> widths I then Some (Word (sname I n)) else None)"
| "predefined I v (UINT_TYPE n) = (if n \<in> widths I then Some (Word (uname I n)) else None)"
| "predefined I v (INT_C_SUFFIX n) = (if n \<in> widths I then map_option Word (csuffix I n) else None)"
| "predefined I v (Plain x) =
     (if x \<in> {''__INTPTR_TYPE__'', ''__INTMAX_TYPE__''} then Some (Word (sname I 64))
      else if x \<in> {''__UINTPTR_TYPE__'', ''__UINTMAX_TYPE__''} then Some (Word (uname I 64))
      else if x = ''__STDC_VERSION__'' then Some (Expr (Num v ''L''))
      else if x = ''__STDC_HOSTED__'' then Some (Expr (Num 0 '''')) else None)"
| "predefined I v _ = None"

definition start :: "int_types \<Rightarrow> nat \<Rightarrow> cpp" where
  "start I v = \<lparr>macros = predefined I v, types = (\<lambda>_. None), clean = True\<rparr>"

lemma fresh_start:
  assumes "widths I \<subseteq> set levels"
  shows "fresh I (start I v)"
proof -
  have "by_width x \<Longrightarrow> predefined I v x = None" for x by (cases x) simp_all
  with assms show ?thesis
    by (simp add: fresh_def start_def compiler_def c_defined_def guard_names_def limit_names_def)
qed

lemma start_freestanding: "\<not> hosted sys (start I v)"
  by (simp add: hosted_def start_def)

lemma c2x_start: "c2x (start I v) \<longleftrightarrow> 202000 \<le> v"
  by (simp add: c2x_def start_def)

lemma target_examples:
  "widths x86_64_types \<subseteq> set levels" "widths wide_types \<subseteq> set levels" "sane lp64"
  "plain_suffixes x86_64_types" "plain_suffixes wide_types"
  by (auto simp: x86_64_types_def wide_types_def levels_def sane_def lp64_def plain_suffixes_def const_suffix_def)

section \<open>Properties of the header\<close>

text \<open>
  C33: On every freestanding target, \<open>stdint.h\<close> is processed without a diagnostic; it defines the
  exact types of just the widths the target has, and for 8, 16, 32 and 64 bits the
  least-width and fastest types are the target's narrowest type that is wide enough, or
  stay undefined when there is none.
\<close>

theorem stdint_least_types:
  assumes "fresh I s" "\<not> hosted sys s"
  shows "clean (stdint_h T sys s) \<and>
    (\<forall>k. types (stdint_h T sys s) (int_t k) = (if k \<in> widths I then Some (sname I k) else None) \<and>
         types (stdint_h T sys s) (uint_t k) = (if k \<in> widths I then Some (uname I k) else None)) \<and>
    (\<forall>k. std k \<longrightarrow>
       types (stdint_h T sys s) (int_least_t k) = map_option (sname I) (narrow (widths I) k) \<and>
       types (stdint_h T sys s) (uint_least_t k) = map_option (uname I) (narrow (widths I) k) \<and>
       types (stdint_h T sys s) (int_fast_t k) = map_option (sname I) (narrow (widths I) k) \<and>
       types (stdint_h T sys s) (uint_fast_t k) = map_option (uname I) (narrow (widths I) k))"
proof -
  have "included I (stdint_h T sys s)"
    using stdint_freestanding_included [OF assms(1)] by (simp add: stdint_h_freestanding [OF assms])
  note i = this [unfolded included_def exact_def compiler_def leasts_def from_level_def]
  have W: "k \<in> widths I \<Longrightarrow> 8 \<le> k" for k using i by (auto simp: levels_def)
  have "std k \<Longrightarrow> 8 \<le> k" for k by (auto simp: std_def)
  with i W show ?thesis by (auto simp: for_widths_def least_type_def)
qed

theorem stdint_least_types_witness:
  "types (stdint_h lp64 None (start x86_64_types 201710)) (uint_t 64) = Some ''long unsigned int'' \<and>
   types (stdint_h lp64 None (start x86_64_types 201710)) (uint_t 8) = Some ''unsigned char'' \<and>
   types (stdint_h lp64 None (start wide_types 201710)) (int_least_t 8) = Some ''int''"
  using stdint_least_types [OF fresh_start start_freestanding, of x86_64_types lp64 None "201710"]
    stdint_least_types [OF fresh_start start_freestanding, of wide_types lp64 None "201710"] target_examples
  by (simp add: x86_64_types_def wide_types_def std_def narrow_def levels_def)

text \<open>
  C34: The limit macros agree with the types: whatever width \<open>w\<close> is chosen for a least-width
  type, its macros evaluate, without overflow, to \<open>2^(w-1)-1\<close>, \<open>-2^(w-1)\<close> and \<open>2^w-1\<close>, for the
  least-width and the fastest types alike.
\<close>

theorem stdint_limits_agree:
  assumes "fresh I s" "\<not> hosted sys s" "sane T" "plain_suffixes I" "std k" "narrow (widths I) k = Some w"
  shows "types (stdint_h T sys s) (int_least_t k) = Some (sname I w) \<and>
    macro_value T (stdint_h T sys s) (INT_LEAST_MAX k) = Some (2 ^ (w - 1) - 1) \<and>
    macro_value T (stdint_h T sys s) (INT_LEAST_MIN k) = Some (- (2 ^ (w - 1))) \<and>
    macro_value T (stdint_h T sys s) (UINT_LEAST_MAX k) = Some (2 ^ w - 1) \<and>
    macro_value T (stdint_h T sys s) (INT_FAST_MAX k) = Some (2 ^ (w - 1) - 1) \<and>
    macro_value T (stdint_h T sys s) (INT_FAST_MIN k) = Some (- (2 ^ (w - 1))) \<and>
    macro_value T (stdint_h T sys s) (UINT_FAST_MAX k) = Some (2 ^ w - 1)"
proof -
  have inc: "included I (stdint_h T sys s)"
    using stdint_freestanding_included [OF assms(1)] by (simp add: stdint_h_freestanding [OF assms(1,2)])
  have "8 \<le> k" using assms(5) by (auto simp: std_def)
  then have "types (stdint_h T sys s) (int_least_t k) = Some (sname I w)"
    using inc assms(5,6) by (simp add: included_def leasts_def from_level_def least_type_def)
  moreover have w: "w \<in> widths I" using narrow_width [OF assms(6)] by simp
  have sixteen: "(16 :: nat) = Suc (Suc (Suc (Suc (Suc (Suc 10)))))" by simp
  note steps = included_least [OF inc assms(5,6), of T "Suc (Suc (Suc (Suc 10)))", folded sixteen]
    and vals = included_limits [OF inc w assms(3,4), of 10]
  ultimately show ?thesis
    unfolding macro_value_def steps using vals by auto
qed

theorem stdint_limits_agree_witness:
  "macro_value lp64 (stdint_h lp64 None (start x86_64_types 201710)) (INT_LEAST_MIN 64) = Some (- 9223372036854775808) \<and>
   macro_value lp64 (stdint_h lp64 None (start wide_types 201710)) (UINT_LEAST_MAX 8) = Some 18446744073709551615"
  using stdint_limits_agree [OF fresh_start start_freestanding target_examples(3,4), of "64" "64" None "201710"]
    stdint_limits_agree [OF fresh_start start_freestanding target_examples(3,5), of "8" "64" None "201710"]
    target_examples
  by (simp add: x86_64_types_def wide_types_def std_def narrow_def levels_def)

text \<open>
  C35: With C2x the width macros of the least-width and fastest types give the chosen
  width, except one: on a target whose narrowest type has 64 bits \<open>INT_LEAST8_WIDTH\<close> and its
  relatives stand for an identifier that no line defines, because the block for 64 bits
  sets \<open>__UINT_LEAST8_MAX\<close> where it should set \<open>__UINT_LEAST8_WIDTH\<close>.
\<close>

theorem stdint_width_macros:
  assumes "fresh I s" "\<not> hosted sys s" "sane T" "c2x s" "std k" "narrow (widths I) k = Some w"
  shows "macro_value T (stdint_h T sys s) (UINT_LEAST_WIDTH k) = (if k = 8 \<and> w = 64 then None else Some (int w)) \<and>
    macro_value T (stdint_h T sys s) (INT_LEAST_WIDTH k) = (if k = 8 \<and> w = 64 then None else Some (int w)) \<and>
    macro_value T (stdint_h T sys s) (UINT_FAST_WIDTH k) = (if k = 8 \<and> w = 64 then None else Some (int w)) \<and>
    macro_value T (stdint_h T sys s) (INT_FAST_WIDTH k) = (if k = 8 \<and> w = 64 then None else Some (int w))"
proof -
  have inc: "included I (stdint_h T sys s)" and c: "c2x (stdint_h T sys s)"
    using stdint_freestanding_included [OF assms(1)] assms(4) by (simp_all add: stdint_h_freestanding [OF assms(1,2)])
  have k: "8 \<le> k" using assms(5) by (auto simp: std_def)
  have W: "widths I \<subseteq> set levels" using inc by (simp add: included_def limited_def)
  have lim: "is_limit x \<Longrightarrow> macros (stdint_h T sys s) x = limit_spec (widths I) True 8 8 x" for x
    using inc c by (simp add: included_def limited_def)
  note nw = narrow_width [OF assms(6)]
  have w: "8 \<le> w" "w \<le> 64" using nw by (auto simp: levels_def)
  have eight: "narrow (if k = 8 then widths I - {64} else widths I) k = (if k = 8 \<and> w = 64 then None else Some w)"
  proof (cases "k = 8 \<and> w = 64")
    case True
    have "v \<notin> widths I - {64}" if "v \<in> set levels" "8 \<le> v" for v
      using narrow_minimal [OF assms(6) _ _ that(1)] that True W by (auto simp: levels_def)
    then have "narrow (widths I - {64}) 8 = None" by (auto simp: narrow_def find_None_iff)
    with True show ?thesis by simp
  next
    case False
    then show ?thesis
      using assms(6) nw by (auto simp: narrow_def levels_def split: if_splits)
  qed
  have lit: "literal T w '''' = Some (CVal False IntRank (int w))"
  proof -
    have "15 \<le> int_width T - 1" using assms(3) by (auto simp: sane_def)
    then have "(2 :: int) ^ 15 \<le> 2 ^ (int_width T - 1)" by (rule power_increasing) simp
    moreover have "int w < 2 ^ 15" using w by simp
    ultimately have "int w < 2 ^ (int_width T - 1)" by (rule less_le_trans [rotated])
    moreover have "- (2 ^ (int_width T - 1)) \<le> int w" by (rule order.trans [of _ 0]) simp_all
    ultimately show ?thesis by (simp add: literal_def in_range_def)
  qed
  have exact: "macros (stdint_h T sys s) (UINT_WIDTH w) = Some (Expr (Num w ''''))"
    using lim [of "UINT_WIDTH w"] w nw by simp
  have least: "macros (stdint_h T sys s) (uleast_width k) =
      (if k = 8 \<and> w = 64 then None else Some (Expr (Mac (UINT_WIDTH w))))"
    using lim [of "uleast_width k"] eight assms(5) by (simp add: std_max)
  have public: "macros (stdint_h T sys s) (UINT_LEAST_WIDTH k) = Some (Expr (Mac (uleast_width k)))"
    "macros (stdint_h T sys s) (INT_LEAST_WIDTH k) = Some (Expr (Mac (UINT_LEAST_WIDTH k)))"
    "macros (stdint_h T sys s) (UINT_FAST_WIDTH k) = Some (Expr (Mac (uleast_width k)))"
    "macros (stdint_h T sys s) (INT_FAST_WIDTH k) = Some (Expr (Mac (UINT_FAST_WIDTH k)))"
    using lim assms(5,6) k by (simp_all add: public_limit_def least_type_def)
  show ?thesis
    unfolding macro_value_def by (simp add: numeral_eq_Suc public least exact lit)
qed

theorem stdint_width_macros_witness:
  "macro_value lp64 (stdint_h lp64 None (start x86_64_types 202311)) (INT_LEAST_WIDTH 8) = Some 8 \<and>
   macro_value lp64 (stdint_h lp64 None (start wide_types 202311)) (INT_LEAST_WIDTH 16) = Some 64 \<and>
   macro_value lp64 (stdint_h lp64 None (start wide_types 202311)) (INT_LEAST_WIDTH 8) = None"
  using stdint_width_macros [OF fresh_start start_freestanding target_examples(3), of x86_64_types "202311" "8" "8" None]
    stdint_width_macros [OF fresh_start start_freestanding target_examples(3), of wide_types "202311" "16" "64" None]
    stdint_width_macros [OF fresh_start start_freestanding target_examples(3), of wide_types "202311" "8" "64" None]
    target_examples
  by (simp add: x86_64_types_def wide_types_def std_def narrow_def levels_def c2x_start)

end
