(* ===== verification/Limits.thy ===== *)
theory Limits
  imports StdintCorrect
begin

text \<open>
  \<open>clang/lib/Headers/limits.h\<close>: the limits of the basic types, computed from the greatest
  values the compiler predefines. The lemmas evaluate them with C's typed arithmetic: they are
  the limits of types of the target's widths, without overflow, but for \<open>UCHAR_MAX\<close> and
  \<open>USHRT_MAX\<close> on a target whose \<open>char\<close> or \<open>short\<close> is as wide as its \<open>int\<close>.
\<close>

section \<open>The header\<close>

definition p :: "string \<Rightarrow> expr" where
  "p x = Mac (Plain x)"

definition p_define :: "string \<Rightarrow> expr \<Rightarrow> cpp \<Rightarrow> cpp" where
  "p_define n e = c_define (Plain n) (Expr e)"

definition undef_limits :: "cpp \<Rightarrow> cpp" where
  "undef_limits = run [
     c_undef (Plain ''SCHAR_MIN''), c_undef (Plain ''SCHAR_MAX''), c_undef (Plain ''UCHAR_MAX''),
     c_undef (Plain ''SHRT_MIN''), c_undef (Plain ''SHRT_MAX''), c_undef (Plain ''USHRT_MAX''),
     c_undef (Plain ''INT_MIN''), c_undef (Plain ''INT_MAX''), c_undef (Plain ''UINT_MAX''),
     c_undef (Plain ''LONG_MIN''), c_undef (Plain ''LONG_MAX''), c_undef (Plain ''ULONG_MAX''),
     c_undef (Plain ''CHAR_BIT''), c_undef (Plain ''CHAR_MIN''), c_undef (Plain ''CHAR_MAX'')]"

definition basic_limits :: "cpp \<Rightarrow> cpp" where
  "basic_limits = run [
     p_define ''SCHAR_MAX'' (p ''__SCHAR_MAX__''),
     p_define ''SHRT_MAX'' (p ''__SHRT_MAX__''),
     p_define ''INT_MAX'' (p ''__INT_MAX__''),
     p_define ''LONG_MAX'' (p ''__LONG_MAX__''),
     p_define ''SCHAR_MIN'' (Sub (Neg (p ''__SCHAR_MAX__'')) (Num 1 '''')),
     p_define ''SHRT_MIN'' (Sub (Neg (p ''__SHRT_MAX__'')) (Num 1 '''')),
     p_define ''INT_MIN'' (Sub (Neg (p ''__INT_MAX__'')) (Num 1 '''')),
     p_define ''LONG_MIN'' (Sub (Neg (p ''__LONG_MAX__'')) (Num 1 ''L'')),
     p_define ''UCHAR_MAX'' (Add (Mul (p ''__SCHAR_MAX__'') (Num 2 '''')) (Num 1 '''')),
     p_define ''USHRT_MAX'' (Add (Mul (p ''__SHRT_MAX__'') (Num 2 '''')) (Num 1 '''')),
     p_define ''UINT_MAX'' (Add (Mul (p ''__INT_MAX__'') (Num 2 ''U'')) (Num 1 ''U'')),
     p_define ''ULONG_MAX'' (Add (Mul (p ''__LONG_MAX__'') (Num 2 ''UL'')) (Num 1 ''UL'')),
     c_ifndef (Plain ''MB_LEN_MAX'') [
       p_define ''MB_LEN_MAX'' (Num 1 '''')],
     p_define ''CHAR_BIT'' (p ''__CHAR_BIT__'')]"

definition width_limits :: "cpp \<Rightarrow> cpp" where
  "width_limits =
     c_if c2x [
       p_define ''BOOL_WIDTH'' (p ''__BOOL_WIDTH__''),
       p_define ''CHAR_WIDTH'' (p ''CHAR_BIT''),
       p_define ''SCHAR_WIDTH'' (p ''CHAR_BIT''),
       p_define ''UCHAR_WIDTH'' (p ''CHAR_BIT''),
       p_define ''USHRT_WIDTH'' (p ''__SHRT_WIDTH__''),
       p_define ''SHRT_WIDTH'' (p ''__SHRT_WIDTH__''),
       p_define ''UINT_WIDTH'' (p ''__INT_WIDTH__''),
       p_define ''INT_WIDTH'' (p ''__INT_WIDTH__''),
       p_define ''ULONG_WIDTH'' (p ''__LONG_WIDTH__''),
       p_define ''LONG_WIDTH'' (p ''__LONG_WIDTH__''),
       p_define ''ULLONG_WIDTH'' (p ''__LLONG_WIDTH__''),
       p_define ''LLONG_WIDTH'' (p ''__LLONG_WIDTH__''),
       p_define ''BITINT_MAXWIDTH'' (p ''__BITINT_MAXWIDTH__'')] []"

definition char_limits :: "cpp \<Rightarrow> cpp" where
  "char_limits =
     c_if (c_defined (Plain ''__CHAR_UNSIGNED__'')) [
       p_define ''CHAR_MIN'' (Num 0 ''''),
       p_define ''CHAR_MAX'' (p ''UCHAR_MAX'')] [
       p_define ''CHAR_MIN'' (p ''SCHAR_MIN''),
       p_define ''CHAR_MAX'' (p ''__SCHAR_MAX__'')]"

definition has_long_long :: "cpp \<Rightarrow> bool" where
  "has_long_long s \<longleftrightarrow> version_at_least ''__STDC_VERSION__'' 199901 s \<or> version_at_least ''__cplusplus'' 201103 s"

definition llong_limits :: "cpp \<Rightarrow> cpp" where
  "llong_limits =
     c_if has_long_long [
       c_undef (Plain ''LLONG_MIN''), c_undef (Plain ''LLONG_MAX''), c_undef (Plain ''ULLONG_MAX''),
       p_define ''LLONG_MAX'' (p ''__LONG_LONG_MAX__''),
       p_define ''LLONG_MIN'' (Sub (Neg (p ''__LONG_LONG_MAX__'')) (Num 1 ''LL'')),
       p_define ''ULLONG_MAX'' (Add (Mul (p ''__LONG_LONG_MAX__'') (Num 2 ''ULL'')) (Num 1 ''ULL''))] []"

definition gnu_extensions :: "cpp \<Rightarrow> bool" where
  "gnu_extensions s \<longleftrightarrow> (if c_defined (Plain ''__GNU_LIBRARY__'') s then c_defined (Plain ''__USE_GNU'') s
     else \<not> c_defined (Plain ''__STRICT_ANSI__'') s)"

definition gnu_limits :: "cpp \<Rightarrow> cpp" where
  "gnu_limits =
     c_if gnu_extensions [
       c_undef (Plain ''LONG_LONG_MIN''), c_undef (Plain ''LONG_LONG_MAX''), c_undef (Plain ''ULONG_LONG_MAX''),
       p_define ''LONG_LONG_MAX'' (p ''__LONG_LONG_MAX__''),
       p_define ''LONG_LONG_MIN'' (Sub (Neg (p ''__LONG_LONG_MAX__'')) (Num 1 ''LL'')),
       p_define ''ULONG_LONG_MAX'' (Add (Mul (p ''__LONG_LONG_MAX__'') (Num 2 ''ULL'')) (Num 1 ''ULL''))] []"

text \<open>\<open>sys\<close> is the next \<open>limits.h\<close> on the include path, if there is one.\<close>

definition limits_h :: "(cpp \<Rightarrow> cpp) option \<Rightarrow> cpp \<Rightarrow> cpp" where
  "limits_h sys =
    c_ifndef (Plain ''__CLANG_LIMITS_H'') [
      c_define (Plain ''__CLANG_LIMITS_H'') (Word ''''),
      c_if (\<lambda>s. c_defined (Plain ''__GNUC__'') s \<and> \<not> c_defined (Plain ''_GCC_LIMITS_H_'') s) [
        c_define (Plain ''_GCC_LIMITS_H_'') (Word '''')] [],
      c_if (hosted sys) [the sys] [],
      undef_limits, basic_limits, width_limits, char_limits, llong_limits, gnu_limits]"

section \<open>Which section defines what\<close>

definition later_names :: "string list" where
  "later_names = [''BOOL_WIDTH'', ''CHAR_WIDTH'', ''SCHAR_WIDTH'', ''UCHAR_WIDTH'', ''USHRT_WIDTH'', ''SHRT_WIDTH'',
     ''UINT_WIDTH'', ''INT_WIDTH'', ''ULONG_WIDTH'', ''LONG_WIDTH'', ''ULLONG_WIDTH'', ''LLONG_WIDTH'',
     ''BITINT_MAXWIDTH'', ''CHAR_MIN'', ''CHAR_MAX'', ''LLONG_MIN'', ''LLONG_MAX'', ''ULLONG_MAX'',
     ''LONG_LONG_MIN'', ''LONG_LONG_MAX'', ''ULONG_LONG_MAX'']"

definition basic_names :: "string list" where
  "basic_names = [''SCHAR_MIN'', ''SCHAR_MAX'', ''UCHAR_MAX'', ''SHRT_MIN'', ''SHRT_MAX'', ''USHRT_MAX'',
     ''INT_MIN'', ''INT_MAX'', ''UINT_MAX'', ''LONG_MIN'', ''LONG_MAX'', ''ULONG_MAX'', ''MB_LEN_MAX'',
     ''CHAR_BIT'', ''CHAR_MIN'', ''CHAR_MAX'', ''__CLANG_LIMITS_H'', ''_GCC_LIMITS_H_'']"

definition other_than :: "string list \<Rightarrow> name \<Rightarrow> bool" where
  "other_than ns x \<longleftrightarrow> x \<notin> Plain ` set ns"

lemma keeps_later:
  "keeps (other_than later_names) width_limits" "keeps (other_than later_names) char_limits"
  "keeps (other_than later_names) llong_limits" "keeps (other_than later_names) gnu_limits"
  by (simp_all add: width_limits_def char_limits_def llong_limits_def gnu_limits_def p_define_def
      other_than_def later_names_def)

lemma keeps_early:
  "keeps (other_than basic_names) undef_limits" "keeps (other_than basic_names) basic_limits"
  by (simp_all add: undef_limits_def basic_limits_def p_define_def keeps_run other_than_def basic_names_def)

definition limits_start :: "cpp \<Rightarrow> cpp" where
  "limits_start s = c_if (\<lambda>s. c_defined (Plain ''__GNUC__'') s \<and> \<not> c_defined (Plain ''_GCC_LIMITS_H_'') s) [
     c_define (Plain ''_GCC_LIMITS_H_'') (Word '''')] [] (c_define (Plain ''__CLANG_LIMITS_H'') (Word '''') s)"

lemma hosted_start: "hosted sys (limits_start s) = hosted sys s"
  by (simp add: hosted_def limits_start_def c_if_def)

lemma limits_h_sections:
  assumes "\<not> c_defined (Plain ''__CLANG_LIMITS_H'') s" "\<not> hosted sys s"
  shows "limits_h sys s = run [width_limits, char_limits, llong_limits, gnu_limits]
    (basic_limits (undef_limits (limits_start s)))"
proof -
  have off: "c_if (hosted sys) [the sys] [] (limits_start s) = limits_start s"
    by (subst c_if_def) (simp add: hosted_start assms(2))
  have "limits_h sys s = run [width_limits, char_limits, llong_limits, gnu_limits]
    (basic_limits (undef_limits (c_if (hosted sys) [the sys] [] (limits_start s))))"
    unfolding limits_h_def limits_start_def by (subst c_if_def) (simp add: assms(1))
  then show ?thesis by (simp only: off)
qed

lemma macros_limits_h:
  assumes "\<not> c_defined (Plain ''__CLANG_LIMITS_H'') s" "\<not> hosted sys s" "other_than later_names x"
  shows "macros (limits_h sys s) x = macros (basic_limits (undef_limits (limits_start s))) x"
  using keeps_later [THEN keepsD, OF assms(3)] by (simp add: limits_h_sections [OF assms(1,2)])

lemma macros_compiler:
  assumes "\<not> c_defined (Plain ''__CLANG_LIMITS_H'') s" "\<not> hosted sys s" "other_than (later_names @ basic_names) x"
  shows "macros (limits_h sys s) x = macros s x"
proof -
  have x: "other_than later_names x" "other_than basic_names x" using assms(3) by (auto simp: other_than_def)
  have "macros (limits_start s) x = macros s x"
    using x(2) by (auto simp: limits_start_def c_if_def other_than_def basic_names_def)
  then show ?thesis
    using keepsD [OF keeps_early(1) x(2)] keepsD [OF keeps_early(2) x(2)]
    by (simp add: macros_limits_h [OF assms(1,2) x(1)])
qed

lemma basic_macros:
  "macros (basic_limits (undef_limits s)) (Plain ''SCHAR_MAX'') = Some (Expr (p ''__SCHAR_MAX__''))"
  "macros (basic_limits (undef_limits s)) (Plain ''SHRT_MAX'') = Some (Expr (p ''__SHRT_MAX__''))"
  "macros (basic_limits (undef_limits s)) (Plain ''INT_MAX'') = Some (Expr (p ''__INT_MAX__''))"
  "macros (basic_limits (undef_limits s)) (Plain ''LONG_MAX'') = Some (Expr (p ''__LONG_MAX__''))"
  "macros (basic_limits (undef_limits s)) (Plain ''SCHAR_MIN'') = Some (Expr (Sub (Neg (p ''__SCHAR_MAX__'')) (Num 1 '''')))"
  "macros (basic_limits (undef_limits s)) (Plain ''SHRT_MIN'') = Some (Expr (Sub (Neg (p ''__SHRT_MAX__'')) (Num 1 '''')))"
  "macros (basic_limits (undef_limits s)) (Plain ''INT_MIN'') = Some (Expr (Sub (Neg (p ''__INT_MAX__'')) (Num 1 '''')))"
  "macros (basic_limits (undef_limits s)) (Plain ''LONG_MIN'') = Some (Expr (Sub (Neg (p ''__LONG_MAX__'')) (Num 1 ''L'')))"
  "macros (basic_limits (undef_limits s)) (Plain ''UCHAR_MAX'') =
     Some (Expr (Add (Mul (p ''__SCHAR_MAX__'') (Num 2 '''')) (Num 1 '''')))"
  "macros (basic_limits (undef_limits s)) (Plain ''USHRT_MAX'') =
     Some (Expr (Add (Mul (p ''__SHRT_MAX__'') (Num 2 '''')) (Num 1 '''')))"
  "macros (basic_limits (undef_limits s)) (Plain ''UINT_MAX'') =
     Some (Expr (Add (Mul (p ''__INT_MAX__'') (Num 2 ''U'')) (Num 1 ''U'')))"
  "macros (basic_limits (undef_limits s)) (Plain ''ULONG_MAX'') =
     Some (Expr (Add (Mul (p ''__LONG_MAX__'') (Num 2 ''UL'')) (Num 1 ''UL'')))"
  by (simp_all add: basic_limits_def p_define_def c_if_def)

section \<open>Values\<close>

text \<open>The greatest values as the compiler predefines them, for types of the target's widths.\<close>

definition target_limits :: "target \<Rightarrow> nat \<Rightarrow> nat \<Rightarrow> cpp \<Rightarrow> bool" where
  "target_limits T cw sw s \<longleftrightarrow>
     2 \<le> cw \<and> cw \<le> int_width T \<and> 3 \<le> int_width T \<and> 2 \<le> sw \<and> sw \<le> int_width T \<and> int_width T \<le> long_width T \<and>
     long_width T \<le> llong_width T \<and>
     macros s (Plain ''__SCHAR_MAX__'') = Some (Expr (Num (2 ^ (cw - 1) - 1) '''')) \<and>
     macros s (Plain ''__SHRT_MAX__'') = Some (Expr (Num (2 ^ (sw - 1) - 1) '''')) \<and>
     macros s (Plain ''__INT_MAX__'') = Some (Expr (Num (2 ^ (int_width T - 1) - 1) '''')) \<and>
     macros s (Plain ''__LONG_MAX__'') = Some (Expr (Num (2 ^ (long_width T - 1) - 1) ''L'')) \<and>
     macros s (Plain ''__LONG_LONG_MAX__'') = Some (Expr (Num (2 ^ (llong_width T - 1) - 1) ''LL''))"

lemma int_smax: "int (2 ^ k - 1) = 2 ^ k - 1"
  by (simp add: of_nat_diff)

lemma in_range_signed: "0 \<le> v \<Longrightarrow> v < 2 ^ (rank_width T r - 1) \<Longrightarrow> in_range T False r v"
  by (auto simp: in_range_def intro: order.trans [of _ 0])

lemma literals:
  "int n < 2 ^ (int_width T - 1) \<Longrightarrow> literal T n '''' = Some (CVal False IntRank (int n))"
  "int n < 2 ^ (long_width T - 1) \<Longrightarrow> literal T n ''L'' = Some (CVal False LongRank (int n))"
  "int n < 2 ^ (llong_width T - 1) \<Longrightarrow> literal T n ''LL'' = Some (CVal False LongLongRank (int n))"
  "int n < 2 ^ int_width T \<Longrightarrow> literal T n ''U'' = Some (CVal True IntRank (int n))"
  "int n < 2 ^ long_width T \<Longrightarrow> literal T n ''UL'' = Some (CVal True LongRank (int n))"
  "int n < 2 ^ llong_width T \<Longrightarrow> literal T n ''ULL'' = Some (CVal True LongLongRank (int n))"
  using in_range_signed [of "int n" T IntRank] in_range_signed [of "int n" T LongRank]
    in_range_signed [of "int n" T LongLongRank]
  by (simp_all add: literal_def del: of_nat_less_numeral_power_cancel_iff) (simp_all add: in_range_def)

lemma pow_split: "2 \<le> w \<Longrightarrow> (2 :: int) ^ w = 2 * 2 ^ (w - 1)" for w :: nat
  by (cases w) simp_all

lemma arith_signed:
  "arith T f (CVal False r a) (CVal False r b) =
     (if in_range T False r (f a b) then Some (CVal False r (f a b)) else None)"
  by (simp add: arith_def common_type_def convert_def fit_def)

lemma arith_unsigned:
  "x \<or> y \<Longrightarrow> arith T f (CVal x r a) (CVal y r b) =
     Some (CVal True r (f (a mod 2 ^ rank_width T r) (b mod 2 ^ rank_width T r) mod 2 ^ rank_width T r))"
  by (cases x; cases y) (simp_all add: arith_def common_type_def convert_def fit_def)

text \<open>The signed lower limit, and the unsigned limit computed with an unsigned factor.\<close>

lemma lower_limit:
  assumes "2 \<le> w" "w \<le> rank_width T r"
  shows "fit T False r (- (2 ^ (w - 1) - 1)) = Some (CVal False r (- (2 ^ (w - 1) - 1)))"
    "arith T (-) (CVal False r (- (2 ^ (w - 1) - 1))) (CVal False r 1) = Some (CVal False r (- (2 ^ (w - 1))))"
proof -
  have "w - 1 \<le> rank_width T r - 1" using assms(2) by simp
  then have "(2 :: int) ^ (w - 1) \<le> 2 ^ (rank_width T r - 1)" by (rule power_increasing) simp
  moreover have "(0 :: int) < 2 ^ (w - 1)" "(0 :: int) < 2 ^ (rank_width T r - 1)" by simp_all
  ultimately have in_range: "in_range T False r (- (2 ^ (w - 1) - 1))" "in_range T False r (- (2 ^ (w - 1)))"
    unfolding in_range_def if_False by linarith+
  then show "fit T False r (- (2 ^ (w - 1) - 1)) = Some (CVal False r (- (2 ^ (w - 1) - 1)))"
    by (simp only: fit_def if_False if_True)
  have "- (2 ^ (w - 1) - 1) - 1 = - ((2 :: int) ^ (w - 1))" by simp
  with in_range(2) show "arith T (-) (CVal False r (- (2 ^ (w - 1) - 1))) (CVal False r 1) = Some (CVal False r (- (2 ^ (w - 1))))"
    by (simp only: arith_signed if_True)
qed

lemma unsigned_limit:
  assumes "2 \<le> rank_width T r"
  shows "arith T (*) (CVal False r (2 ^ (rank_width T r - 1) - 1)) (CVal True r 2) = Some (CVal True r (2 ^ rank_width T r - 2))"
    "arith T (+) (CVal True r (2 ^ rank_width T r - 2)) (CVal True r 1) = Some (CVal True r (2 ^ rank_width T r - 1))"
proof -
  let ?w = "rank_width T r"
  have two: "(2 :: int) ^ ?w = 2 * 2 ^ (?w - 1)" by (rule pow_split [OF assms])
  have "1 \<le> ?w - 1" using assms by simp
  then have "(2 :: int) ^ 1 \<le> 2 ^ (?w - 1)" by (rule power_increasing) simp
  then have b: "(4 :: int) \<le> 2 ^ ?w" "(2 :: int) \<le> 2 ^ (?w - 1)" using two by simp_all
  have m: "(2 ^ (?w - 1) - 1) mod 2 ^ ?w = (2 :: int) ^ (?w - 1) - 1" "(2 :: int) mod 2 ^ ?w = 2" "(1 :: int) mod 2 ^ ?w = 1"
    "(2 ^ ?w - 2) mod 2 ^ ?w = (2 :: int) ^ ?w - 2" "(2 ^ ?w - 1) mod 2 ^ ?w = (2 :: int) ^ ?w - 1"
    using b two by (intro mod_pos_pos_trivial; linarith)+
  have f: "(2 ^ (?w - 1) - 1) * 2 = (2 :: int) ^ ?w - 2" "2 ^ ?w - 2 + 1 = (2 :: int) ^ ?w - 1" using two by simp_all
  have "arith T (*) (CVal False r (2 ^ (?w - 1) - 1)) (CVal True r 2) =
      Some (CVal True r ((2 ^ (?w - 1) - 1) mod 2 ^ ?w * (2 mod 2 ^ ?w) mod 2 ^ ?w))" by (rule arith_unsigned) simp
  then show "arith T (*) (CVal False r (2 ^ (?w - 1) - 1)) (CVal True r 2) = Some (CVal True r (2 ^ ?w - 2))"
    by (simp only: m f)
  have "arith T (+) (CVal True r (2 ^ ?w - 2)) (CVal True r 1) =
      Some (CVal True r (((2 ^ ?w - 2) mod 2 ^ ?w + 1 mod 2 ^ ?w) mod 2 ^ ?w))" by (rule arith_unsigned) simp
  then show "arith T (+) (CVal True r (2 ^ ?w - 2)) (CVal True r 1) = Some (CVal True r (2 ^ ?w - 1))"
    by (simp only: m f)
qed

text \<open>The unsigned limit of a narrow type computed in \<open>int\<close>: it needs a type narrower than \<open>int\<close>.\<close>

lemma narrow_unsigned_limit:
  assumes "2 \<le> w" "w < int_width T"
  shows "arith T (*) (CVal False IntRank (2 ^ (w - 1) - 1)) (CVal False IntRank 2) = Some (CVal False IntRank (2 ^ w - 2))"
    "arith T (+) (CVal False IntRank (2 ^ w - 2)) (CVal False IntRank 1) = Some (CVal False IntRank (2 ^ w - 1))"
proof -
  have two: "(2 :: int) ^ w = 2 * 2 ^ (w - 1)" by (rule pow_split [OF assms(1)])
  have "w \<le> int_width T - 1" using assms(2) by simp
  then have le: "(2 :: int) ^ w \<le> 2 ^ (int_width T - 1)" by (rule power_increasing) simp
  have pos: "(1 :: int) \<le> 2 ^ (w - 1)" by simp
  have r: "in_range T False IntRank (2 ^ w - 2)" "in_range T False IntRank (2 ^ w - 1)"
    by (rule in_range_signed; use two le pos in \<open>simp only: rank_width.simps\<close>; linarith)+
  have f: "(2 ^ (w - 1) - 1) * 2 = (2 :: int) ^ w - 2" "2 ^ w - 2 + 1 = (2 :: int) ^ w - 1" using two by simp_all
  show "arith T (*) (CVal False IntRank (2 ^ (w - 1) - 1)) (CVal False IntRank 2) = Some (CVal False IntRank (2 ^ w - 2))"
    "arith T (+) (CVal False IntRank (2 ^ w - 2)) (CVal False IntRank 1) = Some (CVal False IntRank (2 ^ w - 1))"
    by (simp_all only: arith_signed f r if_True)
qed

lemma wide_unsigned_limit:
  assumes "2 \<le> int_width T"
  shows "arith T (*) (CVal False IntRank (2 ^ (int_width T - 1) - 1)) (CVal False IntRank 2) = None"
proof -
  have "1 \<le> int_width T - 1" using assms by simp
  then have "(2 :: int) ^ 1 \<le> 2 ^ (int_width T - 1)" by (rule power_increasing) simp
  then have "(2 :: int) ^ (int_width T - 1) \<le> (2 ^ (int_width T - 1) - 1) * 2" by simp
  then have "\<not> in_range T False IntRank ((2 ^ (int_width T - 1) - 1) * 2)"
    unfolding in_range_def if_False rank_width.simps by linarith
  then show ?thesis by (simp only: arith_signed if_False)
qed

lemma computed_in_int:
  assumes "2 \<le> w" "w \<le> int_width T" "2 \<le> int_width T"
  shows "map_option val (Option.bind (arith T (*) (CVal False IntRank (2 ^ (w - 1) - 1)) (CVal False IntRank 2))
      (\<lambda>a. arith T (+) a (CVal False IntRank 1))) = (if w < int_width T then Some (2 ^ w - 1) else None)"
proof (cases "w < int_width T")
  case True
  then show ?thesis
    by (simp only: narrow_unsigned_limit [OF assms(1) True] bind.simps option.map cval.sel if_True)
next
  case False
  then have w: "w = int_width T" using assms(2) by simp
  show ?thesis
    unfolding w by (simp only: wide_unsigned_limit [OF assms(3)] bind.simps option.map less_irrefl if_False)
qed

lemma macro_value_eval:
  "macros s n = Some (Expr e) \<Longrightarrow> macro_value T s n = map_option val (eval T (Suc (Suc (Suc (Suc (Suc 10))))) s e)"
proof -
  have "(16 :: nat) = Suc (Suc (Suc (Suc (Suc (Suc 10)))))" by simp
  then show "macros s n = Some (Expr e) \<Longrightarrow> macro_value T s n = map_option val (eval T (Suc (Suc (Suc (Suc (Suc 10))))) s e)"
    unfolding macro_value_def by (simp only: eval_mac)
qed

lemma eval_p: "macros s (Plain x) = Some (Expr (Num n suf)) \<Longrightarrow> eval T (Suc (Suc k)) s (p x) = literal T n suf"
  by (simp add: p_def)

text \<open>The three shapes of the limits: the greatest value itself, \<open>(-m-1)\<close> and \<open>(m*2+1)\<close>.\<close>

lemma limit_evals:
  assumes "macros s (Plain m) = Some (Expr (Num n suf))" "literal T n suf = Some (CVal False r v)"
  shows "eval T (Suc (Suc k)) s (p m) = Some (CVal False r v)"
    "literal T 1 suf1 = Some b \<Longrightarrow> fit T False r (- v) = Some a \<Longrightarrow>
     eval T (Suc (Suc (Suc (Suc k)))) s (Sub (Neg (p m)) (Num 1 suf1)) = arith T (-) a b"
    "literal T 2 suf2 = Some c \<Longrightarrow> literal T 1 suf1 = Some b \<Longrightarrow>
     eval T (Suc (Suc (Suc (Suc k)))) s (Add (Mul (p m) (Num 2 suf2)) (Num 1 suf1)) =
       Option.bind (arith T (*) (CVal False r v) c) (\<lambda>a. arith T (+) a b)"
  by (simp_all only: eval.simps(2,7,8,9,10) eval_p [OF assms(1)] assms(2) bind.simps option.map cval.sel)

lemma limit_shapes:
  assumes "macros s (Plain m) = Some (Expr (Num n suf))" "literal T n suf = Some (CVal False r v)"
  shows "macros s x = Some (Expr (p m)) \<Longrightarrow> macro_value T s x = Some v"
    "macros s x = Some (Expr (Sub (Neg (p m)) (Num 1 suf1))) \<Longrightarrow> literal T 1 suf1 = Some b \<Longrightarrow>
     fit T False r (- v) = Some a \<Longrightarrow> macro_value T s x = map_option val (arith T (-) a b)"
    "macros s x = Some (Expr (Add (Mul (p m) (Num 2 suf2)) (Num 1 suf1))) \<Longrightarrow> literal T 2 suf2 = Some c \<Longrightarrow>
     literal T 1 suf1 = Some b \<Longrightarrow>
     macro_value T s x = map_option val (Option.bind (arith T (*) (CVal False r v) c) (\<lambda>a. arith T (+) a b))"
  by (simp_all only: macro_value_eval limit_evals [OF assms] option.map cval.sel)

text \<open>A macro that is another macro has its value, when that is one of the three shapes.\<close>

lemma alias_value:
  assumes "macros s x = Some (Expr (p y))" "macros s (Plain y) = Some (Expr e)"
    and "eval T (Suc (Suc (Suc (Suc 10)))) s e = eval T (Suc (Suc (Suc (Suc (Suc 10))))) s e"
  shows "macro_value T s x = macro_value T s (Plain y)"
proof -
  have "macro_value T s x = map_option val (eval T (Suc (Suc (Suc (Suc 10)))) s e)"
    by (simp only: macro_value_eval [OF assms(1)] p_def eval.simps(3) assms(2) option.case body.case)
  then show ?thesis by (simp only: macro_value_eval [OF assms(2)] assms(3))
qed

section \<open>Properties of the header\<close>

definition ilp16 :: target where
  "ilp16 = \<lparr>int_width = 16, long_width = 32, llong_width = 64\<rparr>"

definition predefined_limits :: "target \<Rightarrow> nat \<Rightarrow> nat \<Rightarrow> cpp" where
  "predefined_limits T cw sw = \<lparr>macros = [
     Plain ''__SCHAR_MAX__'' \<mapsto> Expr (Num (2 ^ (cw - 1) - 1) []),
     Plain ''__SHRT_MAX__'' \<mapsto> Expr (Num (2 ^ (sw - 1) - 1) []),
     Plain ''__INT_MAX__'' \<mapsto> Expr (Num (2 ^ (int_width T - 1) - 1) []),
     Plain ''__LONG_MAX__'' \<mapsto> Expr (Num (2 ^ (long_width T - 1) - 1) ''L''),
     Plain ''__LONG_LONG_MAX__'' \<mapsto> Expr (Num (2 ^ (llong_width T - 1) - 1) ''LL''),
     Plain ''__STDC_VERSION__'' \<mapsto> Expr (Num 201710 ''L'')],
     types = Map.empty, clean = True\<rparr>"

lemma predefined_limits:
  "\<not> c_defined (Plain ''__CLANG_LIMITS_H'') (predefined_limits T cw sw)" "\<not> hosted None (predefined_limits T cw sw)"
  "2 \<le> cw \<Longrightarrow> cw \<le> int_width T \<Longrightarrow> 3 \<le> int_width T \<Longrightarrow> 2 \<le> sw \<Longrightarrow> sw \<le> int_width T \<Longrightarrow> int_width T \<le> long_width T \<Longrightarrow>
   long_width T \<le> llong_width T \<Longrightarrow> target_limits T cw sw (predefined_limits T cw sw)"
  by (simp_all add: predefined_limits_def c_defined_def hosted_def target_limits_def)

lemma predefined_examples:
  "target_limits lp64 8 16 (predefined_limits lp64 8 16)" "target_limits ilp16 8 16 (predefined_limits ilp16 8 16)"
  by (rule predefined_limits; simp add: lp64_def ilp16_def)+

text \<open>What \<open>limits.h\<close> finds: the compiler's macros, the values of their bodies, its own definitions.\<close>

lemma limits_pre:
  assumes "\<not> c_defined (Plain ''__CLANG_LIMITS_H'') s" "\<not> hosted sys s" "target_limits T cw sw s"
  shows "macros (limits_h sys s) (Plain ''__SCHAR_MAX__'') = Some (Expr (Num (2 ^ (cw - 1) - 1) ''''))"
    "macros (limits_h sys s) (Plain ''__SHRT_MAX__'') = Some (Expr (Num (2 ^ (sw - 1) - 1) ''''))"
    "macros (limits_h sys s) (Plain ''__INT_MAX__'') = Some (Expr (Num (2 ^ (int_width T - 1) - 1) ''''))"
    "macros (limits_h sys s) (Plain ''__LONG_MAX__'') = Some (Expr (Num (2 ^ (long_width T - 1) - 1) ''L''))"
    "macros (limits_h sys s) (Plain ''__LONG_LONG_MAX__'') = Some (Expr (Num (2 ^ (llong_width T - 1) - 1) ''LL''))"
proof -
  have comp: "macros (limits_h sys s) (Plain x) = macros s (Plain x)" if "x \<notin> set (later_names @ basic_names)" for x
    by (rule macros_compiler [OF assms(1,2)]) (use that in \<open>auto simp: other_than_def\<close>)
  show "macros (limits_h sys s) (Plain ''__SCHAR_MAX__'') = Some (Expr (Num (2 ^ (cw - 1) - 1) ''''))"
    "macros (limits_h sys s) (Plain ''__SHRT_MAX__'') = Some (Expr (Num (2 ^ (sw - 1) - 1) ''''))"
    "macros (limits_h sys s) (Plain ''__INT_MAX__'') = Some (Expr (Num (2 ^ (int_width T - 1) - 1) ''''))"
    "macros (limits_h sys s) (Plain ''__LONG_MAX__'') = Some (Expr (Num (2 ^ (long_width T - 1) - 1) ''L''))"
    "macros (limits_h sys s) (Plain ''__LONG_LONG_MAX__'') = Some (Expr (Num (2 ^ (llong_width T - 1) - 1) ''LL''))"
    using assms(3) by (simp_all add: target_limits_def comp later_names_def basic_names_def)
qed

lemma limits_here:
  assumes "\<not> c_defined (Plain ''__CLANG_LIMITS_H'') s" "\<not> hosted sys s" "n \<notin> set later_names"
    and "macros (basic_limits (undef_limits (limits_start s))) (Plain n) = b"
  shows "macros (limits_h sys s) (Plain n) = b"
  unfolding assms(4) [symmetric]
  by (rule macros_limits_h [OF assms(1,2)]) (use assms(3) in \<open>auto simp: other_than_def\<close>)

lemma limits_not_later:
  "''SCHAR_MIN'' \<notin> set later_names" "''SCHAR_MAX'' \<notin> set later_names" "''UCHAR_MAX'' \<notin> set later_names"
  "''SHRT_MIN'' \<notin> set later_names" "''SHRT_MAX'' \<notin> set later_names" "''USHRT_MAX'' \<notin> set later_names"
  "''INT_MIN'' \<notin> set later_names" "''INT_MAX'' \<notin> set later_names" "''UINT_MAX'' \<notin> set later_names"
  "''LONG_MIN'' \<notin> set later_names" "''LONG_MAX'' \<notin> set later_names" "''ULONG_MAX'' \<notin> set later_names"
  by (simp_all add: later_names_def)

lemma limits_literals:
  assumes "target_limits T cw sw s"
  shows "literal T (2 ^ (cw - 1) - 1) '''' = Some (CVal False IntRank (2 ^ (cw - 1) - 1))"
    "literal T (2 ^ (sw - 1) - 1) '''' = Some (CVal False IntRank (2 ^ (sw - 1) - 1))"
    "literal T (2 ^ (int_width T - 1) - 1) '''' = Some (CVal False IntRank (2 ^ (int_width T - 1) - 1))"
    "literal T (2 ^ (long_width T - 1) - 1) ''L'' = Some (CVal False LongRank (2 ^ (long_width T - 1) - 1))"
    "literal T (2 ^ (llong_width T - 1) - 1) ''LL'' = Some (CVal False LongLongRank (2 ^ (llong_width T - 1) - 1))"
proof -
  have max: "int (2 ^ (w - 1) - 1) < 2 ^ (v - 1)" if "w \<le> v" for w v :: nat
  proof -
    have "(2 :: int) ^ (w - 1) \<le> 2 ^ (v - 1)" using that by (intro power_increasing) auto
    then show ?thesis unfolding int_smax by linarith
  qed
  show "literal T (2 ^ (cw - 1) - 1) '''' = Some (CVal False IntRank (2 ^ (cw - 1) - 1))"
    "literal T (2 ^ (sw - 1) - 1) '''' = Some (CVal False IntRank (2 ^ (sw - 1) - 1))"
    "literal T (2 ^ (int_width T - 1) - 1) '''' = Some (CVal False IntRank (2 ^ (int_width T - 1) - 1))"
    "literal T (2 ^ (long_width T - 1) - 1) ''L'' = Some (CVal False LongRank (2 ^ (long_width T - 1) - 1))"
    "literal T (2 ^ (llong_width T - 1) - 1) ''LL'' = Some (CVal False LongLongRank (2 ^ (llong_width T - 1) - 1))"
    using literals(1,2,3) [of "2 ^ (_ - 1) - 1", OF max] assms [unfolded target_limits_def] unfolding int_smax by auto
qed

lemma limits_small_literals:
  assumes "target_limits T cw sw s"
  shows "literal T 1 '''' = Some (CVal False IntRank 1)" "literal T 2 '''' = Some (CVal False IntRank 2)"
    "literal T 1 ''L'' = Some (CVal False LongRank 1)"
    "literal T 1 ''U'' = Some (CVal True IntRank 1)" "literal T 2 ''U'' = Some (CVal True IntRank 2)"
    "literal T 1 ''UL'' = Some (CVal True LongRank 1)" "literal T 2 ''UL'' = Some (CVal True LongRank 2)"
    "literal T 1 ''LL'' = Some (CVal False LongLongRank 1)"
    "literal T 1 ''ULL'' = Some (CVal True LongLongRank 1)" "literal T 2 ''ULL'' = Some (CVal True LongLongRank 2)"
proof -
  note t = assms [unfolded target_limits_def]
  have w: "2 \<le> int_width T" "2 \<le> long_width T" "2 \<le> llong_width T" and w': "2 \<le> int_width T - 1" using t by auto
  then have "1 \<le> int_width T - 1" "1 \<le> long_width T - 1" "1 \<le> llong_width T - 1" by auto
  from this [THEN power_increasing, of "2 :: int"]
  have one: "(2 :: int) \<le> 2 ^ (int_width T - 1)" "(2 :: int) \<le> 2 ^ (long_width T - 1)" "(2 :: int) \<le> 2 ^ (llong_width T - 1)"
    by simp_all
  from power_increasing [OF w', of "2 :: int"] have four: "(4 :: int) \<le> 2 ^ (int_width T - 1)" by simp
  have two: "(2 :: int) ^ int_width T = 2 * 2 ^ (int_width T - 1)" "(2 :: int) ^ long_width T = 2 * 2 ^ (long_width T - 1)"
    "(2 :: int) ^ llong_width T = 2 * 2 ^ (llong_width T - 1)"
    using w by (simp_all only: pow_split)
  show "literal T 1 '''' = Some (CVal False IntRank 1)" "literal T 2 '''' = Some (CVal False IntRank 2)"
    "literal T 1 ''L'' = Some (CVal False LongRank 1)"
    "literal T 1 ''U'' = Some (CVal True IntRank 1)" "literal T 2 ''U'' = Some (CVal True IntRank 2)"
    "literal T 1 ''UL'' = Some (CVal True LongRank 1)" "literal T 2 ''UL'' = Some (CVal True LongRank 2)"
    "literal T 1 ''LL'' = Some (CVal False LongLongRank 1)"
    "literal T 1 ''ULL'' = Some (CVal True LongLongRank 1)" "literal T 2 ''ULL'' = Some (CVal True LongLongRank 2)"
    using literals(1) [of 1 T] literals(1) [of 2 T] literals(2) [of 1 T] literals(4) [of 1 T] literals(4) [of 2 T]
      literals(5) [of 1 T] literals(5) [of 2 T] literals(3) [of 1 T] literals(6) [of 1 T] literals(6) [of 2 T]
      one four two by simp_all
qed

lemma limits_widths:
  assumes "target_limits T cw sw s"
  shows "2 \<le> cw" "cw \<le> rank_width T IntRank" "2 \<le> sw" "sw \<le> rank_width T IntRank" "cw \<le> int_width T"
    "2 \<le> int_width T" "2 \<le> long_width T" "rank_width T IntRank = int_width T" "rank_width T LongRank = long_width T"
    "2 \<le> llong_width T" "rank_width T LongLongRank = llong_width T"
  using assms by (auto simp: target_limits_def)

text \<open>The signed limits, and the unsigned ones.\<close>

lemma limits_signed:
  assumes "\<not> c_defined (Plain ''__CLANG_LIMITS_H'') s" "\<not> hosted sys s" "target_limits T cw sw s"
  shows "macro_value T (limits_h sys s) (Plain ''SCHAR_MIN'') = Some (- (2 ^ (cw - 1)))"
    "macro_value T (limits_h sys s) (Plain ''SCHAR_MAX'') = Some (2 ^ (cw - 1) - 1)"
    "macro_value T (limits_h sys s) (Plain ''SHRT_MIN'') = Some (- (2 ^ (sw - 1)))"
    "macro_value T (limits_h sys s) (Plain ''SHRT_MAX'') = Some (2 ^ (sw - 1) - 1)"
    "macro_value T (limits_h sys s) (Plain ''INT_MIN'') = Some (- (2 ^ (int_width T - 1)))"
    "macro_value T (limits_h sys s) (Plain ''INT_MAX'') = Some (2 ^ (int_width T - 1) - 1)"
    "macro_value T (limits_h sys s) (Plain ''LONG_MIN'') = Some (- (2 ^ (long_width T - 1)))"
    "macro_value T (limits_h sys s) (Plain ''LONG_MAX'') = Some (2 ^ (long_width T - 1) - 1)"
proof -
  let ?s = "limits_h sys s"
  note pre = limits_pre [OF assms] and lits = limits_literals [OF assms(3)] and small = limits_small_literals [OF assms(3)]
    and w = limits_widths [OF assms(3)] and m = basic_macros [THEN limits_here [OF assms(1,2), rotated]]
  note lower_int = lower_limit [of "int_width T" T IntRank] lower_limit [of "long_width T" T LongRank]
  note ch = limit_shapes [OF pre(1) lits(1)] and sh = limit_shapes [OF pre(2) lits(2)]
    and it = limit_shapes [OF pre(3) lits(3)] and lo = limit_shapes [OF pre(4) lits(4)]
  note later = limits_not_later
  show "macro_value T ?s (Plain ''SCHAR_MIN'') = Some (- (2 ^ (cw - 1)))"
    by (subst ch(2) [OF m(5) [OF later(1)] small(1) lower_limit(1) [OF w(1,2)]])
      (simp only: lower_limit(2) [OF w(1,2)] option.map cval.sel)
  show "macro_value T ?s (Plain ''SCHAR_MAX'') = Some (2 ^ (cw - 1) - 1)"
    by (rule ch(1) [OF m(1) [OF later(2)]])
  show "macro_value T ?s (Plain ''SHRT_MIN'') = Some (- (2 ^ (sw - 1)))"
    by (subst sh(2) [OF m(6) [OF later(4)] small(1) lower_limit(1) [OF w(3,4)]])
      (simp only: lower_limit(2) [OF w(3,4)] option.map cval.sel)
  show "macro_value T ?s (Plain ''SHRT_MAX'') = Some (2 ^ (sw - 1) - 1)"
    by (rule sh(1) [OF m(2) [OF later(5)]])
  show "macro_value T ?s (Plain ''INT_MIN'') = Some (- (2 ^ (int_width T - 1)))"
    by (subst it(2) [OF m(7) [OF later(7)] small(1) lower_int(1) [OF w(6)]])
      (simp_all only: lower_int(2) [OF w(6)] w(8,9) order_refl option.map cval.sel)
  show "macro_value T ?s (Plain ''INT_MAX'') = Some (2 ^ (int_width T - 1) - 1)"
    by (rule it(1) [OF m(3) [OF later(8)]])
  show "macro_value T ?s (Plain ''LONG_MIN'') = Some (- (2 ^ (long_width T - 1)))"
    by (subst lo(2) [OF m(8) [OF later(10)] small(3) lower_int(3) [OF w(7)]])
      (simp_all only: lower_int(4) [OF w(7)] w(8,9) order_refl option.map cval.sel)
  show "macro_value T ?s (Plain ''LONG_MAX'') = Some (2 ^ (long_width T - 1) - 1)"
    by (rule lo(1) [OF m(4) [OF later(11)]])
qed

lemma limits_unsigned:
  assumes "\<not> c_defined (Plain ''__CLANG_LIMITS_H'') s" "\<not> hosted sys s" "target_limits T cw sw s"
  shows "macro_value T (limits_h sys s) (Plain ''UCHAR_MAX'') = (if cw < int_width T then Some (2 ^ cw - 1) else None)"
    "macro_value T (limits_h sys s) (Plain ''USHRT_MAX'') = (if sw < int_width T then Some (2 ^ sw - 1) else None)"
    "macro_value T (limits_h sys s) (Plain ''UINT_MAX'') = Some (2 ^ int_width T - 1)"
    "macro_value T (limits_h sys s) (Plain ''ULONG_MAX'') = Some (2 ^ long_width T - 1)"
proof -
  let ?s = "limits_h sys s"
  note pre = limits_pre [OF assms] and lits = limits_literals [OF assms(3)] and small = limits_small_literals [OF assms(3)]
    and w = limits_widths [OF assms(3)] and m = basic_macros [THEN limits_here [OF assms(1,2), rotated]]
  note ups = unsigned_limit [of T IntRank, unfolded w(8), OF w(6)] unsigned_limit [of T LongRank, unfolded w(9), OF w(7)]
  note ch = limit_shapes [OF pre(1) lits(1)] and sh = limit_shapes [OF pre(2) lits(2)]
    and it = limit_shapes [OF pre(3) lits(3)] and lo = limit_shapes [OF pre(4) lits(4)]
  note later = limits_not_later
  show "macro_value T ?s (Plain ''UCHAR_MAX'') = (if cw < int_width T then Some (2 ^ cw - 1) else None)"
    by (subst ch(3) [OF m(9) [OF later(3)] small(2,1)]) (rule computed_in_int [OF w(1,5,6)])
  show "macro_value T ?s (Plain ''USHRT_MAX'') = (if sw < int_width T then Some (2 ^ sw - 1) else None)"
    by (subst sh(3) [OF m(10) [OF later(6)] small(2,1)])
      (rule computed_in_int [OF w(3) w(4) [unfolded w(8)] w(6)])
  show "macro_value T ?s (Plain ''UINT_MAX'') = Some (2 ^ int_width T - 1)"
    by (subst it(3) [OF m(11) [OF later(9)] small(5,4)]) (simp only: ups(1,2) bind.simps option.map cval.sel)
  show "macro_value T ?s (Plain ''ULONG_MAX'') = Some (2 ^ long_width T - 1)"
    by (subst lo(3) [OF m(12) [OF later(12)] small(7,6)]) (simp only: ups(3,4) bind.simps option.map cval.sel)
qed

text \<open>The limits of \<open>char\<close>: which of its two kinds it is like, the compiler's macro says.\<close>

lemma late_sections:
  assumes "\<not> c_defined (Plain ''__CLANG_LIMITS_H'') s" "\<not> hosted sys s"
  defines "b \<equiv> width_limits (basic_limits (undef_limits (limits_start s)))"
  shows "limits_h sys s = gnu_limits (llong_limits (char_limits b))"
    and "other_than (later_names @ basic_names) x \<Longrightarrow> macros b x = macros s x \<and> macros (char_limits b) x = macros s x \<and>
      macros (llong_limits (char_limits b)) x = macros s x"
proof -
  show "limits_h sys s = gnu_limits (llong_limits (char_limits b))"
    by (simp add: limits_h_sections [OF assms(1,2)] b_def)
  assume x: "other_than (later_names @ basic_names) x"
  then have x': "other_than later_names x" "other_than basic_names x" by (auto simp: other_than_def)
  have "macros (limits_start s) x = macros s x"
    using x'(2) by (auto simp: limits_start_def c_if_def other_than_def basic_names_def)
  then show "macros b x = macros s x \<and> macros (char_limits b) x = macros s x \<and>
      macros (llong_limits (char_limits b)) x = macros s x"
    using keepsD [OF keeps_early(1) x'(2)] keepsD [OF keeps_early(2) x'(2)] keeps_later [THEN keepsD, OF x'(1)]
    by (simp add: b_def)
qed

lemma keeps_sections:
  "keeps (other_than [''CHAR_MIN'', ''CHAR_MAX'']) char_limits"
  "keeps (other_than [''LLONG_MIN'', ''LLONG_MAX'', ''ULLONG_MAX'']) llong_limits"
  "keeps (other_than [''LONG_LONG_MIN'', ''LONG_LONG_MAX'', ''ULONG_LONG_MAX'']) gnu_limits"
  "keeps (other_than [''BOOL_WIDTH'', ''CHAR_WIDTH'', ''SCHAR_WIDTH'', ''UCHAR_WIDTH'', ''USHRT_WIDTH'', ''SHRT_WIDTH'',
     ''UINT_WIDTH'', ''INT_WIDTH'', ''ULONG_WIDTH'', ''LONG_WIDTH'', ''ULLONG_WIDTH'', ''LLONG_WIDTH'',
     ''BITINT_MAXWIDTH'']) width_limits"
  by (simp_all add: width_limits_def char_limits_def llong_limits_def gnu_limits_def p_define_def other_than_def)

lemma late_macros:
  assumes "\<not> c_defined (Plain ''__CLANG_LIMITS_H'') s" "\<not> hosted sys s"
  shows "macros (limits_h sys s) (Plain ''CHAR_MIN'') =
      Some (Expr (if c_defined (Plain ''__CHAR_UNSIGNED__'') s then Num 0 '''' else p ''SCHAR_MIN''))"
    "macros (limits_h sys s) (Plain ''CHAR_MAX'') =
      Some (Expr (p (if c_defined (Plain ''__CHAR_UNSIGNED__'') s then ''UCHAR_MAX'' else ''__SCHAR_MAX__'')))"
    "has_long_long s \<Longrightarrow> macros (limits_h sys s) (Plain ''LLONG_MAX'') = Some (Expr (p ''__LONG_LONG_MAX__''))"
    "has_long_long s \<Longrightarrow> macros (limits_h sys s) (Plain ''LLONG_MIN'') =
      Some (Expr (Sub (Neg (p ''__LONG_LONG_MAX__'')) (Num 1 ''LL'')))"
    "has_long_long s \<Longrightarrow> macros (limits_h sys s) (Plain ''ULLONG_MAX'') =
      Some (Expr (Add (Mul (p ''__LONG_LONG_MAX__'') (Num 2 ''ULL'')) (Num 1 ''ULL'')))"
    "gnu_extensions s \<Longrightarrow> macros (limits_h sys s) (Plain ''LONG_LONG_MAX'') = Some (Expr (p ''__LONG_LONG_MAX__''))"
    "gnu_extensions s \<Longrightarrow> macros (limits_h sys s) (Plain ''LONG_LONG_MIN'') =
      Some (Expr (Sub (Neg (p ''__LONG_LONG_MAX__'')) (Num 1 ''LL'')))"
    "gnu_extensions s \<Longrightarrow> macros (limits_h sys s) (Plain ''ULONG_LONG_MAX'') =
      Some (Expr (Add (Mul (p ''__LONG_LONG_MAX__'') (Num 2 ''ULL'')) (Num 1 ''ULL'')))"
    "\<not> has_long_long s \<Longrightarrow> x \<in> {''LLONG_MIN'', ''LLONG_MAX'', ''ULLONG_MAX''} \<Longrightarrow>
      macros (limits_h sys s) (Plain x) = macros s (Plain x)"
    "\<not> gnu_extensions s \<Longrightarrow> x \<in> {''LONG_LONG_MIN'', ''LONG_LONG_MAX'', ''ULONG_LONG_MAX''} \<Longrightarrow>
      macros (limits_h sys s) (Plain x) = macros s (Plain x)"
proof -
  define b where "b = width_limits (basic_limits (undef_limits (limits_start s)))"
  note sections = late_sections [OF assms, folded b_def]
  have same: "macros t (Plain x) = macros s (Plain x)"
    if "x \<notin> set (later_names @ basic_names)" "t \<in> {b, char_limits b, llong_limits (char_limits b)}" for x t
    using sections(2) [of "Plain x"] that by (auto simp: other_than_def)
  have conds: "c_defined (Plain ''__CHAR_UNSIGNED__'') b = c_defined (Plain ''__CHAR_UNSIGNED__'') s"
    "has_long_long (char_limits b) = has_long_long s"
    "gnu_extensions (llong_limits (char_limits b)) = gnu_extensions s"
    by (simp_all add: c_defined_def has_long_long_def version_at_least_def gnu_extensions_def same later_names_def basic_names_def)
  note keep = keeps_sections [THEN keepsD]
  have in_order: "macros (limits_h sys s) (Plain x) = macros (char_limits b) (Plain x)"
    if "x = ''CHAR_MIN'' \<or> x = ''CHAR_MAX''" for x
    using that keep(2,3) [of "Plain x"] by (auto simp: sections(1) other_than_def)
  show "macros (limits_h sys s) (Plain ''CHAR_MIN'') =
      Some (Expr (if c_defined (Plain ''__CHAR_UNSIGNED__'') s then Num 0 '''' else p ''SCHAR_MIN''))"
    "macros (limits_h sys s) (Plain ''CHAR_MAX'') =
      Some (Expr (p (if c_defined (Plain ''__CHAR_UNSIGNED__'') s then ''UCHAR_MAX'' else ''__SCHAR_MAX__'')))"
    by (simp_all add: in_order) (simp_all add: char_limits_def c_if_def conds p_define_def)
  have ll: "macros (limits_h sys s) (Plain x) = macros (llong_limits (char_limits b)) (Plain x)"
    if "x \<in> {''LLONG_MIN'', ''LLONG_MAX'', ''ULLONG_MAX''}" for x
    using that keep(3) [of "Plain x"] by (auto simp: sections(1) other_than_def)
  show "has_long_long s \<Longrightarrow> macros (limits_h sys s) (Plain ''LLONG_MAX'') = Some (Expr (p ''__LONG_LONG_MAX__''))"
    "has_long_long s \<Longrightarrow> macros (limits_h sys s) (Plain ''LLONG_MIN'') =
      Some (Expr (Sub (Neg (p ''__LONG_LONG_MAX__'')) (Num 1 ''LL'')))"
    "has_long_long s \<Longrightarrow> macros (limits_h sys s) (Plain ''ULLONG_MAX'') =
      Some (Expr (Add (Mul (p ''__LONG_LONG_MAX__'') (Num 2 ''ULL'')) (Num 1 ''ULL'')))"
    by (simp_all add: ll) (simp_all add: llong_limits_def c_if_def conds p_define_def)
  show "gnu_extensions s \<Longrightarrow> macros (limits_h sys s) (Plain ''LONG_LONG_MAX'') = Some (Expr (p ''__LONG_LONG_MAX__''))"
    "gnu_extensions s \<Longrightarrow> macros (limits_h sys s) (Plain ''LONG_LONG_MIN'') =
      Some (Expr (Sub (Neg (p ''__LONG_LONG_MAX__'')) (Num 1 ''LL'')))"
    "gnu_extensions s \<Longrightarrow> macros (limits_h sys s) (Plain ''ULONG_LONG_MAX'') =
      Some (Expr (Add (Mul (p ''__LONG_LONG_MAX__'') (Num 2 ''ULL'')) (Num 1 ''ULL'')))"
    unfolding sections(1) by (simp_all add: gnu_limits_def c_if_def conds p_define_def)
  have early: "macros b (Plain x) = macros s (Plain x)"
    if "x \<in> {''LLONG_MIN'', ''LLONG_MAX'', ''ULLONG_MAX'', ''LONG_LONG_MIN'', ''LONG_LONG_MAX'', ''ULONG_LONG_MAX''}" for x
  proof -
    have x: "other_than basic_names (Plain x)" using that by (auto simp: other_than_def basic_names_def)
    then have "macros (limits_start s) (Plain x) = macros s (Plain x)"
      by (auto simp: limits_start_def c_if_def other_than_def basic_names_def)
    then show ?thesis
      using keepsD [OF keeps_early(1) x] keepsD [OF keeps_early(2) x] keep(4) [of "Plain x"] that
      by (auto simp: b_def other_than_def)
  qed
  show "macros (limits_h sys s) (Plain x) = macros s (Plain x)"
    if "\<not> has_long_long s" "x \<in> {''LLONG_MIN'', ''LLONG_MAX'', ''ULLONG_MAX''}"
  proof -
    have "llong_limits (char_limits b) = char_limits b"
      using that(1) by (simp add: llong_limits_def c_if_def conds)
    with ll [OF that(2)] early [of x] keep(1) [of "Plain x"] that(2) show ?thesis by (auto simp: other_than_def)
  qed
  show "macros (limits_h sys s) (Plain x) = macros s (Plain x)"
    if "\<not> gnu_extensions s" "x \<in> {''LONG_LONG_MIN'', ''LONG_LONG_MAX'', ''ULONG_LONG_MAX''}"
  proof -
    have "limits_h sys s = llong_limits (char_limits b)"
      using that(1) unfolding sections(1) by (simp add: gnu_limits_def c_if_def conds)
    with early [of x] keep(1,2) [of "Plain x"] that(2) show ?thesis by (auto simp: other_than_def)
  qed
qed

lemma limits_char:
  assumes "\<not> c_defined (Plain ''__CLANG_LIMITS_H'') s" "\<not> hosted sys s" "target_limits T cw sw s"
  shows "macro_value T (limits_h sys s) (Plain ''CHAR_MIN'') =
      (if c_defined (Plain ''__CHAR_UNSIGNED__'') s then Some 0 else Some (- (2 ^ (cw - 1))))"
    "macro_value T (limits_h sys s) (Plain ''CHAR_MAX'') =
      (if c_defined (Plain ''__CHAR_UNSIGNED__'') s then if cw < int_width T then Some (2 ^ cw - 1) else None
       else Some (2 ^ (cw - 1) - 1))"
proof -
  let ?s = "limits_h sys s"
  note pre = limits_pre [OF assms] and lits = limits_literals [OF assms(3)] and small = limits_small_literals [OF assms(3)]
    and w = limits_widths [OF assms(3)] and m = basic_macros [THEN limits_here [OF assms(1,2), rotated]]
  note late = late_macros [OF assms(1,2)] and later = limits_not_later
  note evals = limit_evals [OF pre(1) lits(1)]
  have "literal T 0 '''' = Some (CVal False IntRank 0)" using literals(1) [of 0 T] by simp
  then have zero: "macros ?s x = Some (Expr (Num 0 '''')) \<Longrightarrow> macro_value T ?s x = Some 0" for x
    by (simp only: macro_value_eval eval.simps(2) option.map cval.sel)
  have lower: "macros ?s x = Some (Expr (p ''SCHAR_MIN'')) \<Longrightarrow> macro_value T ?s x = Some (- (2 ^ (cw - 1)))" for x
    using alias_value [of ?s x "''SCHAR_MIN''", OF _ m(5) [OF later(1)]] limits_signed(1) [OF assms]
    by (simp only: evals(2) [OF small(1) lower_limit(1) [OF w(1,2)]])
  have upper: "macros ?s x = Some (Expr (p ''UCHAR_MAX'')) \<Longrightarrow>
      macro_value T ?s x = (if cw < int_width T then Some (2 ^ cw - 1) else None)" for x
    using alias_value [of ?s x "''UCHAR_MAX''", OF _ m(9) [OF later(3)]] limits_unsigned(1) [OF assms]
    by (simp only: evals(3) [OF small(2,1)])
  show "macro_value T ?s (Plain ''CHAR_MIN'') =
      (if c_defined (Plain ''__CHAR_UNSIGNED__'') s then Some 0 else Some (- (2 ^ (cw - 1))))"
    using late(1) zero lower by (cases "c_defined (Plain ''__CHAR_UNSIGNED__'') s") simp_all
  show "macro_value T ?s (Plain ''CHAR_MAX'') =
      (if c_defined (Plain ''__CHAR_UNSIGNED__'') s then if cw < int_width T then Some (2 ^ cw - 1) else None
       else Some (2 ^ (cw - 1) - 1))"
    using late(2) upper limit_shapes(1) [OF pre(1) lits(1)]
    by (cases "c_defined (Plain ''__CHAR_UNSIGNED__'') s") simp_all
qed

lemma limits_long_long:
  assumes "\<not> c_defined (Plain ''__CLANG_LIMITS_H'') s" "\<not> hosted sys s" "target_limits T cw sw s"
  shows "macros (limits_h sys s) n = Some (Expr (p ''__LONG_LONG_MAX__'')) \<Longrightarrow>
      macro_value T (limits_h sys s) n = Some (2 ^ (llong_width T - 1) - 1)"
    "macros (limits_h sys s) n = Some (Expr (Sub (Neg (p ''__LONG_LONG_MAX__'')) (Num 1 ''LL''))) \<Longrightarrow>
      macro_value T (limits_h sys s) n = Some (- (2 ^ (llong_width T - 1)))"
    "macros (limits_h sys s) n = Some (Expr (Add (Mul (p ''__LONG_LONG_MAX__'') (Num 2 ''ULL'')) (Num 1 ''ULL''))) \<Longrightarrow>
      macro_value T (limits_h sys s) n = Some (2 ^ llong_width T - 1)"
proof -
  note pre = limits_pre [OF assms] and lits = limits_literals [OF assms(3)] and small = limits_small_literals [OF assms(3)]
    and w = limits_widths [OF assms(3)]
  note shapes = limit_shapes [OF pre(5) lits(5)]
  note low = lower_limit [of "llong_width T" T LongLongRank, unfolded w(11), OF w(10) order_refl]
  note ups = unsigned_limit [of T LongLongRank, unfolded w(11), OF w(10)]
  show "macros (limits_h sys s) n = Some (Expr (p ''__LONG_LONG_MAX__'')) \<Longrightarrow>
      macro_value T (limits_h sys s) n = Some (2 ^ (llong_width T - 1) - 1)"
    by (rule shapes(1))
  show "macro_value T (limits_h sys s) n = Some (- (2 ^ (llong_width T - 1)))"
    if "macros (limits_h sys s) n = Some (Expr (Sub (Neg (p ''__LONG_LONG_MAX__'')) (Num 1 ''LL'')))"
    by (subst shapes(2) [OF that small(8) low(1)]) (simp only: low(2) option.map cval.sel)
  show "macro_value T (limits_h sys s) n = Some (2 ^ llong_width T - 1)"
    if "macros (limits_h sys s) n = Some (Expr (Add (Mul (p ''__LONG_LONG_MAX__'') (Num 2 ''ULL'')) (Num 1 ''ULL'')))"
    by (subst shapes(3) [OF that small(10,9)]) (simp only: ups bind.simps option.map cval.sel)
qed

text \<open>The limits of \<open>long long\<close>, where the header defines them.\<close>

lemma limits_optional:
  assumes "\<not> c_defined (Plain ''__CLANG_LIMITS_H'') s" "\<not> hosted sys s" "target_limits T cw sw s"
  shows "if has_long_long s
     then macro_value T (limits_h sys s) (Plain ''LLONG_MIN'') = Some (- (2 ^ (llong_width T - 1))) \<and>
       macro_value T (limits_h sys s) (Plain ''LLONG_MAX'') = Some (2 ^ (llong_width T - 1) - 1) \<and>
       macro_value T (limits_h sys s) (Plain ''ULLONG_MAX'') = Some (2 ^ llong_width T - 1)
     else \<forall>x \<in> {''LLONG_MIN'', ''LLONG_MAX'', ''ULLONG_MAX''}. macros (limits_h sys s) (Plain x) = macros s (Plain x)"
    "if gnu_extensions s
     then macro_value T (limits_h sys s) (Plain ''LONG_LONG_MIN'') = Some (- (2 ^ (llong_width T - 1))) \<and>
       macro_value T (limits_h sys s) (Plain ''LONG_LONG_MAX'') = Some (2 ^ (llong_width T - 1) - 1) \<and>
       macro_value T (limits_h sys s) (Plain ''ULONG_LONG_MAX'') = Some (2 ^ llong_width T - 1)
     else \<forall>x \<in> {''LONG_LONG_MIN'', ''LONG_LONG_MAX'', ''ULONG_LONG_MAX''}.
       macros (limits_h sys s) (Plain x) = macros s (Plain x)"
proof -
  note late = late_macros [OF assms(1,2)] and ll = limits_long_long [OF assms(1-3)]
  show "if has_long_long s
     then macro_value T (limits_h sys s) (Plain ''LLONG_MIN'') = Some (- (2 ^ (llong_width T - 1))) \<and>
       macro_value T (limits_h sys s) (Plain ''LLONG_MAX'') = Some (2 ^ (llong_width T - 1) - 1) \<and>
       macro_value T (limits_h sys s) (Plain ''ULLONG_MAX'') = Some (2 ^ llong_width T - 1)
     else \<forall>x \<in> {''LLONG_MIN'', ''LLONG_MAX'', ''ULLONG_MAX''}. macros (limits_h sys s) (Plain x) = macros s (Plain x)"
    using ll(2) [OF late(4)] ll(1) [OF late(3)] ll(3) [OF late(5)] late(9) by auto
  show "if gnu_extensions s
     then macro_value T (limits_h sys s) (Plain ''LONG_LONG_MIN'') = Some (- (2 ^ (llong_width T - 1))) \<and>
       macro_value T (limits_h sys s) (Plain ''LONG_LONG_MAX'') = Some (2 ^ (llong_width T - 1) - 1) \<and>
       macro_value T (limits_h sys s) (Plain ''ULONG_LONG_MAX'') = Some (2 ^ llong_width T - 1)
     else \<forall>x \<in> {''LONG_LONG_MIN'', ''LONG_LONG_MAX'', ''ULONG_LONG_MAX''}.
       macros (limits_h sys s) (Plain x) = macros s (Plain x)"
    using ll(2) [OF late(7)] ll(1) [OF late(6)] ll(3) [OF late(8)] late(10) by auto
qed

text \<open>
  C36: The limits of \<open>limits.h\<close> are those of types of the target's widths, each computed with C's
  typed arithmetic and without overflow: \<open>cw\<close> bits for \<open>char\<close>, \<open>sw\<close> for \<open>short\<close>, and the target's
  for \<open>int\<close>, \<open>long\<close> and \<open>long long\<close>. Only \<open>UCHAR_MAX\<close> has no value when \<open>char\<close> is as wide as \<open>int\<close>,
  and \<open>USHRT_MAX\<close> when \<open>short\<close> is: they are computed in \<open>int\<close> and overflow. The limits of \<open>char\<close> are
  those of its unsigned or of its signed kind, as the compiler says; those of \<open>long long\<close> are there
  from C99 and C++11 on, and under the GNU names where the extensions are, and otherwise the
  header leaves these names as they were.
\<close>

theorem limits_h_values:
  assumes "\<not> c_defined (Plain ''__CLANG_LIMITS_H'') s" "\<not> hosted sys s" "target_limits T cw sw s"
  defines "limit \<equiv> \<lambda>x. macro_value T (limits_h sys s) (Plain x)"
  shows "limit ''SCHAR_MIN'' = Some (- (2 ^ (cw - 1))) \<and> limit ''SCHAR_MAX'' = Some (2 ^ (cw - 1) - 1) \<and>
    limit ''UCHAR_MAX'' = (if cw < int_width T then Some (2 ^ cw - 1) else None) \<and>
    limit ''CHAR_MIN'' = (if c_defined (Plain ''__CHAR_UNSIGNED__'') s then Some 0 else limit ''SCHAR_MIN'') \<and>
    limit ''CHAR_MAX'' = limit (if c_defined (Plain ''__CHAR_UNSIGNED__'') s then ''UCHAR_MAX'' else ''SCHAR_MAX'') \<and>
    limit ''SHRT_MIN'' = Some (- (2 ^ (sw - 1))) \<and> limit ''SHRT_MAX'' = Some (2 ^ (sw - 1) - 1) \<and>
    limit ''USHRT_MAX'' = (if sw < int_width T then Some (2 ^ sw - 1) else None) \<and>
    limit ''INT_MIN'' = Some (- (2 ^ (int_width T - 1))) \<and> limit ''INT_MAX'' = Some (2 ^ (int_width T - 1) - 1) \<and>
    limit ''UINT_MAX'' = Some (2 ^ int_width T - 1) \<and>
    limit ''LONG_MIN'' = Some (- (2 ^ (long_width T - 1))) \<and> limit ''LONG_MAX'' = Some (2 ^ (long_width T - 1) - 1) \<and>
    limit ''ULONG_MAX'' = Some (2 ^ long_width T - 1) \<and>
    (if has_long_long s
     then limit ''LLONG_MIN'' = Some (- (2 ^ (llong_width T - 1))) \<and>
       limit ''LLONG_MAX'' = Some (2 ^ (llong_width T - 1) - 1) \<and> limit ''ULLONG_MAX'' = Some (2 ^ llong_width T - 1)
     else \<forall>x \<in> {''LLONG_MIN'', ''LLONG_MAX'', ''ULLONG_MAX''}. macros (limits_h sys s) (Plain x) = macros s (Plain x)) \<and>
    (if gnu_extensions s
     then limit ''LONG_LONG_MIN'' = Some (- (2 ^ (llong_width T - 1))) \<and>
       limit ''LONG_LONG_MAX'' = Some (2 ^ (llong_width T - 1) - 1) \<and>
       limit ''ULONG_LONG_MAX'' = Some (2 ^ llong_width T - 1)
     else \<forall>x \<in> {''LONG_LONG_MIN'', ''LONG_LONG_MAX'', ''ULONG_LONG_MAX''}.
       macros (limits_h sys s) (Plain x) = macros s (Plain x))"
proof -
  have lim: "macro_value T (limits_h sys s) (Plain x) = limit x" for x by (simp add: limit_def)
  have "limit ''CHAR_MIN'' = (if c_defined (Plain ''__CHAR_UNSIGNED__'') s then Some 0 else limit ''SCHAR_MIN'')"
    "limit ''CHAR_MAX'' = limit (if c_defined (Plain ''__CHAR_UNSIGNED__'') s then ''UCHAR_MAX'' else ''SCHAR_MAX'')"
    unfolding limit_def using limits_signed(1,2) [OF assms(1-3)] limits_unsigned(1) [OF assms(1-3)] limits_char [OF assms(1-3)]
    by (simp_all only: if_True if_False split: if_split) simp_all
  then show ?thesis
    using limits_signed [OF assms(1-3), unfolded lim] limits_unsigned [OF assms(1-3), unfolded lim]
      limits_optional [OF assms(1-3), unfolded lim]
    by (intro conjI)
qed

theorem limits_h_values_witness:
  "macro_value lp64 (limits_h None (predefined_limits lp64 8 16)) (Plain ''INT_MIN'') = Some (- 2147483648) \<and>
   macro_value lp64 (limits_h None (predefined_limits lp64 8 16)) (Plain ''USHRT_MAX'') = Some 65535 \<and>
   macro_value lp64 (limits_h None (predefined_limits lp64 8 16)) (Plain ''CHAR_MIN'') = Some (- 128) \<and>
   macro_value lp64 (limits_h None (predefined_limits lp64 8 16)) (Plain ''ULLONG_MAX'') = Some 18446744073709551615 \<and>
   macro_value ilp16 (limits_h None (predefined_limits ilp16 8 16)) (Plain ''USHRT_MAX'') = None"
  using limits_h_values [OF predefined_limits(1,2) predefined_examples(1)]
    limits_h_values [OF predefined_limits(1,2) predefined_examples(2)]
  by (simp add: lp64_def ilp16_def has_long_long_def version_at_least_def c_defined_def predefined_limits_def)

end
