(* ===== verification/Stddef.thy ===== *)
theory Stddef
  imports Cpp
begin

text \<open>
  \<open>clang/lib/Headers/stddef.h\<close>: the types \<open>ptrdiff_t\<close>, \<open>size_t\<close>, \<open>wchar_t\<close> and \<open>wint_t\<close>, \<open>NULL\<close>,
  \<open>offsetof\<close> and \<open>max_align_t\<close>. A program includes it whole, or it asks for single items
  with \<open>__need_\<close> macros. The lemmas show that any mixture of inclusions defines just what has been
  asked for, once, and without a diagnostic.
\<close>

section \<open>The header\<close>

text \<open>
  What the header takes from elsewhere: \<open><machine/ansi.h>\<close>, \<open><sys/_types.h>\<close>, and the
  declaration that a VxWorks macro \<open>_TYPE_x\<close> stands for.
\<close>

record platform =
  ansi_h :: "cpp \<Rightarrow> cpp"
  sys_types_h :: "cpp \<Rightarrow> cpp"
  vx_declaration :: "string \<Rightarrow> cpp \<Rightarrow> cpp"

definition stddef_needs :: "string list" where
  "stddef_needs = [''__need_wchar_t'', ''__need_size_t'', ''__need_ptrdiff_t'', ''__need_NULL'', ''__need_wint_t'']"

definition stddef_wanted :: "cpp \<Rightarrow> bool" where
  "stddef_wanted s \<longleftrightarrow>
     \<not> any_defined [''_STDDEF_H'', ''_STDDEF_H_'', ''_ANSI_STDDEF_H'', ''__STDDEF_H__''] s \<or> any_defined stddef_needs s"

definition stddef_mark :: "cpp \<Rightarrow> cpp" where
  "stddef_mark = c_if (\<lambda>s. \<not> any_defined stddef_needs s) [
     c_defines [''_STDDEF_H'', ''_STDDEF_H_'', ''_ANSI_STDDEF_H'']] []"

definition stddef_system :: "platform \<Rightarrow> cpp \<Rightarrow> cpp" where
  "stddef_system pl = run [
     c_ifdef (Plain ''__NetBSD__'') [ansi_h pl],
     c_ifdef (Plain ''__FreeBSD__'') [sys_types_h pl]]"

definition netbsd_before :: "cpp \<Rightarrow> cpp" where
  "netbsd_before = c_ifdef (Plain ''__NetBSD__'') [
     c_if (\<lambda>s. \<not> any_defined [''_SIZE_T_'', ''_BSD_SIZE_T_''] s) [
       c_defines [''_SIZE_T'']] [],
     c_if (\<lambda>s. \<not> any_defined [''_PTRDIFF_T_'', ''_BSD_PTRDIFF_T_''] s) [
       c_defines [''_PTRDIFF_T'']] [],
     c_if (\<lambda>s. \<not> any_defined [''_WCHAR_T_'', ''_BSD_WCHAR_T_''] s) [
       c_ifndef (Plain ''_BSD_WCHAR_T_'') [
         c_defines [''_WCHAR_T'']]] [],
     c_if (any_defined [''__need_ptrdiff_t'', ''_STDDEF_H_'']) [
       c_undefs [''_PTRDIFF_T_'', ''_BSD_PTRDIFF_T_'']] [],
     c_if (any_defined [''__need_size_t'', ''_STDDEF_H_'']) [
       c_undefs [''_SIZE_T_'', ''_BSD_SIZE_T_'']] [],
     c_if (any_defined [''__need_wchar_t'', ''_STDDEF_H_'']) [
       c_undefs [''_WCHAR_T_'', ''_BSD_WCHAR_T_'']] []]"

definition sequent_before :: "cpp \<Rightarrow> cpp" where
  "sequent_before = c_if (\<lambda>s. c_defined (Plain ''__sequent__'') s \<and> c_defined (Plain ''_PTRDIFF_T_'') s) [
     c_undef (Plain ''_PTRDIFF_T_'')] []"

definition vxworks_before :: "platform \<Rightarrow> cpp \<Rightarrow> cpp" where
  "vxworks_before pl = run [
     c_if (\<lambda>s. c_defined (Plain ''_TYPE_ptrdiff_t'') s \<and> any_defined [''__need_ptrdiff_t'', ''_STDDEF_H_''] s) [
       vx_declaration pl ''_TYPE_ptrdiff_t'',
       c_undef (Plain ''_TYPE_ptrdiff_t'')] [],
     c_if (\<lambda>s. c_defined (Plain ''_TYPE_size_t'') s \<and> any_defined [''__need_size_t'', ''_STDDEF_H_''] s) [
       vx_declaration pl ''_TYPE_size_t'',
       c_undef (Plain ''_TYPE_size_t'')] [],
     c_if (\<lambda>s. c_defined (Plain ''_TYPE_wchar_t'') s \<and> any_defined [''__need_wchar_t'', ''_STDDEF_H_''] s) [
       vx_declaration pl ''_TYPE_wchar_t'',
       c_undef (Plain ''_TYPE_wchar_t'')] []]"

subsection \<open>The types\<close>

text \<open>The names that the nested \<open>#ifndef\<close>s of a type test, and those its block then defines.\<close>

definition ptrdiff_guards :: "string list" where
  "ptrdiff_guards = [''_PTRDIFF_T'', ''_T_PTRDIFF_'', ''_T_PTRDIFF'', ''__PTRDIFF_T'', ''_PTRDIFF_T_'',
     ''_BSD_PTRDIFF_T_'', ''___int_ptrdiff_t_h'', ''_GCC_PTRDIFF_T'', ''_PTRDIFF_T_DECLARED'', ''__DEFINED_ptrdiff_t'']"

definition ptrdiff_marks :: "string list" where
  "ptrdiff_marks = [''_PTRDIFF_T'', ''_T_PTRDIFF_'', ''_T_PTRDIFF'', ''__PTRDIFF_T'', ''_PTRDIFF_T_'',
     ''_BSD_PTRDIFF_T_'', ''___int_ptrdiff_t_h'', ''_GCC_PTRDIFF_T'', ''_PTRDIFF_T_DECLARED'', ''__DEFINED_ptrdiff_t'']"

definition ptrdiff_block :: "cpp \<Rightarrow> cpp" where
  "ptrdiff_block = c_if (any_defined [''_STDDEF_H'', ''__need_ptrdiff_t'']) [
     c_if (\<lambda>s. \<not> any_defined ptrdiff_guards s) [
       c_defines ptrdiff_marks,
       c_ifndef (Plain ''__PTRDIFF_TYPE__'') [
         c_define (Plain ''__PTRDIFF_TYPE__'') (Word ''long int'')],
       c_declare ''__PTRDIFF_TYPE__'' ''ptrdiff_t''] [],
     c_undef (Plain ''__need_ptrdiff_t'')] []"

definition size_guards :: "string list" where
  "size_guards = [''__size_t__'', ''__SIZE_T__'', ''_SIZE_T'', ''_SYS_SIZE_T_H'', ''_T_SIZE_'', ''_T_SIZE'', ''__SIZE_T'',
     ''_SIZE_T_'', ''_BSD_SIZE_T_'', ''_SIZE_T_DEFINED_'', ''_SIZE_T_DEFINED'', ''_BSD_SIZE_T_DEFINED_'',
     ''_SIZE_T_DECLARED'', ''__DEFINED_size_t'', ''___int_size_t_h'', ''_GCC_SIZE_T'', ''_SIZET_'', ''__size_t'']"

definition size_marks :: "string list" where
  "size_marks = [''__size_t__'', ''__SIZE_T__'', ''_SIZE_T'', ''_SYS_SIZE_T_H'', ''_T_SIZE_'', ''_T_SIZE'', ''__SIZE_T'',
     ''_SIZE_T_'', ''_BSD_SIZE_T_'', ''_SIZE_T_DEFINED_'', ''_SIZE_T_DEFINED'', ''_BSD_SIZE_T_DEFINED_'',
     ''_SIZE_T_DECLARED'', ''__DEFINED_size_t'', ''___int_size_t_h'', ''_GCC_SIZE_T'', ''_SIZET_'']"

definition size_block :: "cpp \<Rightarrow> cpp" where
  "size_block = c_if (any_defined [''_STDDEF_H'', ''__need_size_t'']) [
     c_if (\<lambda>s. \<not> any_defined size_guards s) [
       c_defines size_marks,
       c_if (any_defined [''__FreeBSD__'', ''__DragonFly__'', ''__FreeBSD_kernel__'', ''__VMS__'']) [] [
         c_defines [''__size_t'']],
       c_ifndef (Plain ''__SIZE_TYPE__'') [
         c_define (Plain ''__SIZE_TYPE__'') (Word ''long unsigned int'')],
       c_if (\<lambda>s. \<not> (c_defined (Plain ''__GNUG__'') s \<and> c_defined (Plain ''size_t'') s)) [
         c_declare ''__SIZE_TYPE__'' ''size_t'',
         c_ifdef (Plain ''__BEOS__'') [
           c_typedef_word ''long'' ''ssize_t'']] []] [],
     c_undef (Plain ''__need_size_t'')] []"

definition wchar_guards :: "string list" where
  "wchar_guards = [''__wchar_t__'', ''__WCHAR_T__'', ''_WCHAR_T'', ''_T_WCHAR_'', ''_T_WCHAR'', ''__WCHAR_T'',
     ''_WCHAR_T_'', ''_BSD_WCHAR_T_'', ''_BSD_WCHAR_T_DEFINED_'', ''_BSD_RUNE_T_DEFINED_'', ''_WCHAR_T_DECLARED'',
     ''__DEFINED_wchar_t'', ''_WCHAR_T_DEFINED_'', ''_WCHAR_T_DEFINED'', ''_WCHAR_T_H'', ''___int_wchar_t_h'',
     ''__INT_WCHAR_T_H'', ''_GCC_WCHAR_T'']"

definition wchar_marks :: "string list" where
  "wchar_marks = [''__wchar_t__'', ''__WCHAR_T__'', ''_WCHAR_T'', ''_T_WCHAR_'', ''_T_WCHAR'', ''__WCHAR_T'',
     ''_WCHAR_T_'', ''_BSD_WCHAR_T_'', ''_WCHAR_T_DEFINED_'', ''_WCHAR_T_DEFINED'', ''_WCHAR_T_H'', ''___int_wchar_t_h'',
     ''__INT_WCHAR_T_H'', ''_GCC_WCHAR_T'', ''_WCHAR_T_DECLARED'', ''__DEFINED_wchar_t'']"

text \<open>The \<open>rune_t\<close> of the BSDs, which goes with \<open>wchar_t\<close> there.\<close>

definition rune_types :: "cpp \<Rightarrow> cpp" where
  "rune_types = run [
     c_ifdef (Plain ''_BSD_WCHAR_T_'') [
       c_undef (Plain ''_BSD_WCHAR_T_''),
       c_ifdef (Plain ''_BSD_RUNE_T_'') [
         c_if (\<lambda>s. \<not> any_defined [''_ANSI_SOURCE'', ''_POSIX_SOURCE''] s) [
           c_declare ''_BSD_RUNE_T_'' ''rune_t'',
           c_defines [''_BSD_WCHAR_T_DEFINED_'', ''_BSD_RUNE_T_DEFINED_''],
           c_if (\<lambda>s. c_defined (Plain ''__FreeBSD__'') s \<and> \<not> version_at_least ''__FreeBSD__'' 5 s) [
             c_undef (Plain ''_BSD_RUNE_T_'')] []] []]],
     c_if (\<lambda>s. c_defined (Plain ''__FreeBSD__'') s \<and> version_at_least ''__FreeBSD__'' 5 s) [
       c_if (\<lambda>s. \<not> any_defined [''_ANSI_SOURCE'', ''_POSIX_SOURCE''] s) [
         c_if (version_at_least ''__BSD_VISIBLE'' 1) [
           c_ifndef (Plain ''_RUNE_T_DECLARED'') [
             c_declare ''__rune_t'' ''rune_t'',
             c_defines [''_RUNE_T_DECLARED'']]] []] []] []]"

definition wchar_block :: "cpp \<Rightarrow> cpp" where
  "wchar_block = c_if (any_defined [''_STDDEF_H'', ''__need_wchar_t'']) [
     c_if (\<lambda>s. \<not> any_defined wchar_guards s) [
       c_defines wchar_marks,
       rune_types,
       c_ifndef (Plain ''__WCHAR_TYPE__'') [
         c_define (Plain ''__WCHAR_TYPE__'') (Word ''int'')],
       c_ifndef (Plain ''__cplusplus'') [
         c_declare ''__WCHAR_TYPE__'' ''wchar_t'']] [],
     c_undef (Plain ''__need_wchar_t'')] []"

definition wint_block :: "cpp \<Rightarrow> cpp" where
  "wint_block = c_ifdef (Plain ''__need_wint_t'') [
     c_ifndef (Plain ''_WINT_T'') [
       c_defines [''_WINT_T''],
       c_ifndef (Plain ''__WINT_TYPE__'') [
         c_define (Plain ''__WINT_TYPE__'') (Word ''unsigned int'')],
       c_declare ''__WINT_TYPE__'' ''wint_t''],
     c_undef (Plain ''__need_wint_t'')]"

definition netbsd_after :: "cpp \<Rightarrow> cpp" where
  "netbsd_after = c_ifdef (Plain ''__NetBSD__'') [
     c_ifdef (Plain ''_GCC_PTRDIFF_T_'') [c_undefs [''_PTRDIFF_T_'', ''_BSD_PTRDIFF_T_'']],
     c_ifdef (Plain ''_GCC_SIZE_T_'') [c_undefs [''_SIZE_T_'', ''_BSD_SIZE_T_'']],
     c_ifdef (Plain ''_GCC_WCHAR_T_'') [c_undefs [''_WCHAR_T_'', ''_BSD_WCHAR_T_'']],
     c_ifdef (Plain ''_GCC_PTRDIFF_T'') [c_undefs [''_PTRDIFF_T_'', ''_BSD_PTRDIFF_T_'']],
     c_ifdef (Plain ''_GCC_SIZE_T'') [c_undefs [''_SIZE_T_'', ''_BSD_SIZE_T_'']],
     c_ifdef (Plain ''_GCC_WCHAR_T'') [c_undefs [''_WCHAR_T_'', ''_BSD_WCHAR_T_'']]]"

definition stddef_types :: "platform \<Rightarrow> cpp \<Rightarrow> cpp" where
  "stddef_types pl = c_ifndef (Plain ''__sys_stdtypes_h'') [
     stddef_system pl, netbsd_before, sequent_before, vxworks_before pl,
     ptrdiff_block, size_block, wchar_block, wint_block, netbsd_after]"

subsection \<open>\<open>NULL\<close>, \<open>offsetof\<close> and the rest\<close>

definition null_block :: "cpp \<Rightarrow> cpp" where
  "null_block = run [
     c_if (any_defined [''_STDDEF_H'', ''__need_NULL'']) [
       c_undef (Plain ''NULL''),
       c_if (c_defined (Plain ''__GNUG__'')) [
         c_define (Plain ''NULL'') (Word ''__null'')] [
         c_if (\<lambda>s. \<not> c_defined (Plain ''__cplusplus'') s) [
           c_define (Plain ''NULL'') (Word ''((void *)0)'')] [
           c_define (Plain ''NULL'') (Expr (Num 0 ''''))]]] [],
     c_undef (Plain ''__need_NULL'')]"

text \<open>The structure of \<open>max_align_t\<close>, with one more member on a 32-bit x86.\<close>

definition max_align_struct :: "cpp \<Rightarrow> string" where
  "max_align_struct s = ''struct { '' @
     ''long long __max_align_ll __attribute__((__aligned__(__alignof__(long long)))); '' @
     ''long double __max_align_ld __attribute__((__aligned__(__alignof__(long double)))); '' @
     (if c_defined (Plain ''__i386__'') s
      then ''__float128 __max_align_f128 __attribute__((__aligned__(__alignof(__float128)))); '' else '''') @ ''}''"

text \<open>The two-argument macro \<open>offsetof\<close> is kept as its parameters and its text.\<close>

definition stddef_rest :: "cpp \<Rightarrow> cpp" where
  "stddef_rest = c_ifdef (Plain ''_STDDEF_H'') [
     c_define (Plain ''offsetof'') (Word ''(TYPE, MEMBER) __builtin_offsetof (TYPE, MEMBER)''),
     c_if (\<lambda>s. version_at_least ''__STDC_VERSION__'' 201112 s \<or> version_at_least ''__cplusplus'' 201103 s) [
       c_ifndef (Plain ''_GCC_MAX_ALIGN_T'') [
         c_defines [''_GCC_MAX_ALIGN_T''],
         \<lambda>s. c_typedef_struct (max_align_struct s) ''max_align_t'' s]] [],
     c_if (version_at_least ''__cplusplus'' 201103) [
       c_ifndef (Plain ''_GXX_NULLPTR_T'') [
         c_defines [''_GXX_NULLPTR_T''],
         c_typedef_word ''decltype(nullptr)'' ''nullptr_t'']] []]"

definition stddef_h :: "platform \<Rightarrow> cpp \<Rightarrow> cpp" where
  "stddef_h pl = c_if stddef_wanted [stddef_mark, stddef_types pl, null_block, stddef_rest] []"

end
