(* ===== verification/StddefCorrect.thy ===== *)
theory StddefCorrect
  imports Stddef
begin

text \<open>
  \<open>stddef.h\<close> against its specification: the state of each item it provides, a lemma per block of the
  header, and the inclusions one after another.
\<close>

section \<open>What the header provides\<close>

text \<open>The items a program can ask for, and the macro that asks for each.\<close>

datatype item = Ptrdiff | Size | Wchar | Wint | Null

fun need_name :: "item \<Rightarrow> string" where
  "need_name Ptrdiff = ''__need_ptrdiff_t''" | "need_name Size = ''__need_size_t''"
| "need_name Wchar = ''__need_wchar_t''" | "need_name Wint = ''__need_wint_t''" | "need_name Null = ''__need_NULL''"

fun item_name :: "item \<Rightarrow> string" where
  "item_name Ptrdiff = ''ptrdiff_t''" | "item_name Size = ''size_t''" | "item_name Wchar = ''wchar_t''"
| "item_name Wint = ''wint_t''" | "item_name Null = ''NULL''"

fun type_macro :: "item \<Rightarrow> string" where
  "type_macro Ptrdiff = ''__PTRDIFF_TYPE__''" | "type_macro Size = ''__SIZE_TYPE__''"
| "type_macro Wchar = ''__WCHAR_TYPE__''" | "type_macro Wint = ''__WINT_TYPE__''" | "type_macro Null = ''NULL''"

fun default_type :: "item \<Rightarrow> string" where
  "default_type Ptrdiff = ''long int''" | "default_type Size = ''long unsigned int''"
| "default_type Wchar = ''int''" | "default_type Wint = ''unsigned int''" | "default_type Null = ''''"

text \<open>The names an item uses: the marks that its definition leaves, and those that stay undefined.\<close>

fun item_marks :: "item \<Rightarrow> string list" where
  "item_marks Ptrdiff = ptrdiff_marks" | "item_marks Size = ''__size_t'' # size_marks"
| "item_marks Wchar = filter (\<lambda>x. x \<noteq> ''_BSD_WCHAR_T_'') wchar_marks" | "item_marks Wint = [''_WINT_T'']"
| "item_marks Null = []"

fun item_bare :: "item \<Rightarrow> string list" where
  "item_bare Wchar = [''_BSD_WCHAR_T_'', ''_BSD_WCHAR_T_DEFINED_'', ''_BSD_RUNE_T_DEFINED_'', ''_BSD_RUNE_T_'', ''_RUNE_T_DECLARED'', ''rune_t'']"
| "item_bare Size = [''ssize_t'']"
| "item_bare _ = []"

definition item_names :: "item \<Rightarrow> string list" where
  "item_names i = need_name i # item_name i # type_macro i # item_marks i @ item_bare i"

text \<open>
  A freestanding translation unit, whose compiler has predefined the macros of \<open>L\<close>: none of the
  systems that the header makes allowances for.
\<close>

definition system_names :: "string list" where
  "system_names = [''__STDDEF_H__'', ''__sys_stdtypes_h'', ''__NetBSD__'', ''__FreeBSD__'', ''__DragonFly__'',
     ''__FreeBSD_kernel__'', ''__VMS__'', ''__sequent__'', ''_TYPE_ptrdiff_t'', ''_TYPE_size_t'', ''_TYPE_wchar_t'',
     ''__BEOS__'']"

definition language_names :: "string list" where
  "language_names = [''__cplusplus'', ''__GNUG__'', ''__STDC_VERSION__'', ''__i386__'']"

definition plain_system :: "cpp \<Rightarrow> cpp \<Rightarrow> bool" where
  "plain_system L s \<longleftrightarrow> (\<forall>x \<in> set language_names. macros s (Plain x) = macros L (Plain x)) \<and>
     (\<forall>x \<in> set system_names. macros s (Plain x) = None)"

text \<open>The type of an item is the compiler's, or else the header's default; \<open>wchar_t\<close> is a keyword of C++.\<close>

definition type_text :: "cpp \<Rightarrow> item \<Rightarrow> string" where
  "type_text L i = (case macros L (Plain (type_macro i)) of Some (Word w) \<Rightarrow> w | _ \<Rightarrow> default_type i)"

definition item_type :: "cpp \<Rightarrow> item \<Rightarrow> string option" where
  "item_type L i = (if i = Wchar \<and> c_defined (Plain ''__cplusplus'') L then None else Some (type_text L i))"

definition names_types :: "cpp \<Rightarrow> bool" where
  "names_types L \<longleftrightarrow> (\<forall>i. i \<noteq> Null \<longrightarrow>
     (case macros L (Plain (type_macro i)) of None \<Rightarrow> True | Some (Word w) \<Rightarrow> True | _ \<Rightarrow> False))"

text \<open>\<open>item_state L i b n s\<close>: the item \<open>i\<close> has been defined iff \<open>b\<close>, and is being asked for iff \<open>n\<close>.\<close>

definition item_state :: "cpp \<Rightarrow> item \<Rightarrow> bool \<Rightarrow> bool \<Rightarrow> cpp \<Rightarrow> bool" where
  "item_state L i b n s \<longleftrightarrow>
     (\<forall>x \<in> set (item_marks i). macros s (Plain x) = (if b then Some (Word '''') else None)) \<and>
     (\<forall>x \<in> set (item_bare i). macros s (Plain x) = None) \<and>
     macros s (Plain (need_name i)) = (if n then Some (Word '''') else None) \<and>
     (i \<noteq> Null \<longrightarrow> macros s (Plain (item_name i)) = None \<and>
       types s (Plain (item_name i)) = (if b then item_type L i else None) \<and>
       (\<not> b \<longrightarrow> macros s (Plain (type_macro i)) = macros L (Plain (type_macro i))))"

lemma item_state_keeps:
  assumes "item_state L i b n s" "keeps P d" "\<And>x. x \<in> set (item_names i) \<Longrightarrow> P (Plain x)"
  shows "item_state L i b n (d s)"
proof -
  have "macros (d s) (Plain x) = macros s (Plain x) \<and> types (d s) (Plain x) = types s (Plain x)" if "x \<in> set (item_names i)" for x
    by (rule keepsD [OF assms(2,3)]) (rule that)
  with assms(1) show ?thesis by (simp add: item_state_def item_names_def)
qed

lemma keeps_blocks:
  "keeps (apart (item_names Ptrdiff)) ptrdiff_block" "keeps (apart (item_names Size)) size_block"
  "keeps (apart (item_names Wchar)) wchar_block" "keeps (apart (item_names Wint)) wint_block"
  "keeps (apart (item_names Null)) null_block"
  by (simp_all add: ptrdiff_block_def size_block_def wchar_block_def wint_block_def null_block_def rune_types_def
      item_names_def keeps_run ptrdiff_marks_def size_marks_def wchar_marks_def)

lemma type_macro_expands:
  assumes "names_types L" "i \<noteq> Null"
  shows "(macros L (Plain (type_macro i)) = None \<and> type_text L i = default_type i) \<or>
    macros L (Plain (type_macro i)) = Some (Word (type_text L i))"
  using assms by (fastforce simp: names_types_def type_text_def split: option.splits body.splits)

lemma item_stateD:
  assumes "item_state L i b n s"
  shows "x \<in> set (item_marks i) \<Longrightarrow> macros s (Plain x) = (if b then Some (Word '''') else None)"
    "x \<in> set (item_bare i) \<Longrightarrow> macros s (Plain x) = None"
  using assms by (simp_all add: item_state_def)

text \<open>The guards of a type are its marks and some names that stay undefined.\<close>

lemma guarded:
  assumes "item_state L i b n s" "set xs \<subseteq> set (item_marks i) \<union> set (item_bare i)" "hd xs \<in> set (item_marks i)" "xs \<noteq> []"
  shows "any_defined xs s = b"
proof (cases b)
  case True
  with item_stateD(1) [OF assms(1,3)] assms(4) show ?thesis
    by (cases xs) (simp_all add: any_defined_def c_defined_def)
next
  case False
  with item_stateD [OF assms(1)] assms(2) have "\<not> any_defined xs s" by (auto simp: any_defined_none)
  with False show ?thesis by simp
qed

text \<open>The common part of the blocks: the marks are set, then the type is declared and the request dropped.\<close>

lemma item_distinct:
  "i \<noteq> Null \<Longrightarrow> need_name i \<noteq> item_name i \<and> need_name i \<noteq> type_macro i \<and> item_name i \<noteq> type_macro i \<and>
     {need_name i, item_name i, type_macro i} \<inter> (set (item_marks i) \<union> set (item_bare i)) = {}"
  by (cases i) (simp_all add: ptrdiff_marks_def size_marks_def wchar_marks_def)

definition declare_item :: "item \<Rightarrow> cpp \<Rightarrow> cpp" where
  "declare_item i = run [
     c_ifndef (Plain (type_macro i)) [c_define (Plain (type_macro i)) (Word (default_type i))],
     c_if (\<lambda>s. \<not> (i = Wchar \<and> c_defined (Plain ''__cplusplus'') s)) [c_declare (type_macro i) (item_name i)] [],
     c_undef (Plain (need_name i))]"

lemma declare_item_state:
  assumes "names_types L" "plain_system L s" "i \<noteq> Null" "item_state L i False n s"
    and s1: "clean s1" "types s1 = types s" "\<And>x. x \<notin> set (item_marks i) \<union> set (item_bare i) \<Longrightarrow> macros s1 (Plain x) = macros s (Plain x)"
    and m: "\<And>x. x \<in> set (item_marks i) \<Longrightarrow> macros s1 (Plain x) = Some (Word '''')"
      "\<And>x. x \<in> set (item_bare i) \<Longrightarrow> macros s1 (Plain x) = None"
  shows "clean (declare_item i s1) \<and> item_state L i True False (declare_item i s1)"
proof -
  note f = assms(4) [unfolded item_state_def]
  note d = item_distinct [OF assms(3)]
  have "''__cplusplus'' \<notin> set (item_marks i) \<union> set (item_bare i)"
    by (cases i) (simp_all add: ptrdiff_marks_def size_marks_def wchar_marks_def)
  then have cpp: "macros s1 (Plain ''__cplusplus'') = macros L (Plain ''__cplusplus'')"
    using assms(2) s1(3) by (simp add: plain_system_def language_names_def)
  have ty: "type_macro i \<noteq> ''__cplusplus''" by (cases i) simp_all
  have same: "macros s1 (Plain (type_macro i)) = macros L (Plain (type_macro i))"
    "macros s1 (Plain (item_name i)) = None" "types s1 (Plain (item_name i)) = None"
    using d s1(2,3) f assms(3) by auto
  define b where "b \<longleftrightarrow> i = Wchar \<and> c_defined (Plain ''__cplusplus'') L"
  define s2 where "s2 = c_ifndef (Plain (type_macro i)) [c_define (Plain (type_macro i)) (Word (default_type i))] s1"
  have s2: "clean s2" "types s2 = types s1" "macros s2 (Plain (type_macro i)) = Some (Word (type_text L i))"
    "\<And>x. x \<noteq> type_macro i \<Longrightarrow> macros s2 (Plain x) = macros s1 (Plain x)"
    using s1(1) type_macro_expands [OF assms(1,3)] by (auto simp: s2_def c_if_def c_defined_def same(1))
  have ne: "\<And>x. x \<in> set (item_marks i) \<union> set (item_bare i) \<Longrightarrow> x \<noteq> type_macro i" using d by blast
  have "declare_item i s1 = c_undef (Plain (need_name i))
      (c_if (\<lambda>s. \<not> (i = Wchar \<and> c_defined (Plain ''__cplusplus'') s)) [c_declare (type_macro i) (item_name i)] [] s2)"
    by (simp add: declare_item_def s2_def)
  moreover have "c_defined (Plain ''__cplusplus'') s2 = c_defined (Plain ''__cplusplus'') L"
    using s2(4) [OF ty [symmetric]] cpp by (simp add: c_defined_def)
  ultimately have "declare_item i s1 = c_undef (Plain (need_name i)) (if b then s2 else c_declare (type_macro i) (item_name i) s2)"
    by (simp add: c_if_def b_def)
  moreover have "macros s2 (Plain (item_name i)) = None" using d s2(4) same by simp
  moreover have "\<And>x. x \<in> set (item_marks i) \<Longrightarrow> macros s2 (Plain x) = Some (Word '''')"
    "\<And>x. x \<in> set (item_bare i) \<Longrightarrow> macros s2 (Plain x) = None"
    using s2(4) [OF ne] m by simp_all
  moreover have "\<And>x. x \<in> set (item_marks i) \<union> set (item_bare i) \<Longrightarrow> x \<noteq> need_name i" using d by blast
  ultimately show ?thesis
    using s2 same d by (auto simp: item_state_def item_type_def b_def expand_word s1(2))
qed

lemma needed:
  assumes "item_state L i b n s"
  shows "c_defined (Plain (need_name i)) s = n" "clean s \<Longrightarrow> b \<Longrightarrow> clean (c_undef (Plain (need_name i)) s) \<and>
    item_state L i True False (c_undef (Plain (need_name i)) s)"
proof -
  have "i \<noteq> Null \<Longrightarrow> need_name i \<notin> set (item_marks i) \<union> set (item_bare i)" "item_marks Null = []" "item_bare Null = []"
    using item_distinct [of i] by auto
  then show "c_defined (Plain (need_name i)) s = n"
    "clean s \<Longrightarrow> b \<Longrightarrow> clean (c_undef (Plain (need_name i)) s) \<and> item_state L i True False (c_undef (Plain (need_name i)) s)"
    using assms item_distinct [of i] by (cases "i = Null"; force simp: item_state_def c_defined_def)+
qed

lemma ptrdiff_block_state:
  assumes "names_types L" "plain_system L s" "clean s" "item_state L Ptrdiff b n s"
  shows "clean (ptrdiff_block s) \<and>
    item_state L Ptrdiff (b \<or> n \<or> c_defined (Plain ''_STDDEF_H'') s) False (ptrdiff_block s)"
proof -
  have g: "any_defined ptrdiff_guards s = b"
    by (rule guarded [OF assms(4)]) (simp_all add: ptrdiff_guards_def ptrdiff_marks_def)
  note n = needed [OF assms(4), simplified]
  have "clean (declare_item Ptrdiff (c_defines ptrdiff_marks s)) \<and> item_state L Ptrdiff True False (declare_item Ptrdiff (c_defines ptrdiff_marks s))"
    if "\<not> b"
    by (rule declare_item_state [of _ s _ n])
      (use assms that item_stateD [OF assms(4)] in \<open>simp_all add: image_iff\<close>)
  then show ?thesis
    using n assms by (cases b) (auto simp: ptrdiff_block_def c_if_def g declare_item_def)
qed

lemma size_block_state:
  assumes "names_types L" "plain_system L s" "clean s" "item_state L Size b n s"
  shows "clean (size_block s) \<and>
    item_state L Size (b \<or> n \<or> c_defined (Plain ''_STDDEF_H'') s) False (size_block s)"
proof -
  have g: "any_defined size_guards s = b"
    by (rule guarded [OF assms(4)]) (simp_all add: size_guards_def size_marks_def)
  note n = needed [OF assms(4), simplified]
  define s1 where "s1 = c_defines [''__size_t''] (c_defines size_marks s)"
  have "clean (declare_item Size s1) \<and> item_state L Size True False (declare_item Size s1)" if "\<not> b"
    by (rule declare_item_state [of _ s _ n])
      (use assms that item_stateD [OF assms(4)] in \<open>auto simp: s1_def image_iff size_marks_def\<close>)
  moreover have "size_block s = declare_item Size s1" if "\<not> b" "n \<or> c_defined (Plain ''_STDDEF_H'') s"
  proof -
    have "\<not> c_defined (Plain ''__FreeBSD__'') s \<and> \<not> c_defined (Plain ''__DragonFly__'') s \<and>
        \<not> c_defined (Plain ''__FreeBSD_kernel__'') s \<and> \<not> c_defined (Plain ''__VMS__'') s \<and>
        \<not> c_defined (Plain ''__BEOS__'') s \<and> \<not> c_defined (Plain ''size_t'') s"
      using assms(2,4) by (simp add: plain_system_def system_names_def c_defined_def item_state_def)
    note none = this [simplified]
    define s2 where "s2 = c_ifndef (Plain ''__SIZE_TYPE__'') [c_define (Plain ''__SIZE_TYPE__'') (Word ''long unsigned int'')] s1"
    have off: "c_if (any_defined [''__FreeBSD__'', ''__DragonFly__'', ''__FreeBSD_kernel__'', ''__VMS__'']) []
        [c_defines [''__size_t'']] (c_defines size_marks s) = s1"
      by (simp add: c_if_def s1_def c_defined_after none size_marks_def)
    have s2: "\<not> c_defined (Plain ''size_t'') s2" "\<not> c_defined (Plain ''__BEOS__'') s2"
      by (simp_all add: s2_def c_if_def s1_def c_defined_after none size_marks_def)
    have "size_block s = c_undef (Plain ''__need_size_t'') (c_declare ''__SIZE_TYPE__'' ''size_t'' s2)"
    proof -
      have "any_defined [''_STDDEF_H'', ''__need_size_t''] s" using that n(1) by auto
      then have "size_block s = c_undef (Plain ''__need_size_t'') (run [
         c_if (\<lambda>s. \<not> (c_defined (Plain ''__GNUG__'') s \<and> c_defined (Plain ''size_t'') s)) [
           c_declare ''__SIZE_TYPE__'' ''size_t'', c_ifdef (Plain ''__BEOS__'') [c_typedef_word ''long'' ''ssize_t'']] []] s2)"
        using that(1) by (simp only: size_block_def c_if_true g run.simps off s2_def [symmetric] not_False_eq_True)
      then show ?thesis by (simp add: c_if_def s2 c_defined_after)
    qed
    then show ?thesis by (simp add: declare_item_def s2_def c_if_true)
  qed
  moreover have "size_block s = (if n \<or> c_defined (Plain ''_STDDEF_H'') s then c_undef (Plain ''__need_size_t'') s else s)" if b
    using that n(1) by (auto simp: size_block_def c_if_def g)
  moreover have "size_block s = s" if "\<not> n" "\<not> c_defined (Plain ''_STDDEF_H'') s"
    using that n(1) by (simp add: size_block_def c_if_def)
  ultimately show ?thesis
    using n(2) assms(3,4) by (cases "b \<or> n \<or> c_defined (Plain ''_STDDEF_H'') s"; cases b) auto
qed

lemma wchar_block_state:
  assumes "names_types L" "plain_system L s" "clean s" "item_state L Wchar b n s"
  shows "clean (wchar_block s) \<and>
    item_state L Wchar (b \<or> n \<or> c_defined (Plain ''_STDDEF_H'') s) False (wchar_block s)"
proof -
  have g: "any_defined wchar_guards s = b"
    by (rule guarded [OF assms(4)]) (auto simp: wchar_guards_def wchar_marks_def)
  note n = needed [OF assms(4), simplified]
  define s1 where "s1 = c_undef (Plain ''_BSD_WCHAR_T_'') (c_defines wchar_marks s)"
  have "clean (declare_item Wchar s1) \<and> item_state L Wchar True False (declare_item Wchar s1)" if "\<not> b"
  proof (rule declare_item_state [of _ s _ n])
    have none: "x \<in> set wchar_marks \<union> set (item_bare Wchar) \<Longrightarrow> macros s (Plain x) = None" for x
    proof -
      assume "x \<in> set wchar_marks \<union> set (item_bare Wchar)"
      then have "x \<in> set (item_marks Wchar) \<or> x \<in> set (item_bare Wchar)"
        by (cases "x = ''_BSD_WCHAR_T_''") (simp, simp only: item_marks.simps set_filter mem_Collect_eq Un_iff, elim disjE, simp_all only: simp_thms)
      then show ?thesis using item_stateD [OF assms(4), of x] \<open>\<not> b\<close> by (elim disjE) (simp_all only: if_False)
    qed
    then show "clean s1" using assms(3) by (simp add: s1_def)
    have "x \<in> set (item_bare Wchar) \<Longrightarrow> x \<noteq> ''_BSD_WCHAR_T_'' \<Longrightarrow> x \<notin> set wchar_marks" for x
      by (auto simp: wchar_marks_def)
    then show "x \<in> set (item_bare Wchar) \<Longrightarrow> macros s1 (Plain x) = None" for x
      using none [of x] by (cases "x = ''_BSD_WCHAR_T_''") (simp_all add: s1_def image_iff del: item_bare.simps)
  qed (use assms that in \<open>auto simp: s1_def image_iff\<close>)
  moreover have "wchar_block s = declare_item Wchar s1" if "\<not> b" "n \<or> c_defined (Plain ''_STDDEF_H'') s"
  proof -
    have "\<not> c_defined (Plain ''__FreeBSD__'') s \<and> \<not> c_defined (Plain ''_BSD_RUNE_T_'') s"
      using assms(2,4) by (simp add: plain_system_def system_names_def c_defined_def item_state_def)
    then have "rune_types (c_defines wchar_marks s) = s1"
      by (simp add: rune_types_def c_if_def s1_def c_defined_after wchar_marks_def)
    then show ?thesis
      using that n by (auto simp: wchar_block_def c_if_def g declare_item_def c_defined_after)
  qed
  moreover have "wchar_block s = (if n \<or> c_defined (Plain ''_STDDEF_H'') s then c_undef (Plain ''__need_wchar_t'') s else s)" if b
    using that n(1) by (auto simp: wchar_block_def c_if_def g)
  moreover have "wchar_block s = s" if "\<not> n" "\<not> c_defined (Plain ''_STDDEF_H'') s"
    using that n(1) by (simp add: wchar_block_def c_if_def)
  ultimately show ?thesis
    using n(2) assms(3,4) by (cases "b \<or> n \<or> c_defined (Plain ''_STDDEF_H'') s"; cases b) auto
qed

lemma wint_block_state:
  assumes "names_types L" "plain_system L s" "clean s" "item_state L Wint b n s"
  shows "clean (wint_block s) \<and> item_state L Wint (b \<or> n) False (wint_block s)"
proof -
  have g: "c_defined (Plain ''_WINT_T'') s = b"
    using item_stateD(1) [OF assms(4)] by (simp add: c_defined_def)
  note n = needed [OF assms(4), simplified]
  have "clean (declare_item Wint (c_defines [''_WINT_T''] s)) \<and>
      item_state L Wint True False (declare_item Wint (c_defines [''_WINT_T''] s))" if "\<not> b"
    by (rule declare_item_state [of _ s _ n])
      (use assms that item_stateD [OF assms(4)] in \<open>auto simp: image_iff\<close>)
  then show ?thesis
    using n assms by (cases b) (auto simp: wint_block_def c_if_def g declare_item_def)
qed

text \<open>\<open>NULL\<close> is defined anew each time; the item is in place when it is the constant of the language.\<close>

definition null_body :: "cpp \<Rightarrow> body" where
  "null_body L = (if c_defined (Plain ''__GNUG__'') L then Word ''__null''
     else if c_defined (Plain ''__cplusplus'') L then Expr (Num 0 '''') else Word ''((void *)0)'')"

lemma null_block_state:
  assumes "plain_system L s" "clean s" "item_state L Null b n s" "b \<longrightarrow> macros s (Plain ''NULL'') = Some (null_body L)"
  defines "b' \<equiv> b \<or> n \<or> c_defined (Plain ''_STDDEF_H'') s"
  shows "clean (null_block s) \<and> item_state L Null b' False (null_block s) \<and>
    (b' \<longrightarrow> macros (null_block s) (Plain ''NULL'') = Some (null_body L))"
proof -
  have "c_defined (Plain ''__GNUG__'') s = c_defined (Plain ''__GNUG__'') L"
    "c_defined (Plain ''__cplusplus'') s = c_defined (Plain ''__cplusplus'') L"
    using assms(1) by (simp_all add: plain_system_def language_names_def c_defined_def)
  with assms(2-4) needed(1) [OF assms(3)] show ?thesis
    by (auto simp: null_block_def c_if_def c_defined_after null_body_def item_state_def b'_def)
qed

section \<open>The header as a whole\<close>

definition whole_marks :: "string list" where
  "whole_marks = [''_STDDEF_H'', ''_STDDEF_H_'', ''_ANSI_STDDEF_H'']"

definition rest_names :: "string list" where
  "rest_names = [''offsetof'', ''_GCC_MAX_ALIGN_T'', ''max_align_t'', ''_GXX_NULLPTR_T'', ''nullptr_t'']"

definition marks_state :: "bool \<Rightarrow> cpp \<Rightarrow> bool" where
  "marks_state w s \<longleftrightarrow> (\<forall>x \<in> set whole_marks. macros s (Plain x) = (if w then Some (Word '''') else None))"

definition cxx11 :: "cpp \<Rightarrow> bool" where
  "cxx11 = version_at_least ''__cplusplus'' 201103"

definition c11 :: "cpp \<Rightarrow> bool" where
  "c11 s \<longleftrightarrow> version_at_least ''__STDC_VERSION__'' 201112 s \<or> cxx11 s"

text \<open>What only an inclusion of the whole header defines, in the dialects that have it.\<close>

definition rest_state :: "cpp \<Rightarrow> bool \<Rightarrow> cpp \<Rightarrow> bool" where
  "rest_state L w s \<longleftrightarrow>
     macros s (Plain ''max_align_t'') = None \<and> macros s (Plain ''nullptr_t'') = None \<and>
     macros s (Plain ''offsetof'') =
       (if w then Some (Word ''(TYPE, MEMBER) __builtin_offsetof (TYPE, MEMBER)'') else None) \<and>
     macros s (Plain ''_GCC_MAX_ALIGN_T'') = (if w \<and> c11 L then Some (Word '''') else None) \<and>
     types s (Plain ''max_align_t'') = (if w \<and> c11 L then Some (max_align_struct L) else None) \<and>
     macros s (Plain ''_GXX_NULLPTR_T'') = (if w \<and> cxx11 L then Some (Word '''') else None) \<and>
     types s (Plain ''nullptr_t'') = (if w \<and> cxx11 L then Some ''decltype(nullptr)'' else None)"

lemma plain_system_language:
  assumes "plain_system L s"
  shows "cxx11 s = cxx11 L" "c11 s = c11 L" "max_align_struct s = max_align_struct L"
  using assms by (simp_all add: plain_system_def language_names_def cxx11_def c11_def version_at_least_def
      max_align_struct_def c_defined_def)

lemma stddef_rest_state:
  assumes "plain_system L s" "clean s" "rest_state L w s"
  shows "clean (stddef_rest s) \<and> rest_state L (w \<or> c_defined (Plain ''_STDDEF_H'') s) (stddef_rest s)"
proof (cases "c_defined (Plain ''_STDDEF_H'') s")
  case False
  then show ?thesis using assms by (simp add: stddef_rest_def c_if_def)
next
  case True
  define s1 where "s1 = c_define (Plain ''offsetof'') (Word ''(TYPE, MEMBER) __builtin_offsetof (TYPE, MEMBER)'') s"
  define s2 where "s2 = c_if c11 [c_ifndef (Plain ''_GCC_MAX_ALIGN_T'') [c_defines [''_GCC_MAX_ALIGN_T''],
         \<lambda>s. c_typedef_struct (max_align_struct s) ''max_align_t'' s]] [] s1"
  have c11: "c11 = (\<lambda>s. version_at_least ''__STDC_VERSION__'' 201112 s \<or> version_at_least ''__cplusplus'' 201103 s)"
    by (simp add: fun_eq_iff c11_def cxx11_def)
  have s3: "stddef_rest s = c_if cxx11 [c_ifndef (Plain ''_GXX_NULLPTR_T'') [
         c_defines [''_GXX_NULLPTR_T''], c_typedef_word ''decltype(nullptr)'' ''nullptr_t'']] [] s2"
    using True by (simp only: stddef_rest_def c_if_true run.simps s1_def s2_def cxx11_def c11)
  have ps1: "plain_system L s1" using assms(1)
    by (simp add: plain_system_def s1_def language_names_def system_names_def)
  have struct: "max_align_struct (c_defines [''_GCC_MAX_ALIGN_T''] s1) = max_align_struct L"
    using ps1 by (simp add: plain_system_def language_names_def max_align_struct_def c_defined_def)
  note f = assms(3) [unfolded rest_state_def]
  have 1: "clean s1" "types s1 = types s" "macros s1 (Plain ''offsetof'') = Some (Word ''(TYPE, MEMBER) __builtin_offsetof (TYPE, MEMBER)'')"
    "\<And>x. x \<noteq> ''offsetof'' \<Longrightarrow> macros s1 (Plain x) = macros s (Plain x)"
    using assms(2) f by (simp_all add: s1_def)
  have 2: "clean s2" "macros s2 (Plain ''_GCC_MAX_ALIGN_T'') = (if c11 L then Some (Word '''') else None)"
    "types s2 (Plain ''max_align_t'') = (if c11 L then Some (max_align_struct L) else None)"
    "\<And>x. x \<noteq> ''_GCC_MAX_ALIGN_T'' \<Longrightarrow> macros s2 (Plain x) = macros s1 (Plain x)"
    "\<And>x. x \<noteq> ''max_align_t'' \<Longrightarrow> types s2 (Plain x) = types s1 (Plain x)"
    using 1 f struct plain_system_language [OF ps1]
    by (cases w; cases "c11 L"; simp add: s2_def c_if_def c_defined_def)+
  have "cxx11 s2 = cxx11 L"
    using 2(4) [of "''__cplusplus''"] plain_system_language [OF ps1] by (simp add: cxx11_def version_at_least_def)
  then show ?thesis
    using 1 2 f True by (cases w; cases "cxx11 L") (simp_all add: s3 rest_state_def c_if_def c_defined_def)
qed

definition base_names :: "string list" where
  "base_names = system_names @ language_names @ whole_marks @ rest_names"

lemma distinct_concat_apart:
  "distinct (concat (map f xs)) \<Longrightarrow> i \<in> set xs \<Longrightarrow> j \<in> set xs \<Longrightarrow> i \<noteq> j \<Longrightarrow> set (f i) \<inter> set (f j) = {}"
proof (induction xs)
  case (Cons x xs)
  show ?case
  proof (cases "i = x \<or> j = x")
    case True
    with Cons.prems show ?thesis by fastforce
  next
    case False
    with Cons show ?thesis by simp
  qed
qed simp

lemma all_names_distinct:
  "distinct (base_names @ concat (map (\<lambda>i. remdups (item_names i)) [Ptrdiff, Size, Wchar, Wint, Null]))"
  by (simp add: base_names_def system_names_def language_names_def whole_marks_def rest_names_def item_names_def
      ptrdiff_marks_def size_marks_def wchar_marks_def)

lemma names_apart:
  "i \<noteq> j \<Longrightarrow> x \<in> set (item_names i) \<Longrightarrow> x \<notin> set (item_names j)"
  "x \<in> set base_names \<Longrightarrow> x \<notin> set (item_names j)"
proof -
  note d = all_names_distinct [unfolded distinct_append]
  have all: "k \<in> set [Ptrdiff, Size, Wchar, Wint, Null]" for k by (cases k) simp_all
  show "i \<noteq> j \<Longrightarrow> x \<in> set (item_names i) \<Longrightarrow> x \<notin> set (item_names j)"
    using distinct_concat_apart [OF d [THEN conjunct2, THEN conjunct1] all all, of i j] by (auto simp only: set_remdups)
  have "set (item_names j) \<subseteq> set (concat (map (\<lambda>i. remdups (item_names i)) [Ptrdiff, Size, Wchar, Wint, Null]))"
    using all [of j] by (auto simp only: set_concat set_map set_remdups)
  then show "x \<in> set base_names \<Longrightarrow> x \<notin> set (item_names j)"
    using d [THEN conjunct2, THEN conjunct2] by blast
qed

text \<open>
  The state within the header: \<open>b\<close> tells which items are defined, \<open>n\<close> which are being asked for,
  \<open>m\<close> whether the file is marked as included whole, \<open>w\<close> whether the last part has been there.
\<close>

definition stddef_state :: "cpp \<Rightarrow> bool \<Rightarrow> bool \<Rightarrow> (item \<Rightarrow> bool) \<Rightarrow> (item \<Rightarrow> bool) \<Rightarrow> cpp \<Rightarrow> bool" where
  "stddef_state L m w b n s \<longleftrightarrow> clean s \<and> plain_system L s \<and> marks_state m s \<and> rest_state L w s \<and>
     (\<forall>i. item_state L i (b i) (n i) s) \<and> (b Null \<longrightarrow> macros s (Plain ''NULL'') = Some (null_body L))"

lemma base_keeps:
  assumes "keeps P d" "\<And>x. x \<in> set base_names \<Longrightarrow> P (Plain x)"
  shows "plain_system L s \<Longrightarrow> plain_system L (d s)" "marks_state m s \<Longrightarrow> marks_state m (d s)"
    "rest_state L w s \<Longrightarrow> rest_state L w (d s)"
proof -
  have k: "macros (d s) (Plain x) = macros s (Plain x) \<and> types (d s) (Plain x) = types s (Plain x)"
    if "x \<in> set (system_names @ language_names @ whole_marks @ rest_names)" for x
    by (rule keepsD [OF assms]) (use that in \<open>simp add: base_names_def\<close>)
  show "plain_system L s \<Longrightarrow> plain_system L (d s)" "marks_state m s \<Longrightarrow> marks_state m (d s)"
    using k by (simp_all add: plain_system_def marks_state_def)
  show "rest_state L w s \<Longrightarrow> rest_state L w (d s)"
    using k by (simp add: rest_state_def rest_names_def)
qed

lemma stddef_state_item:
  assumes "stddef_state L m w b n s" "keeps (apart (item_names i)) d" "clean (d s)" "item_state L i b' n' (d s)"
    "i = Null \<longrightarrow> b' \<longrightarrow> macros (d s) (Plain ''NULL'') = Some (null_body L)"
  shows "stddef_state L m w (b(i := b')) (n(i := n')) (d s)"
proof -
  note f = assms(1) [unfolded stddef_state_def]
  have base: "x \<in> set base_names \<Longrightarrow> apart (item_names i) (Plain x)" for x
    using names_apart(2) by simp
  have "item_state L j (b j) (n j) (d s)" if "j \<noteq> i" for j
    by (rule item_state_keeps [OF _ assms(2)]) (use f that names_apart(1) [of j i] in simp_all)
  moreover have "i \<noteq> Null \<Longrightarrow> macros (d s) (Plain ''NULL'') = macros s (Plain ''NULL'')"
    using keepsD [OF assms(2), of "Plain ''NULL''" s] names_apart(1) [of Null i "''NULL''"] by (simp add: item_names_def)
  ultimately show ?thesis
    using f assms(3-5) base_keeps [OF assms(2) base] by (auto simp: stddef_state_def)
qed

lemma stddef_marked: "stddef_state L m w b n s \<Longrightarrow> c_defined (Plain ''_STDDEF_H'') s = m"
  by (simp add: stddef_state_def marks_state_def whole_marks_def c_defined_def)

text \<open>The five blocks, one after the other.\<close>

lemma stddef_blocks:
  assumes "names_types L" "stddef_state L m w b n s"
  shows "stddef_state L m w (b(Ptrdiff := b Ptrdiff \<or> n Ptrdiff \<or> m)) (n(Ptrdiff := False)) (ptrdiff_block s)"
    "stddef_state L m w (b(Size := b Size \<or> n Size \<or> m)) (n(Size := False)) (size_block s)"
    "stddef_state L m w (b(Wchar := b Wchar \<or> n Wchar \<or> m)) (n(Wchar := False)) (wchar_block s)"
    "stddef_state L m w (b(Wint := b Wint \<or> n Wint)) (n(Wint := False)) (wint_block s)"
    "stddef_state L m w (b(Null := b Null \<or> n Null \<or> m)) (n(Null := False)) (null_block s)"
proof -
  note f = assms(2) [unfolded stddef_state_def]
  note m = stddef_marked [OF assms(2)]
  have s: "plain_system L s" "clean s" "item_state L i (b i) (n i) s" for i using f by blast+
  note state = stddef_state_item [OF assms(2)]
  show "stddef_state L m w (b(Ptrdiff := b Ptrdiff \<or> n Ptrdiff \<or> m)) (n(Ptrdiff := False)) (ptrdiff_block s)"
    by (rule state [OF keeps_blocks(1)]) (use ptrdiff_block_state [OF assms(1) s] m in simp_all)
  show "stddef_state L m w (b(Size := b Size \<or> n Size \<or> m)) (n(Size := False)) (size_block s)"
    by (rule state [OF keeps_blocks(2)]) (use size_block_state [OF assms(1) s] m in simp_all)
  show "stddef_state L m w (b(Wchar := b Wchar \<or> n Wchar \<or> m)) (n(Wchar := False)) (wchar_block s)"
    by (rule state [OF keeps_blocks(3)]) (use wchar_block_state [OF assms(1) s] m in simp_all)
  show "stddef_state L m w (b(Wint := b Wint \<or> n Wint)) (n(Wint := False)) (wint_block s)"
    by (rule state [OF keeps_blocks(4)]) (use wint_block_state [OF assms(1) s] in simp_all)
  show "stddef_state L m w (b(Null := b Null \<or> n Null \<or> m)) (n(Null := False)) (null_block s)"
    by (rule state [OF keeps_blocks(5)])
      (use null_block_state [OF s] f m in simp_all)
qed

text \<open>On such a system the parts for the other systems do nothing.\<close>

lemma plain_system_skips:
  assumes "plain_system L s"
  shows "stddef_system pl s = s" "netbsd_before s = s" "sequent_before s = s" "vxworks_before pl s = s" "netbsd_after s = s"
    "stddef_types pl s = netbsd_after (wint_block (wchar_block (size_block (ptrdiff_block s))))"
proof -
  have no: "\<not> c_defined (Plain ''__NetBSD__'') s" "\<not> c_defined (Plain ''__FreeBSD__'') s" "\<not> c_defined (Plain ''__sequent__'') s"
    "\<not> c_defined (Plain ''_TYPE_ptrdiff_t'') s" "\<not> c_defined (Plain ''_TYPE_size_t'') s" "\<not> c_defined (Plain ''_TYPE_wchar_t'') s"
    "\<not> c_defined (Plain ''__sys_stdtypes_h'') s"
    using assms by (simp_all add: plain_system_def system_names_def c_defined_def)
  show skips: "stddef_system pl s = s" "netbsd_before s = s" "sequent_before s = s" "vxworks_before pl s = s" "netbsd_after s = s"
    by (simp_all add: stddef_system_def netbsd_before_def sequent_before_def vxworks_before_def netbsd_after_def c_if_false no)
  show "stddef_types pl s = netbsd_after (wint_block (wchar_block (size_block (ptrdiff_block s))))"
    by (simp add: stddef_types_def c_if_true no(7) skips(1-4))
qed

lemma stddef_needs:
  assumes "stddef_state L m w b n s"
  shows "any_defined stddef_needs s \<longleftrightarrow> (\<exists>i. n i)" "stddef_wanted s \<longleftrightarrow> \<not> m \<or> (\<exists>i. n i)"
proof -
  have n: "c_defined (Plain (need_name i)) s = n i" for i
    by (rule needed) (use assms in \<open>auto simp: stddef_state_def\<close>)
  have all: "(\<exists>i. n i) \<longleftrightarrow> n Wchar \<or> n Size \<or> n Ptrdiff \<or> n Null \<or> n Wint"
    by (auto, metis item.exhaust)
  show needs: "any_defined stddef_needs s \<longleftrightarrow> (\<exists>i. n i)"
    using n [of Wchar] n [of Size] n [of Ptrdiff] n [of Null] n [of Wint] by (simp add: stddef_needs_def all)
  have "any_defined [''_STDDEF_H'', ''_STDDEF_H_'', ''_ANSI_STDDEF_H'', ''__STDDEF_H__''] s = m"
    using assms by (simp add: stddef_state_def marks_state_def whole_marks_def plain_system_def system_names_def c_defined_def)
  then show "stddef_wanted s \<longleftrightarrow> \<not> m \<or> (\<exists>i. n i)" by (simp add: stddef_wanted_def needs)
qed

lemma item_mark_names: "x \<in> set whole_marks \<Longrightarrow> x \<in> set base_names"
  by (simp add: base_names_def)

lemma stddef_mark_state:
  assumes "stddef_state L w w b n s" "\<not> w \<or> (\<exists>i. n i)"
  shows "stddef_state L (w \<or> (\<forall>i. \<not> n i)) w b n (stddef_mark s)"
proof (cases "\<exists>i. n i")
  case True
  then have "stddef_mark s = s" by (simp add: stddef_mark_def c_if_def stddef_needs(1) [OF assms(1)])
  moreover have "(w \<or> (\<forall>i. \<not> n i)) = w" using True by blast
  ultimately show ?thesis using assms(1) by simp
next
  case False
  have eq: "stddef_mark s = c_defines whole_marks s"
    using False by (simp add: stddef_mark_def c_if_def stddef_needs(1) [OF assms(1)] whole_marks_def)
  have k: "keeps (apart whole_marks) (c_defines whole_marks)" by simp
  have "item_state L i (b i) (n i) (c_defines whole_marks s)" for i
    by (rule item_state_keeps [OF _ k])
      (use assms(1) names_apart(2) [OF item_mark_names] in \<open>auto simp: stddef_state_def\<close>)
  moreover have "x \<notin> set whole_marks" if "x \<in> set (system_names @ language_names @ rest_names)" for x
    using that all_names_distinct by (auto simp: base_names_def)
  moreover have "''NULL'' \<notin> set whole_marks" by (simp add: whole_marks_def)
  ultimately show ?thesis
    using False assms
    by (auto simp: eq stddef_state_def plain_system_def marks_state_def rest_state_def rest_names_def image_iff)
qed

lemma stddef_h_parts:
  assumes "names_types L" "stddef_state L w w b n s" "\<not> w \<or> (\<exists>i. n i)"
  shows "stddef_h pl s = stddef_rest (null_block (wint_block (wchar_block (size_block (ptrdiff_block (stddef_mark s))))))"
proof -
  note mark = stddef_mark_state [OF assms(2,3)]
  note steps = stddef_blocks(4) [OF assms(1) stddef_blocks(3) [OF assms(1) stddef_blocks(2) [OF assms(1) stddef_blocks(1) [OF assms(1) mark]]]]
  have "stddef_types pl (stddef_mark s) = wint_block (wchar_block (size_block (ptrdiff_block (stddef_mark s))))"
    using plain_system_skips(5,6) mark steps unfolding stddef_state_def by metis
  then show ?thesis
    using assms(3) by (simp add: stddef_h_def c_if_true stddef_needs(2) [OF assms(2)])
qed

lemma stddef_h_state:
  assumes "names_types L" "stddef_state L w w b n s" "w \<longrightarrow> (\<forall>i. i \<noteq> Wint \<longrightarrow> b i)"
  defines "w' \<equiv> w \<or> (\<forall>i. \<not> n i)"
  shows "stddef_state L w' w' (\<lambda>i. b i \<or> n i \<or> w' \<and> i \<noteq> Wint) (\<lambda>_. False) (stddef_h pl s)"
proof (cases "\<not> w \<or> (\<exists>i. n i)")
  case False
  then have "stddef_h pl s = s" by (simp add: stddef_h_def c_if_def stddef_needs(2) [OF assms(2)])
  moreover have "(\<lambda>i. b i \<or> n i \<or> w' \<and> i \<noteq> Wint) = b" "n = (\<lambda>_. False)" "w' = w"
    using False assms(3) by (auto simp: w'_def)
  ultimately show ?thesis using assms(2) by simp
next
  case True
  have w': "w' = (w \<or> (\<forall>i. \<not> n i))" by (simp add: w'_def)
  define s1 where "s1 = stddef_mark s"
  define s2 where "s2 = null_block (wint_block (wchar_block (size_block (ptrdiff_block s1))))"
  have 1: "stddef_state L w' w b n s1" using stddef_mark_state [OF assms(2) True] by (simp add: s1_def w')
  note steps = stddef_blocks(4) [OF assms(1) stddef_blocks(3) [OF assms(1) stddef_blocks(2) [OF assms(1) stddef_blocks(1) [OF assms(1) 1]]]]
  have n: "n(Ptrdiff := False, Size := False, Wchar := False, Wint := False, Null := False) = (\<lambda>_. False)"
  proof
    show "(n(Ptrdiff := False, Size := False, Wchar := False, Wint := False, Null := False)) i = False" for i
      by (cases i) simp_all
  qed
  have b: "b(Ptrdiff := b Ptrdiff \<or> n Ptrdiff \<or> w', Size := b Size \<or> n Size \<or> w', Wchar := b Wchar \<or> n Wchar \<or> w',
      Wint := b Wint \<or> n Wint, Null := b Null \<or> n Null \<or> w') = (\<lambda>i. b i \<or> n i \<or> w' \<and> i \<noteq> Wint)"
    (is "?l = ?r")
  proof
    show "?l i = ?r i" for i by (cases i) auto
  qed
  have 2: "stddef_state L w' w (\<lambda>i. b i \<or> n i \<or> w' \<and> i \<noteq> Wint) (\<lambda>_. False) s2"
    using stddef_blocks(5) [OF assms(1) steps] by (simp add: s2_def n b)
  have h: "stddef_h pl s = stddef_rest s2"
    using stddef_h_parts [OF assms(1,2) True] by (simp add: s1_def s2_def)
  have k: "keeps (apart rest_names) stddef_rest"
    by (simp add: stddef_rest_def rest_names_def)
  note f = 2 [unfolded stddef_state_def]
  have rest: "clean (stddef_rest s2) \<and> rest_state L w' (stddef_rest s2)"
    using stddef_rest_state [of L s2 w] f stddef_marked [OF 2] by (simp add: w')
  have "item_state L i (b i \<or> n i \<or> w' \<and> i \<noteq> Wint) False (stddef_rest s2)" for i
    by (rule item_state_keeps [OF _ k])
      (use f names_apart(2) in \<open>auto simp: base_names_def\<close>)
  moreover have "x \<notin> set rest_names" if "x \<in> set (system_names @ language_names @ whole_marks)" for x
    using that all_names_distinct by (auto simp: base_names_def)
  then have "macros (stddef_rest s2) (Plain x) = macros s2 (Plain x)" if "x \<in> set (system_names @ language_names @ whole_marks)" for x
    using that keepsD [OF k, of "Plain x"] by simp
  then have "plain_system L (stddef_rest s2)" "marks_state w' (stddef_rest s2)"
    using f by (simp_all add: plain_system_def marks_state_def)
  moreover have "macros (stddef_rest s2) (Plain ''NULL'') = macros s2 (Plain ''NULL'')"
    using keepsD [OF k, of "Plain ''NULL''"] by (simp add: rest_names_def)
  ultimately show ?thesis using f rest by (simp add: h stddef_state_def)
qed

section \<open>Inclusions\<close>

text \<open>
  A program asks for the items \<open>xs\<close> by defining their macros and including the file; with no
  item it includes the file whole. \<open>provided h i\<close>: the inclusions \<open>h\<close> asked for the item \<open>i\<close>.
\<close>

definition stddef_request :: "platform \<Rightarrow> item list \<Rightarrow> cpp \<Rightarrow> cpp" where
  "stddef_request pl xs = run [c_defines (map need_name xs), stddef_h pl]"

definition provided :: "item list list \<Rightarrow> item \<Rightarrow> bool" where
  "provided h i \<longleftrightarrow> (\<exists>xs \<in> set h. i \<in> set xs) \<or> i \<noteq> Wint \<and> [] \<in> set h"

definition stddef_inv :: "cpp \<Rightarrow> item list list \<Rightarrow> cpp \<Rightarrow> bool" where
  "stddef_inv L h s \<longleftrightarrow> names_types L \<and> stddef_state L ([] \<in> set h) ([] \<in> set h) (provided h) (\<lambda>_. False) s"

text \<open>The start: the names of the header are not in use.\<close>

definition stddef_unused :: "cpp \<Rightarrow> bool" where
  "stddef_unused s \<longleftrightarrow> clean s \<and> names_types s \<and>
     (\<forall>x \<in> set (system_names @ whole_marks @ rest_names). macros s (Plain x) = None \<and> types s (Plain x) = None) \<and>
     (\<forall>i. \<forall>x \<in> set (need_name i # item_marks i @ item_bare i). macros s (Plain x) = None) \<and>
     (\<forall>i. i \<noteq> Null \<longrightarrow> macros s (Plain (item_name i)) = None \<and> types s (Plain (item_name i)) = None)"

lemma stddef_inv_start: "stddef_unused s \<Longrightarrow> stddef_inv s [] s"
  by (auto simp: stddef_inv_def stddef_unused_def stddef_state_def provided_def plain_system_def marks_state_def
      rest_state_def rest_names_def item_state_def)

lemma request_needs:
  assumes "stddef_state L m w b (\<lambda>_. False) s"
  shows "stddef_state L m w b (\<lambda>i. i \<in> set xs) (c_defines (map need_name xs) s)"
proof -
  define P where "P x \<longleftrightarrow> x \<notin> Plain ` range need_name" for x
  have k: "keeps P (c_defines (map need_name xs))" by (auto simp: P_def keeps_def)
  have need: "need_name i \<in> set (item_names i)" for i by (simp add: item_names_def)
  have inj: "need_name i = need_name j \<longleftrightarrow> i = j" for i j
    by (cases i; cases j) simp_all
  have base: "P (Plain x)" if "x \<in> set base_names" for x
    using names_apart(2) [OF that] need by (auto simp: P_def)
  have other: "P (Plain x)" if "x \<in> set (item_names i)" "x \<noteq> need_name i" for x i
    using that names_apart(1) [of i _ x] need by (auto simp: P_def) (metis need)
  note f = assms [unfolded stddef_state_def]
  have "item_state L i (b i) (i \<in> set xs) (c_defines (map need_name xs) s)" for i
  proof -
    have *: "macros (c_defines (map need_name xs) s) (Plain x) = macros s (Plain x)"
      if "x \<in> set (item_marks i) \<union> set (item_bare i) \<union> {item_name i, type_macro i}" for x
    proof -
      have "x \<in> set (item_names i)" using that by (auto simp: item_names_def)
      moreover have "x \<noteq> need_name i" using that item_distinct [of i] by (cases "i = Null") auto
      ultimately show ?thesis using keepsD [OF k other] by blast
    qed
    have "macros (c_defines (map need_name xs) s) (Plain (need_name i)) = (if i \<in> set xs then Some (Word '''') else None)"
      using f by (auto simp: image_iff inj item_state_def)
    with f * show ?thesis by (simp add: item_state_def)
  qed
  moreover have "clean (c_defines (map need_name xs) s)" using f by (simp add: item_state_def)
  moreover have "macros (c_defines (map need_name xs) s) (Plain ''NULL'') = macros s (Plain ''NULL'')"
    using keepsD [OF k other [of "''NULL''" Null]] by (simp add: item_names_def)
  ultimately show ?thesis
    using f base_keeps [OF k base] by (simp add: stddef_state_def)
qed

lemma stddef_request_inv:
  assumes "stddef_inv L h s"
  shows "stddef_inv L (xs # h) (stddef_request pl xs s)"
proof -
  let ?w = "[] \<in> set h"
  have L: "names_types L" and s: "stddef_state L ?w ?w (provided h) (\<lambda>_. False) s"
    using assms by (simp_all add: stddef_inv_def)
  have all: "?w \<longrightarrow> (\<forall>i. i \<noteq> Wint \<longrightarrow> provided h i)" by (simp add: provided_def)
  have w: "(?w \<or> (\<forall>i. i \<notin> set xs)) = ([] \<in> set (xs # h))"
    by (cases "xs") auto
  have p: "(\<lambda>i. provided h i \<or> i \<in> set xs \<or> (?w \<or> (\<forall>i. i \<notin> set xs)) \<and> i \<noteq> Wint) = provided (xs # h)"
    unfolding w by (auto simp: provided_def fun_eq_iff)
  show ?thesis
    using stddef_h_state [OF L request_needs [OF s, of xs] all, of pl, unfolded p, unfolded w] L
    by (simp add: stddef_inv_def stddef_request_def del: list.set)
qed

lemma stddef_requests_inv: "stddef_inv L h s \<Longrightarrow> stddef_inv L (rev rs @ h) (fold (stddef_request pl) rs s)"
proof (induction rs arbitrary: h s)
  case (Cons r rs)
  from Cons.IH [OF stddef_request_inv [OF Cons.prems]] show ?case by simp
qed simp

section \<open>Frames of the header\<close>

text \<open>The names the header may define, and those it only reads.\<close>

definition stddef_names :: "string list" where
  "stddef_names = whole_marks @ rest_names @ concat (map item_names [Ptrdiff, Size, Wchar, Wint, Null])"

definition stddef_own :: "name \<Rightarrow> bool" where
  "stddef_own x \<longleftrightarrow> x \<in> Plain ` set stddef_names"

definition stddef_uses :: "name \<Rightarrow> bool" where
  "stddef_uses x \<longleftrightarrow> x \<in> Plain ` set (stddef_names @ system_names @ language_names)"

lemma item_names_own: "x \<in> set (item_names i) \<Longrightarrow> x \<in> set stddef_names"
  by (cases i) (simp_all add: stddef_names_def)

lemma stddef_request_keeps:
  assumes "stddef_inv L h s" "\<not> stddef_own x"
  shows "macros (stddef_request pl xs s) x = macros s x \<and> types (stddef_request pl xs s) x = types s x"
proof -
  define P where "P y \<longleftrightarrow> \<not> stddef_own y" for y
  let ?w = "[] \<in> set h"
  have L: "names_types L" and s: "stddef_state L ?w ?w (provided h) (\<lambda>_. False) s"
    using assms(1) by (simp_all add: stddef_inv_def)
  define s1 where "s1 = c_defines (map need_name xs) s"
  have need: "need_name i \<in> set (item_names i)" for i by (simp add: item_names_def)
  have s1: "macros s1 x = macros s x \<and> types s1 x = types s x"
    using assms(2) item_names_own [OF need] by (auto simp: s1_def stddef_own_def)
  have k: "keeps (apart ys) d \<Longrightarrow> set ys \<subseteq> set stddef_names \<Longrightarrow> macros (d t) x = macros t x \<and> types (d t) x = types t x" for ys d t
    by (rule keepsD [of "apart ys"]) (use assms(2) in \<open>auto simp: apart_def stddef_own_def\<close>)
  have sub: "set (item_names i) \<subseteq> set stddef_names" for i using item_names_own by blast
  have kk: "keeps (apart rest_names) stddef_rest" "keeps (apart whole_marks) stddef_mark"
    and ss: "set rest_names \<subseteq> set stddef_names" "set whole_marks \<subseteq> set stddef_names"
    by (auto simp: stddef_rest_def stddef_mark_def rest_names_def whole_marks_def stddef_names_def)
  note ends = k [OF kk(1) ss(1)] k [OF kk(2) ss(2)]
  note blocks = keeps_blocks(1) [THEN k, OF sub] keeps_blocks(2) [THEN k, OF sub] keeps_blocks(3) [THEN k, OF sub]
    keeps_blocks(4) [THEN k, OF sub] keeps_blocks(5) [THEN k, OF sub]
  have "macros (stddef_h pl s1) x = macros s1 x \<and> types (stddef_h pl s1) x = types s1 x"
  proof (cases "stddef_wanted s1")
    case True
    note st = request_needs [OF s, of xs, folded s1_def]
    from True have "\<not> ?w \<or> (\<exists>i. i \<in> set xs)" by (simp add: stddef_needs(2) [OF st])
    then show ?thesis using ends blocks by (simp add: stddef_h_parts [OF L st])
  next
    case False
    then show ?thesis by (simp add: stddef_h_def c_if_false)
  qed
  with s1 show ?thesis by (simp add: stddef_request_def s1_def)
qed

lemma stddef_inv_frame:
  assumes "stddef_inv L h s" "clean s'" "\<And>x. stddef_uses x \<Longrightarrow> macros s' x = macros s x \<and> types s' x = types s x"
  shows "stddef_inv L h s'"
proof -
  have same: "macros s' (Plain x) = macros s (Plain x)" "types s' (Plain x) = types s (Plain x)"
    if "x \<in> set stddef_names \<union> set system_names \<union> set language_names" for x
    using assms(3) [of "Plain x"] that by (auto simp: stddef_uses_def)
  have item: "macros s' (Plain x) = macros s (Plain x) \<and> types s' (Plain x) = types s (Plain x)" if "x \<in> set (item_names i)" for x i
    using same [of x] item_names_own [OF that] by blast
  have sub: "set whole_marks \<subseteq> set stddef_names" "set rest_names \<subseteq> set stddef_names" by (auto simp: stddef_names_def)
  have "plain_system L s \<Longrightarrow> plain_system L s'" "marks_state w s \<Longrightarrow> marks_state w s'" for w
    using same(1) sub(1) by (simp_all add: plain_system_def marks_state_def subset_iff)
  moreover have "rest_state L w s \<Longrightarrow> rest_state L w s'" for w
    using same sub(2) by (simp add: rest_state_def rest_names_def)
  moreover have "item_state L i b n s \<Longrightarrow> item_state L i b n s'" for i b n
    using item [of _ i] by (simp add: item_state_def item_names_def)
  moreover have "macros s' (Plain ''NULL'') = macros s (Plain ''NULL'')"
    using item [of "''NULL''" Null] by (simp add: item_names_def)
  ultimately show ?thesis using assms(1,2) by (simp add: stddef_inv_def stddef_state_def)
qed

section \<open>Properties of the header\<close>

text \<open>
  C37: A freestanding program that includes \<open>stddef.h\<close> any number of times, whole or for single items
  by their \<open>__need_\<close> macros, gets no diagnostic, each type exactly when one of the inclusions provides it and
  then the compiler's own type for it, \<open>NULL\<close> as its language spells it, \<open>max_align_t\<close> when the dialect has it
  and the header was included whole; the requests are used up.
\<close>

theorem stddef_requests:
  assumes "stddef_unused s"
  shows "clean (fold (stddef_request pl) h s) \<and>
    (\<forall>i. i \<noteq> Null \<longrightarrow>
       types (fold (stddef_request pl) h s) (Plain (item_name i)) = (if provided h i then item_type s i else None)) \<and>
    (provided h Null \<longrightarrow> macros (fold (stddef_request pl) h s) (Plain ''NULL'') = Some (null_body s)) \<and>
    types (fold (stddef_request pl) h s) (Plain ''max_align_t'') =
      (if [] \<in> set h \<and> c11 s then Some (max_align_struct s) else None) \<and>
    (\<forall>i. \<not> c_defined (Plain (need_name i)) (fold (stddef_request pl) h s))"
proof -
  have "stddef_inv s (rev h) (fold (stddef_request pl) h s)"
    using stddef_requests_inv [OF stddef_inv_start [OF assms]] by simp
  moreover have "provided (rev h) = provided h" by (simp add: provided_def fun_eq_iff)
  ultimately show ?thesis
    by (simp add: stddef_inv_def stddef_state_def item_state_def rest_state_def c_defined_def)
qed

text \<open>A C11 program for x86-64, where nothing else is included.\<close>

definition bare_platform :: platform where
  "bare_platform = \<lparr>ansi_h = id, sys_types_h = id, vx_declaration = (\<lambda>_. id)\<rparr>"

definition stddef_start :: cpp where
  "stddef_start = \<lparr>macros = [Plain ''__STDC_VERSION__'' \<mapsto> Expr (Num 201710 ''L''),
     Plain ''__SIZE_TYPE__'' \<mapsto> Word ''long unsigned int''], types = Map.empty, clean = True\<rparr>"

lemma stddef_start_unused: "stddef_unused stddef_start"
proof -
  have "names_types stddef_start"
    unfolding names_types_def
  proof (intro allI impI)
    show "case macros stddef_start (Plain (type_macro i)) of None \<Rightarrow> True | Some (Word w) \<Rightarrow> True | _ \<Rightarrow> False" for i
      by (cases i) (simp_all add: stddef_start_def)
  qed
  moreover have "\<forall>x \<in> set (need_name i # item_marks i @ item_bare i). macros stddef_start (Plain x) = None" for i
    by (cases i) (simp_all add: ptrdiff_marks_def size_marks_def wchar_marks_def stddef_start_def)
  moreover have "macros stddef_start (Plain (item_name i)) = None" for i
    by (cases i) (simp_all add: stddef_start_def)
  ultimately show ?thesis
    by (simp add: stddef_unused_def system_names_def whole_marks_def rest_names_def) (simp add: stddef_start_def)
qed

theorem stddef_requests_witness:
  "types (fold (stddef_request bare_platform) [[Size], [Wint, Null]] stddef_start) (Plain ''size_t'') = Some ''long unsigned int'' \<and>
   types (fold (stddef_request bare_platform) [[Size], [Wint, Null]] stddef_start) (Plain ''ptrdiff_t'') = None \<and>
   types (fold (stddef_request bare_platform) [[Size], []] stddef_start) (Plain ''max_align_t'') = Some (max_align_struct stddef_start)"
proof -
  note a = stddef_requests [OF stddef_start_unused, of bare_platform "[[Size], [Wint, Null]]"]
  note b = stddef_requests [OF stddef_start_unused, of bare_platform "[[Size], []]"]
  note tys = a [THEN conjunct2, THEN conjunct1, rule_format]
  have "item_type stddef_start Size = Some ''long unsigned int''" "c11 stddef_start"
    by (simp_all add: item_type_def type_text_def c11_def version_at_least_def stddef_start_def)
  then show ?thesis using tys [of Size] tys [of Ptrdiff] b by (simp add: provided_def)
qed

end
