(* ===== verification/Stdarg.thy ===== *)
theory Stdarg
  imports Cpp
begin

text \<open>
  \<open>clang/lib/Headers/stdarg.h\<close>: the type \<open>va_list\<close> and the macros that read an argument list. A
  system header that needs the type without its public name defines \<open>__need___va_list\<close> first and gets
  only \<open>__gnuc_va_list\<close>.
\<close>

section \<open>The header\<close>

text \<open>The function-like macros are kept as their parameters and their text.\<close>

definition va_macros :: "cpp \<Rightarrow> cpp" where
  "va_macros = run [
     c_define (Plain ''va_start'') (Word ''(v,l) __builtin_va_start(v,l)''),
     c_define (Plain ''va_end'') (Word ''(v) __builtin_va_end(v)''),
     c_define (Plain ''va_arg'') (Word ''(v,l) __builtin_va_arg(v,l)''),
     c_if (\<lambda>s. \<not> c_defined (Plain ''__STRICT_ANSI__'') s \<or> version_at_least ''__STDC_VERSION__'' 199900 s \<or>
         version_at_least ''__cplusplus'' 201103 s) [
       c_define (Plain ''va_copy'') (Word ''(d,s) __builtin_va_copy(d,s)'')] [],
     c_define (Plain ''__va_copy'') (Word ''(d,s) __builtin_va_copy(d,s)'')]"

definition va_list_svr4 :: "cpp \<Rightarrow> cpp" where
  "va_list_svr4 = c_ifndef (Plain ''_VA_LIST_'') [
     c_defines [''_VA_LIST_''],
     c_ifdef (Plain ''__i860__'') [
       c_ifndef (Plain ''_VA_LIST'') [
         c_define (Plain ''_VA_LIST'') (Expr (Mac (Plain ''va_list'')))]],
     c_declare ''__gnuc_va_list'' ''va_list'',
     c_ifdef (Plain ''_SCO_DS'') [c_defines [''__VA_LIST'']]]"

definition va_list_other :: "cpp \<Rightarrow> cpp" where
  "va_list_other =
     c_if (\<lambda>s. \<not> c_defined (Plain ''_VA_LIST_'') s \<or> any_defined [''__BSD_NET2__'', ''____386BSD____'', ''__bsdi__'',
         ''__sequent__'', ''__FreeBSD__'', ''WINNT''] s) [
       c_if (\<lambda>s. \<not> any_defined [''_VA_LIST_DEFINED'', ''_VA_LIST'', ''_VA_LIST_T_H'', ''__va_list__''] s) [
         c_declare ''__gnuc_va_list'' ''va_list''] [],
       c_if (\<lambda>s. \<not> any_defined [''__BSD_NET2__'', ''____386BSD____'', ''__bsdi__'', ''__sequent__'', ''__FreeBSD__''] s) [
         c_defines [''_VA_LIST_'']] [],
       c_ifndef (Plain ''_VA_LIST'') [c_defines [''_VA_LIST'']],
       c_ifndef (Plain ''_VA_LIST_DEFINED'') [c_defines [''_VA_LIST_DEFINED'']],
       c_ifndef (Plain ''_VA_LIST_T_H'') [c_defines [''_VA_LIST_T_H'']],
       c_ifndef (Plain ''__va_list__'') [c_defines [''__va_list__'']]] []"

definition stdarg_h :: "cpp \<Rightarrow> cpp" where
  "stdarg_h =
     c_ifndef (Plain ''_STDARG_H'') [
       c_ifndef (Plain ''_ANSI_STDARG_H_'') [
         c_ifndef (Plain ''__need___va_list'') [
           c_defines [''_STDARG_H''],
           c_defines [''_ANSI_STDARG_H_'']],
         c_undef (Plain ''__need___va_list''),
         c_ifndef (Plain ''__GNUC_VA_LIST'') [
           c_defines [''__GNUC_VA_LIST''],
           c_declare ''__builtin_va_list'' ''__gnuc_va_list''],
         c_ifdef (Plain ''_STDARG_H'') [
           va_macros,
           c_ifdef (Plain ''_BSD_VA_LIST'') [c_undef (Plain ''_BSD_VA_LIST'')],
           c_if (\<lambda>s. c_defined (Plain ''__svr4__'') s \<or>
               c_defined (Plain ''_SCO_DS'') s \<and> \<not> c_defined (Plain ''__VA_LIST'') s)
             [va_list_svr4] [va_list_other]]]]"

section \<open>Inclusions\<close>

text \<open>\<open>True\<close> is an inclusion for \<open>__gnuc_va_list\<close> alone, \<open>False\<close> one of the whole header.\<close>

definition stdarg_request :: "bool \<Rightarrow> cpp \<Rightarrow> cpp" where
  "stdarg_request need = run [c_defines (if need then [''__need___va_list''] else []), stdarg_h]"

definition stdarg_marks :: "string list" where
  "stdarg_marks = [''_STDARG_H'', ''_ANSI_STDARG_H_'', ''_VA_LIST_'', ''_VA_LIST'', ''_VA_LIST_DEFINED'', ''_VA_LIST_T_H'',
     ''__va_list__'']"

definition stdarg_macros :: "string list" where
  "stdarg_macros = [''va_start'', ''va_end'', ''va_arg'', ''va_copy'', ''__va_copy'']"

definition stdarg_systems :: "string list" where
  "stdarg_systems = [''__svr4__'', ''_SCO_DS'', ''__BSD_NET2__'', ''____386BSD____'', ''__bsdi__'', ''__sequent__'',
     ''__FreeBSD__'', ''WINNT'', ''_BSD_VA_LIST'', ''va_list'', ''__gnuc_va_list'', ''__builtin_va_list'']"

text \<open>
  The state between inclusions: \<open>w\<close> tells whether the whole header has been included, \<open>g\<close> whether it
  has been included at all, \<open>v\<close> is the compiler's type.
\<close>

definition stdarg_state :: "string \<Rightarrow> bool \<Rightarrow> bool \<Rightarrow> cpp \<Rightarrow> bool" where
  "stdarg_state v w g s \<longleftrightarrow> clean s \<and> (w \<longrightarrow> g) \<and>
     (\<forall>x \<in> set stdarg_systems. macros s (Plain x) = None) \<and>
     types s (Plain ''__builtin_va_list'') = Some v \<and>
     macros s (Plain ''__GNUC_VA_LIST'') = (if g then Some (Word '''') else None) \<and>
     types s (Plain ''__gnuc_va_list'') = (if g then Some v else None) \<and>
     (\<forall>x \<in> set stdarg_marks. macros s (Plain x) = (if w then Some (Word '''') else None)) \<and>
     types s (Plain ''va_list'') = (if w then Some v else None) \<and>
     (\<forall>x \<in> set stdarg_macros. (macros s (Plain x) \<noteq> None) \<longrightarrow> w) \<and>
     (w \<longrightarrow> macros s (Plain ''va_start'') = Some (Word ''(v,l) __builtin_va_start(v,l)'') \<and>
       macros s (Plain ''va_end'') = Some (Word ''(v) __builtin_va_end(v)'') \<and>
       macros s (Plain ''va_arg'') = Some (Word ''(v,l) __builtin_va_arg(v,l)'')) \<and>
     (macros s (Plain ''__need___va_list'') = None \<or> w \<and> macros s (Plain ''__need___va_list'') = Some (Word ''''))"

lemma stdarg_skipped: "c_defined (Plain ''_STDARG_H'') s \<Longrightarrow> stdarg_h s = s"
  by (simp add: stdarg_h_def c_if_false)

lemma stdarg_gnuc:
  assumes "stdarg_state v False g s"
  defines "s' \<equiv> c_ifndef (Plain ''__GNUC_VA_LIST'') [c_defines [''__GNUC_VA_LIST''], c_declare ''__builtin_va_list'' ''__gnuc_va_list'']
      (c_undef (Plain ''__need___va_list'') s)"
  shows "stdarg_state v False True s' \<and> macros s' (Plain ''__need___va_list'') = None"
  using assms(1) unfolding s'_def
  by (cases g) (simp_all add: stdarg_state_def stdarg_systems_def stdarg_marks_def stdarg_macros_def c_if_def c_defined_def expand_plain)

lemma stdarg_request_need:
  assumes "stdarg_state v w g s"
  shows "stdarg_state v w True (stdarg_request True s)"
proof (cases w)
  case True
  with assms have "stdarg_state v True True (c_defines [''__need___va_list''] s)"
    by (auto simp: stdarg_state_def stdarg_systems_def stdarg_marks_def stdarg_macros_def)
  then show ?thesis using True stdarg_skipped [of "c_defines [''__need___va_list''] s"] assms
    by (simp add: stdarg_request_def stdarg_state_def stdarg_marks_def c_defined_def)
next
  case False
  let ?s1 = "c_defines [''__need___va_list''] s"
  let ?s2 = "c_ifndef (Plain ''__GNUC_VA_LIST'') [c_defines [''__GNUC_VA_LIST''], c_declare ''__builtin_va_list'' ''__gnuc_va_list'']
      (c_undef (Plain ''__need___va_list'') ?s1)"
  have undef: "c_undef (Plain ''__need___va_list'') ?s1 = c_undef (Plain ''__need___va_list'') s"
    using False assms by (auto simp: c_undef_def c_defines_def c_define_def stdarg_state_def fun_eq_iff)
  have "stdarg_state v False True ?s2" using stdarg_gnuc [of v g s] assms False by (simp add: undef)
  moreover have "\<not> c_defined (Plain ''_STDARG_H'') ?s1" "\<not> c_defined (Plain ''_ANSI_STDARG_H_'') ?s1"
    "c_defined (Plain ''__need___va_list'') ?s1"
    using False assms by (simp_all add: stdarg_state_def stdarg_marks_def c_defined_def)
  then have "stdarg_h ?s1 = c_ifdef (Plain ''_STDARG_H'') [
           va_macros,
           c_ifdef (Plain ''_BSD_VA_LIST'') [c_undef (Plain ''_BSD_VA_LIST'')],
           c_if (\<lambda>s. c_defined (Plain ''__svr4__'') s \<or>
               c_defined (Plain ''_SCO_DS'') s \<and> \<not> c_defined (Plain ''__VA_LIST'') s)
             [va_list_svr4] [va_list_other]] ?s2"
    by (simp add: stdarg_h_def c_if_true c_if_false)
  moreover have "\<not> c_defined (Plain ''_STDARG_H'') ?s2"
    using calculation(1) by (simp add: stdarg_state_def stdarg_marks_def c_defined_def)
  ultimately show ?thesis by (simp add: stdarg_request_def c_if_false False)
qed

lemma va_macros_select:
  assumes "clean s" "\<And>x. x \<in> set stdarg_macros \<Longrightarrow> macros s (Plain x) = None"
  shows "clean (va_macros s)" "types (va_macros s) = types s" "n \<notin> Plain ` set stdarg_macros \<Longrightarrow> macros (va_macros s) n = macros s n"
    "macros (va_macros s) (Plain ''va_start'') = Some (Word ''(v,l) __builtin_va_start(v,l)'')"
    "macros (va_macros s) (Plain ''va_end'') = Some (Word ''(v) __builtin_va_end(v)'')"
    "macros (va_macros s) (Plain ''va_arg'') = Some (Word ''(v,l) __builtin_va_arg(v,l)'')"
  using assms by (simp_all add: va_macros_def stdarg_macros_def c_if_def)

lemma va_list_other_state:
  assumes "clean s" "\<forall>x \<in> set stdarg_systems. macros s (Plain x) = None" "types s (Plain ''__gnuc_va_list'') = Some v"
    "\<forall>x \<in> set (drop 2 stdarg_marks). macros s (Plain x) = None" "types s (Plain ''va_list'') = None"
  shows "va_list_other s = c_defines [''__va_list__''] (c_defines [''_VA_LIST_T_H''] (c_defines [''_VA_LIST_DEFINED'']
      (c_defines [''_VA_LIST''] (c_defines [''_VA_LIST_''] (c_declare ''__gnuc_va_list'' ''va_list'' s)))))"
    "clean (va_list_other s)" "types (va_list_other s) = (types s)(Plain ''va_list'' \<mapsto> v)"
    "macros (va_list_other s) (Plain x) = (if x \<in> set (drop 2 stdarg_marks) then Some (Word '''') else macros s (Plain x))"
proof -
  have no: "list_all (\<lambda>x. \<not> c_defined (Plain x) s) (stdarg_systems @ drop 2 stdarg_marks)"
    using assms(2,4) by (auto simp: c_defined_def list_all_iff)
  note no = no [unfolded stdarg_systems_def stdarg_marks_def, simplified]
  show eq: "va_list_other s = c_defines [''__va_list__''] (c_defines [''_VA_LIST_T_H''] (c_defines [''_VA_LIST_DEFINED'']
      (c_defines [''_VA_LIST''] (c_defines [''_VA_LIST_''] (c_declare ''__gnuc_va_list'' ''va_list'' s)))))"
    by (simp add: va_list_other_def c_if_true no c_defined_after)
  show "clean (va_list_other s)" "types (va_list_other s) = (types s)(Plain ''va_list'' \<mapsto> v)"
    using assms by (simp_all add: eq stdarg_systems_def stdarg_marks_def expand_plain)
  show "macros (va_list_other s) (Plain x) = (if x \<in> set (drop 2 stdarg_marks) then Some (Word '''') else macros s (Plain x))"
    by (auto simp: eq stdarg_marks_def image_iff)
qed

lemma stdarg_request_whole:
  assumes "stdarg_state v w g s"
  shows "stdarg_state v True True (stdarg_request False s)"
proof (cases w)
  case True
  with assms stdarg_skipped [of s] show ?thesis
    by (simp add: stdarg_request_def c_defines_def stdarg_state_def stdarg_marks_def c_defined_def)
next
  case False
  note f = assms [unfolded stdarg_state_def]
  let ?s1 = "c_defines [''_ANSI_STDARG_H_''] (c_defines [''_STDARG_H''] s)"
  let ?s2 = "c_ifndef (Plain ''__GNUC_VA_LIST'') [c_defines [''__GNUC_VA_LIST''], c_declare ''__builtin_va_list'' ''__gnuc_va_list'']
      (c_undef (Plain ''__need___va_list'') ?s1)"
  have start: "\<not> c_defined (Plain ''_STDARG_H'') s" "\<not> c_defined (Plain ''_ANSI_STDARG_H_'') s"
    "\<not> c_defined (Plain ''__need___va_list'') s"
    using False f by (simp_all add: stdarg_marks_def c_defined_def)
  define t where "t = c_undef (Plain ''__need___va_list'') ?s1"
  have t: "clean t" "types t = types s" "macros t (Plain ''__need___va_list'') = None"
    "macros t (Plain ''_STDARG_H'') = Some (Word '''')" "macros t (Plain ''_ANSI_STDARG_H_'') = Some (Word '''')"
    "\<And>x. x \<notin> {''__need___va_list'', ''_STDARG_H'', ''_ANSI_STDARG_H_''} \<Longrightarrow> macros t (Plain x) = macros s (Plain x)"
    using f False by (simp_all add: t_def stdarg_marks_def)
  have gnuc: "macros t (Plain ''__GNUC_VA_LIST'') = (if g then Some (Word '''') else None)"
    "types t (Plain ''__gnuc_va_list'') = (if g then Some v else None)" "types t (Plain ''__builtin_va_list'') = Some v"
    "macros t (Plain ''__builtin_va_list'') = None" "macros t (Plain ''__gnuc_va_list'') = None"
    using t f by (simp_all add: stdarg_systems_def)
  have s2: "?s2 = (if g then t else c_declare ''__builtin_va_list'' ''__gnuc_va_list'' (c_defines [''__GNUC_VA_LIST''] t))"
    by (simp add: t_def [symmetric] c_if_def c_defined_def gnuc)
  have 2: "clean ?s2" "types ?s2 = (types s)(Plain ''__gnuc_va_list'' \<mapsto> v)"
    "macros ?s2 (Plain ''__need___va_list'') = None" "macros ?s2 (Plain ''__GNUC_VA_LIST'') = Some (Word '''')"
    "macros ?s2 (Plain ''_STDARG_H'') = Some (Word '''')" "macros ?s2 (Plain ''_ANSI_STDARG_H_'') = Some (Word '''')"
    "\<And>x. x \<notin> {''__need___va_list'', ''__GNUC_VA_LIST'', ''_STDARG_H'', ''_ANSI_STDARG_H_''} \<Longrightarrow>
      macros ?s2 (Plain x) = macros s (Plain x)"
    unfolding s2 using t gnuc by (simp_all add: expand_plain fun_upd_idem)
  define s2 where "s2 = ?s2"
  note 2 = 2 [folded s2_def]
  have "{''__need___va_list'', ''__GNUC_VA_LIST'', ''_STDARG_H'', ''_ANSI_STDARG_H_''} \<inter>
      (set stdarg_systems \<union> set stdarg_macros \<union> set (drop 2 stdarg_marks)) = {}"
    by (simp add: stdarg_systems_def stdarg_macros_def stdarg_marks_def)
  then have "x \<in> set stdarg_systems \<union> set stdarg_macros \<union> set (drop 2 stdarg_marks) \<Longrightarrow> macros s2 (Plain x) = macros s (Plain x)"
    for x by (intro 2(7)) blast
  then have sys: "x \<in> set stdarg_systems \<Longrightarrow> macros s2 (Plain x) = None"
    and va: "x \<in> set stdarg_macros \<Longrightarrow> macros s2 (Plain x) = None"
    and marks: "x \<in> set (drop 2 stdarg_marks) \<Longrightarrow> macros s2 (Plain x) = None" for x
    using f False by (auto dest: in_set_dropD)
  note m = va_macros_select [OF 2(1) va]
  have "(set stdarg_systems \<union> set stdarg_marks \<union> {''__need___va_list'', ''__GNUC_VA_LIST''}) \<inter> set stdarg_macros = {}"
    by (simp add: stdarg_systems_def stdarg_macros_def stdarg_marks_def)
  then have disj: "x \<in> set stdarg_systems \<union> set stdarg_marks \<union> {''__need___va_list'', ''__GNUC_VA_LIST''} \<Longrightarrow>
      x \<notin> set stdarg_macros" for x by blast
  define s3 where "s3 = va_macros s2"
  have 3: "x \<notin> set stdarg_macros \<Longrightarrow> macros s3 (Plain x) = macros s2 (Plain x)" for x
    unfolding s3_def by (rule m(3)) auto
  have mk: "x \<in> set (drop 2 stdarg_marks) \<Longrightarrow> x \<in> set stdarg_marks" for x by (rule in_set_dropD)
  have tys3: "types s3 = (types s)(Plain ''__gnuc_va_list'' \<mapsto> v)" using m(2) 2(2) by (simp add: s3_def)
  have sys3: "\<forall>x \<in> set stdarg_systems. macros s3 (Plain x) = None"
    and marks3: "\<forall>x \<in> set (drop 2 stdarg_marks). macros s3 (Plain x) = None"
    using sys marks disj mk by (simp_all add: 3)
  have va3: "types s3 (Plain ''__gnuc_va_list'') = Some v" "types s3 (Plain ''va_list'') = None"
    using f False by (simp_all add: tys3)
  note v = va_list_other_state(2-4) [OF m(1) [folded s3_def] sys3 va3(1) marks3 va3(2)]
  have none: "\<not> c_defined (Plain ''_BSD_VA_LIST'') s3" "\<not> c_defined (Plain ''__svr4__'') s3" "\<not> c_defined (Plain ''_SCO_DS'') s3"
    using sys disj by (simp_all add: c_defined_def 3 stdarg_systems_def)
  have "c_defined (Plain ''_STDARG_H'') s2" using 2(5) by (simp add: c_defined_def)
  then have "stdarg_request False s = va_list_other s3"
    by (simp add: stdarg_request_def c_defines_def [of "[]"] stdarg_h_def c_if_true c_if_false start none s2_def [symmetric] s3_def [symmetric])
  moreover have "stdarg_state v True True (va_list_other s3)"
  proof -
    have dm: "set (drop 2 stdarg_marks) = {''_VA_LIST_'', ''_VA_LIST'', ''_VA_LIST_DEFINED'', ''_VA_LIST_T_H'', ''__va_list__''}"
      by (simp add: stdarg_marks_def)
    have sys4: "macros (va_list_other s3) (Plain x) = None" if "x \<in> set stdarg_systems" for x
    proof -
      have "x \<notin> set (drop 2 stdarg_marks)" using that unfolding dm by (auto simp: stdarg_systems_def)
      then show ?thesis using that sys disj by (simp add: v(3) 3)
    qed
    have marks4: "macros (va_list_other s3) (Plain x) = Some (Word '''')" if "x \<in> set stdarg_marks" for x
    proof (cases "x \<in> set (drop 2 stdarg_marks)")
      case False
      with that have "x = ''_STDARG_H'' \<or> x = ''_ANSI_STDARG_H_''" unfolding dm by (auto simp: stdarg_marks_def)
      then show ?thesis using 2(5,6) 3 [of x] disj [of x] that False by (auto simp: v(3))
    qed (simp add: v(3))
    have other: "macros (va_list_other s3) (Plain ''__GNUC_VA_LIST'') = Some (Word '''')"
      "macros (va_list_other s3) (Plain ''__need___va_list'') = None"
      using 2(3,4) 3 disj by (simp_all add: v(3) dm)
    have va4: "macros (va_list_other s3) (Plain x) = macros (va_macros s2) (Plain x)" if "x \<in> set stdarg_macros" for x
    proof -
      have "x \<notin> set (drop 2 stdarg_marks)" using disj mk that by blast
      then show ?thesis using v(3) [of x] by (simp add: s3_def)
    qed
    have tys: "types (va_list_other s3) = (types s)(Plain ''__gnuc_va_list'' \<mapsto> v, Plain ''va_list'' \<mapsto> v)"
      using v(2) by (simp add: tys3)
    show ?thesis
      using f v(1) sys4 marks4 other va4 m(4-6) by (simp add: stdarg_state_def tys stdarg_macros_def)
  qed
  ultimately show ?thesis by simp
qed

definition stdarg_inv :: "string \<Rightarrow> bool list \<Rightarrow> cpp \<Rightarrow> bool" where
  "stdarg_inv v h s \<longleftrightarrow> stdarg_state v (False \<in> set h) (h \<noteq> []) s"

lemma stdarg_request_inv: "stdarg_inv v h s \<Longrightarrow> stdarg_inv v (r # h) (stdarg_request r s)"
  using stdarg_request_need [of v "False \<in> set h" "h \<noteq> []" s] stdarg_request_whole [of v "False \<in> set h" "h \<noteq> []" s]
  by (cases r) (simp_all add: stdarg_inv_def)

text \<open>The names the header may define, and those it only reads.\<close>

definition stdarg_names :: "string list" where
  "stdarg_names = [''__need___va_list'', ''__GNUC_VA_LIST'', ''__gnuc_va_list'', ''va_list'', ''_BSD_VA_LIST'', ''__VA_LIST''] @
     stdarg_marks @ stdarg_macros"

definition stdarg_own :: "name \<Rightarrow> bool" where
  "stdarg_own x \<longleftrightarrow> x \<in> Plain ` set stdarg_names"

definition stdarg_uses :: "name \<Rightarrow> bool" where
  "stdarg_uses x \<longleftrightarrow> x \<in> Plain ` set (stdarg_names @ stdarg_systems)"

lemma keeps_stdarg: "keeps (apart stdarg_names) (stdarg_request need)"
  unfolding stdarg_request_def
  by (rule keeps_run)
    (simp add: stdarg_h_def va_macros_def va_list_svr4_def va_list_other_def keeps_run stdarg_names_def stdarg_marks_def
      stdarg_macros_def)

lemma stdarg_inv_frame:
  assumes "stdarg_inv v h s" "clean s'" "\<And>x. stdarg_uses x \<Longrightarrow> macros s' x = macros s x \<and> types s' x = types s x"
  shows "stdarg_inv v h s'"
proof -
  have same: "macros s' (Plain x) = macros s (Plain x)" "types s' (Plain x) = types s (Plain x)"
    if "x \<in> set stdarg_names \<union> set stdarg_systems" for x
    using assms(3) [of "Plain x"] that by (auto simp: stdarg_uses_def)
  have "macros s' (Plain x) = macros s (Plain x)" "types s' (Plain x) = types s (Plain x)"
    if "x \<in> set [''__need___va_list'', ''__GNUC_VA_LIST'', ''__gnuc_va_list'', ''va_list'', ''__builtin_va_list'', ''va_start'',
      ''va_end'', ''va_arg'']" for x
    using that by (auto intro!: same simp: stdarg_names_def stdarg_macros_def stdarg_systems_def)
  note n = this [of "''__need___va_list''"] this [of "''__GNUC_VA_LIST''"] this [of "''__gnuc_va_list''"] this [of "''va_list''"]
    this [of "''__builtin_va_list''"] this [of "''va_start''"] this [of "''va_end''"] this [of "''va_arg''"]
  have sub: "set stdarg_marks \<subseteq> set stdarg_names" "set stdarg_macros \<subseteq> set stdarg_names" by (auto simp: stdarg_names_def)
  show ?thesis
    using assms(1,2) same(1) sub n [simplified]
    by (simp add: stdarg_inv_def stdarg_state_def subset_iff)
qed

end
