(* ===== verification/Headers.thy ===== *)
theory Headers
  imports Limits StddefCorrect Stdarg
begin

text \<open>
  The headers of \<open>clang/lib/Headers\<close> in one translation unit. Each header keeps a contract: while the
  names it uses are left alone, its own invariant holds, and it defines no names but its own. Headers
  that keep to different names can be included in any order and any number of times.
\<close>

section \<open>The contract of a header\<close>

text \<open>
  \<open>inc r\<close> is what the inclusion \<open>r\<close> does, \<open>mine r\<close> tells whether it is of this header, \<open>inv h\<close> holds after
  the inclusions \<open>h\<close>, the latest first.
\<close>

locale header =
  fixes inc :: "'r \<Rightarrow> cpp \<Rightarrow> cpp" and mine :: "'r \<Rightarrow> bool" and inv :: "'r list \<Rightarrow> cpp \<Rightarrow> bool"
    and own :: "name \<Rightarrow> bool" and uses :: "name \<Rightarrow> bool"
  assumes step: "inv h s \<Longrightarrow> mine r \<Longrightarrow> inv (r # h) (inc r s)"
    and frame: "inv h s \<Longrightarrow> \<not> mine r \<Longrightarrow> clean s' \<Longrightarrow>
      (\<And>x. uses x \<Longrightarrow> macros s' x = macros s x \<and> types s' x = types s x) \<Longrightarrow> inv (r # h) s'"
    and others: "inv h s \<Longrightarrow> mine r \<Longrightarrow> \<not> own x \<Longrightarrow> macros (inc r s) x = macros s x \<and> types (inc r s) x = types s x"
    and clean: "inv h s \<Longrightarrow> clean s"
begin

lemma all_included: "inv h s \<Longrightarrow> list_all mine rs \<Longrightarrow> inv (rev rs @ h) (fold inc rs s)"
proof (induction rs arbitrary: h s)
  case (Cons r rs)
  from Cons.prems have "inv (r # h) (inc r s)" "list_all mine rs" by (simp_all add: step)
  from Cons.IH [OF this] show ?case by simp
qed simp

end

locale two_headers =
  a: header inc minea inva owna usesa + b: header inc mineb invb ownb usesb
  for inc :: "'r \<Rightarrow> cpp \<Rightarrow> cpp" and minea inva owna usesa mineb invb ownb usesb +
  assumes apart: "owna x \<Longrightarrow> \<not> usesb x" "ownb x \<Longrightarrow> \<not> usesa x"
    and different: "minea r \<Longrightarrow> \<not> mineb r"
begin

lemma both_step:
  assumes "inva h s" "invb h s" "minea r \<or> mineb r"
  shows "inva (r # h) (inc r s) \<and> invb (r # h) (inc r s)"
proof (cases "minea r")
  case True
  then have a: "inva (r # h) (inc r s)" using assms(1) by (rule a.step [rotated])
  moreover have "invb (r # h) (inc r s)"
    by (rule b.frame [OF assms(2) different [OF True] a.clean [OF a]])
      (use a.others [OF assms(1) True] apart(1) in blast)
  ultimately show ?thesis by blast
next
  case False
  then have r: "mineb r" using assms(3) by blast
  then have b: "invb (r # h) (inc r s)" using assms(2) by (rule b.step [rotated])
  moreover have "inva (r # h) (inc r s)"
    by (rule a.frame [OF assms(1) False b.clean [OF b]])
      (use b.others [OF assms(2) r] apart(2) in blast)
  ultimately show ?thesis by blast
qed

end

sublocale two_headers \<subseteq> both: header inc "\<lambda>r. minea r \<or> mineb r" "\<lambda>h s. inva h s \<and> invb h s"
  "\<lambda>x. owna x \<or> ownb x" "\<lambda>x. usesa x \<or> usesb x"
proof
  show "inva h s \<and> invb h s \<Longrightarrow> minea r \<or> mineb r \<Longrightarrow> inva (r # h) (inc r s) \<and> invb (r # h) (inc r s)" for h s r
    using both_step by blast
  show "inva (r # h) s' \<and> invb (r # h) s'"
    if "inva h s \<and> invb h s" "\<not> (minea r \<or> mineb r)" "clean s'"
      "\<And>x. usesa x \<or> usesb x \<Longrightarrow> macros s' x = macros s x \<and> types s' x = types s x" for h s r s'
    using a.frame [of h s r s'] b.frame [of h s r s'] that by blast
  show "macros (inc r s) x = macros s x \<and> types (inc r s) x = types s x"
    if "inva h s \<and> invb h s" "minea r \<or> mineb r" "\<not> (owna x \<or> ownb x)" for h s r x
    using a.others [of h s r x] b.others [of h s r x] that by blast
  show "inva h s \<and> invb h s \<Longrightarrow> clean s" for h s
    using a.clean by blast
qed

context two_headers begin

lemma both_included:
  "inva h s \<Longrightarrow> invb h s \<Longrightarrow> list_all (\<lambda>r. minea r \<or> mineb r) rs \<Longrightarrow>
   inva (rev rs @ h) (fold inc rs s) \<and> invb (rev rs @ h) (fold inc rs s)"
  by (rule both.all_included) simp_all

end

section \<open>The files\<close>

text \<open>
  An inclusion of one of the four files, or of the \<open>stdbool.h\<close> of the include path. For \<open>stdint.h\<close> and \<open>limits.h\<close> the next file of that name on the
  include path is a parameter, which a freestanding unit does not reach.
\<close>

datatype header_file = Stdint_file | Limits_file | Stddef_file "item list" | Stdarg_file bool | Stdbool_file

record include_path =
  next_stdint :: "(cpp \<Rightarrow> cpp) option"
  next_limits :: "(cpp \<Rightarrow> cpp) option"
  system :: platform
  stdbool :: "cpp \<Rightarrow> cpp"

fun include_file :: "target \<Rightarrow> include_path \<Rightarrow> header_file \<Rightarrow> cpp \<Rightarrow> cpp" where
  "include_file T ip Stdint_file = stdint_h T (next_stdint ip)"
| "include_file T ip Limits_file = limits_h (next_limits ip)"
| "include_file T ip (Stddef_file xs) = stddef_request (system ip) xs"
| "include_file T ip (Stdarg_file need) = stdarg_request need"
| "include_file T ip Stdbool_file = stdbool ip"

definition freestanding :: "cpp \<Rightarrow> bool" where
  "freestanding s \<longleftrightarrow> macros s (Plain ''__STDC_HOSTED__'') = Some (Expr (Num 0 ''''))"

lemma freestanding_hosted: "freestanding s \<Longrightarrow> \<not> hosted sys s"
  by (simp add: freestanding_def hosted_def)

subsection \<open>\<open>stdint.h\<close>\<close>

definition stdint_own :: "name \<Rightarrow> bool" where
  "stdint_own x \<longleftrightarrow> \<not> is_plain x \<or> x \<in> Plain ` set (guard_names @ limit_names)"

definition stdint_reads :: "string list" where
  "stdint_reads = [''_AIX'', ''__INTPTR_TYPE__'', ''__UINTPTR_TYPE__'', ''__INTMAX_TYPE__'', ''__UINTMAX_TYPE__'',
     ''__STDC_VERSION__'', ''__STDC_HOSTED__'']"

definition stdint_uses :: "name \<Rightarrow> bool" where
  "stdint_uses x \<longleftrightarrow> stdint_own x \<or> x \<in> Plain ` set stdint_reads"

definition stdint_inv :: "int_types \<Rightarrow> header_file list \<Rightarrow> cpp \<Rightarrow> bool" where
  "stdint_inv I h s \<longleftrightarrow> freestanding s \<and> clean s \<and>
     (if Stdint_file \<in> set h then c_defined (Plain ''__CLANG_STDINT_H'') s \<and> included I s else fresh I s)"

lemma stdint_uses_simps:
  "\<not> is_plain x \<Longrightarrow> stdint_uses x" "y \<in> set (guard_names @ limit_names @ stdint_reads) \<Longrightarrow> stdint_uses (Plain y)"
  by (auto simp: stdint_uses_def stdint_own_def)

lemma keeps_stdint_rest:
  "keeps (apart (tl guard_names)) pointer_types" "keeps (apart limit_names) pointer_limits"
  "keeps (apart limit_names) greatest_limits" "keeps (apart limit_names) (other_limits T)"
  by (simp_all add: keeps_run pointer_types_def pointer_limits_def greatest_limits_def other_limits_def c_alias_def
      negative_limit_def guard_names_def limit_names_def)

lemma keeps_stdint:
  assumes "is_plain x" "x \<notin> Plain ` set (tl guard_names @ limit_names)"
  shows "macros (stdint_freestanding T s) x = macros s x \<and> types (stdint_freestanding T s) x = types s x"
proof -
  define P where "P y \<longleftrightarrow> y = x" for y
  have sub: "keeps Q d \<Longrightarrow> Q x \<Longrightarrow> keeps P d" for Q d by (simp add: keeps_def P_def)
  have no: "\<not> is_const x" "\<not> is_limit x" using assms(1) by (cases x; simp)+
  have "x \<noteq> Plain ''__uint32_t_defined''" using assms(2) by (auto simp: guard_names_def)
  moreover have "apart (tl guard_names) x" "apart limit_names x" using assms(2) by (auto simp: apart_def)
  ultimately have "list_all (keeps P) [stdint_types, pointer_types, stdint_constants, stdint_limits,
     pointer_limits, greatest_limits, other_limits T]"
    using assms(1) no sub [OF keeps_types_plain] sub [OF keeps_constants] sub [OF keeps_limits]
      keeps_stdint_rest [THEN sub] by simp
  then have "keeps P (stdint_freestanding T)" unfolding stdint_freestanding_def by (rule keeps_run)
  then show ?thesis using keepsD [of P _ x] by (simp add: P_def)
qed

lemma stdint_h_keeps:
  assumes "fresh I s" "\<not> hosted sys s" "\<not> stdint_own x"
  shows "macros (stdint_h T sys s) x = macros s x \<and> types (stdint_h T sys s) x = types s x"
proof -
  have "is_plain x" "x \<notin> Plain ` set (tl guard_names @ limit_names)" "x \<noteq> Plain ''__CLANG_STDINT_H''"
    using assms(3) by (auto simp: stdint_own_def guard_names_def)
  then show ?thesis
    using keeps_stdint [of x] by (simp add: stdint_h_freestanding [OF assms(1,2)])
qed

lemma fresh_frame:
  assumes "fresh I s" "clean s'" "\<And>x. stdint_uses x \<Longrightarrow> macros s' x = macros s x \<and> types s' x = types s x"
  shows "fresh I s'"
proof -
  have n: "macros s' x = macros s x" "types s' x = types s x" if "\<not> is_plain x" for x
    using assms(3) stdint_uses_simps(1) [OF that] by blast+
  have p: "macros s' (Plain x) = macros s (Plain x)" "types s' (Plain x) = types s (Plain x)"
    if "x \<in> set (guard_names @ limit_names @ stdint_reads)" for x
    using assms(3) stdint_uses_simps(2) [OF that] by blast+
  have w: "by_width x \<Longrightarrow> \<not> is_plain x" for x by (cases x) simp_all
  have r: "x \<in> set stdint_reads \<Longrightarrow> macros s' (Plain x) = macros s (Plain x)" for x using p by simp
  show ?thesis
    using assms(1,2) n w p(1,2) r
    by (simp add: fresh_def compiler_def c_defined_def list_all_iff stdint_reads_def)
qed

lemma included_frame:
  assumes "included I s" "clean s'" "\<And>x. stdint_uses x \<Longrightarrow> macros s' x = macros s x \<and> types s' x = types s x"
  shows "included I s'"
proof -
  have n: "macros s' x = macros s x" "types s' x = types s x" if "\<not> is_plain x" for x
    using assms(3) stdint_uses_simps(1) [OF that] by blast+
  have l: "is_limit x \<Longrightarrow> \<not> is_plain x" for x by (cases x) simp_all
  have c: "c2x s' = c2x s"
    using assms(3) [OF stdint_uses_simps(2), of "''__STDC_VERSION__''"] by (simp add: c2x_def stdint_reads_def)
  have "exact I 8 s'" "leasts I 8 s'"
    using assms(1) n by (simp_all add: included_def exact_def leasts_def compiler_def cascade_def from_level_def)
  moreover have "constants I 8 8 s'"
    using assms(1,2) n by (simp add: included_def constants_def compiler_def cascade_def from_level_def)
  moreover have "limited (widths I) 8 8 s'"
    using assms(1,2) n l by (auto simp: included_def limited_def c)
  ultimately show ?thesis using assms(2) by (simp add: included_def)
qed

lemma stdint_skipped: "c_defined (Plain ''__CLANG_STDINT_H'') s \<Longrightarrow> stdint_h T sys s = s"
  by (simp add: stdint_h_def c_if_false)

lemma stdint_guard:
  assumes "fresh I s" "\<not> hosted sys s"
  shows "c_defined (Plain ''__CLANG_STDINT_H'') (stdint_h T sys s)"
proof -
  have "Plain ''__CLANG_STDINT_H'' \<notin> Plain ` set (tl guard_names @ limit_names)"
    by (simp add: guard_names_def limit_names_def image_iff)
  from keeps_stdint [OF _ this] show ?thesis
    by (simp add: stdint_h_freestanding [OF assms] c_defined_def)
qed

interpretation stdint: header "include_file T ip" "\<lambda>r. r = Stdint_file" "stdint_inv I" stdint_own stdint_uses
proof
  fix h s and r :: header_file
  assume inv: "stdint_inv I h s"
  note f = inv [unfolded stdint_inv_def]
  show "clean s" using f by blast
  show "stdint_inv I (r # h) s'"
    if "\<not> r = Stdint_file" "clean s'" "\<And>x. stdint_uses x \<Longrightarrow> macros s' x = macros s x \<and> types s' x = types s x" for s'
  proof -
    have same: "macros s' (Plain x) = macros s (Plain x)" if "x \<in> set (guard_names @ limit_names @ stdint_reads)" for x
      using \<open>\<And>x. stdint_uses x \<Longrightarrow> _\<close> [OF stdint_uses_simps(2) [OF that]] by blast
    have "freestanding s'" "c_defined (Plain ''__CLANG_STDINT_H'') s' = c_defined (Plain ''__CLANG_STDINT_H'') s"
      using f same by (simp_all add: freestanding_def c_defined_def stdint_reads_def guard_names_def)
    moreover have "Stdint_file \<in> set (r # h) \<longleftrightarrow> Stdint_file \<in> set h" using that(1) by auto
    moreover have "included I s \<Longrightarrow> included I s'" "fresh I s \<Longrightarrow> fresh I s'"
      using included_frame that(2,3) fresh_frame by blast+
    ultimately show ?thesis
      unfolding stdint_inv_def using f that(2) by (simp split: if_splits del: set_simps)
  qed
  show "macros (include_file T ip r s) x = macros s x \<and> types (include_file T ip r s) x = types s x"
    if "r = Stdint_file" "\<not> stdint_own x" for x
  proof (cases "Stdint_file \<in> set h")
    case True
    then show ?thesis using f that(1) stdint_skipped by simp
  next
    case False
    with f that stdint_h_keeps [of I s "next_stdint ip" x T] show ?thesis by (simp add: freestanding_hosted)
  qed
  show "stdint_inv I (r # h) (include_file T ip r s)" if "r = Stdint_file"
  proof (cases "Stdint_file \<in> set h")
    case True
    then show ?thesis using f that stdint_skipped by (simp add: stdint_inv_def)
  next
    case False
    with f have fr: "fresh I s" and nh: "\<not> hosted (next_stdint ip) s" by (simp_all add: freestanding_hosted)
    have "\<not> stdint_own (Plain ''__STDC_HOSTED__'')" by (auto simp: stdint_own_def guard_names_def limit_names_def)
    then have "freestanding (stdint_h T (next_stdint ip) s)"
      using f stdint_h_keeps [OF fr nh] by (simp add: freestanding_def)
    then show ?thesis
      using stdint_guard [OF fr nh] stdint_freestanding_included [OF fr, of T] that
      by (simp add: stdint_inv_def stdint_h_freestanding [OF fr nh] included_def)
  qed
qed

subsection \<open>\<open>limits.h\<close>\<close>

definition limits_names :: "string list" where
  "limits_names = later_names @ basic_names"

definition limits_own :: "name \<Rightarrow> bool" where
  "limits_own x \<longleftrightarrow> x \<in> Plain ` set limits_names"

definition limits_uses :: "name \<Rightarrow> bool" where
  "limits_uses x \<longleftrightarrow> limits_own x \<or> x = Plain ''__STDC_HOSTED__''"

definition limits_inv :: "header_file list \<Rightarrow> cpp \<Rightarrow> bool" where
  "limits_inv h s \<longleftrightarrow> freestanding s \<and> clean s \<and>
     (if Limits_file \<in> set h then c_defined (Plain ''__CLANG_LIMITS_H'') s
      else \<forall>x \<in> set limits_names. macros s (Plain x) = None)"

lemma limits_uses_simps: "x \<in> set (''__STDC_HOSTED__'' # limits_names) \<Longrightarrow> limits_uses (Plain x)"
  by (auto simp: limits_uses_def limits_own_def)

lemma limits_skipped: "c_defined (Plain ''__CLANG_LIMITS_H'') s \<Longrightarrow> limits_h sys s = s"
  by (simp add: limits_h_def c_if_false)

lemma limits_h_keeps:
  assumes "\<not> c_defined (Plain ''__CLANG_LIMITS_H'') s" "\<not> hosted sys s" "\<not> limits_own x"
  shows "macros (limits_h sys s) x = macros s x \<and> types (limits_h sys s) x = types s x"
proof -
  have x: "other_than later_names x" "other_than basic_names x"
    using assms(3) by (auto simp: limits_own_def limits_names_def other_than_def)
  have "macros (limits_start s) x = macros s x \<and> types (limits_start s) x = types s x"
    using x(2) by (auto simp: limits_start_def c_if_def other_than_def basic_names_def)
  then show ?thesis
    using keepsD [OF keeps_early(1) x(2)] keepsD [OF keeps_early(2) x(2)] keeps_later [THEN keepsD, OF x(1)]
    by (simp add: limits_h_sections [OF assms(1,2)])
qed

lemma limits_h_guard:
  assumes "\<not> c_defined (Plain ''__CLANG_LIMITS_H'') s" "\<not> hosted sys s"
  shows "c_defined (Plain ''__CLANG_LIMITS_H'') (limits_h sys s)"
proof -
  have later: "other_than later_names (Plain ''__CLANG_LIMITS_H'')" by (simp add: other_than_def later_names_def image_iff)
  have "keeps (\<lambda>x. x = Plain ''__CLANG_LIMITS_H'') undef_limits" "keeps (\<lambda>x. x = Plain ''__CLANG_LIMITS_H'') basic_limits"
    by (simp_all add: undef_limits_def basic_limits_def p_define_def keeps_run)
  note k = this [THEN keepsD, OF refl]
  have "macros (limits_start s) (Plain ''__CLANG_LIMITS_H'') \<noteq> None" by (simp add: limits_start_def c_if_def)
  then show ?thesis using k by (simp add: c_defined_def macros_limits_h [OF assms later])
qed

lemma undef_none: "macros s x = None \<Longrightarrow> macros (c_undef n s) x = None"
  by simp

lemma limits_h_clean:
  assumes "clean s" "\<forall>x \<in> set limits_names. macros s (Plain x) = None" "\<not> hosted sys s"
  shows "clean (limits_h sys s)"
proof -
  have "''__CLANG_LIMITS_H'' \<in> set limits_names" "''_GCC_LIMITS_H_'' \<in> set limits_names"
    by (simp_all add: limits_names_def basic_names_def)
  then have none: "macros s (Plain ''__CLANG_LIMITS_H'') = None" "macros s (Plain ''_GCC_LIMITS_H_'') = None"
    using assms(2) by blast+
  then have s: "\<not> c_defined (Plain ''__CLANG_LIMITS_H'') s" by (simp add: c_defined_def)
  have last: "clean (llong_limits s') = clean s'" "clean (gnu_limits s') = clean s'" for s'
    by (simp_all add: llong_limits_def gnu_limits_def p_define_def c_if_def)
  obtain N where N: "tidy N (run [basic_limits, width_limits, char_limits])"
      "N \<subseteq> set limits_names - {''__CLANG_LIMITS_H'', ''_GCC_LIMITS_H_''}"
  proof -
    have "\<exists>N. tidy N (run [basic_limits, width_limits, char_limits]) \<and>
        N \<subseteq> set limits_names - {''__CLANG_LIMITS_H'', ''_GCC_LIMITS_H_''}"
      unfolding basic_limits_def width_limits_def char_limits_def p_define_def
      by (intro exI conjI, (rule tidy_rules | (simp; fail))+) (simp add: limits_names_def later_names_def basic_names_def)
    then show ?thesis using that by blast
  qed
  define s1 where "s1 = undef_limits (limits_start s)"
  have "clean (limits_start s)"
    using assms(1) none by (simp add: limits_start_def c_if_def)
  then have "clean s1" by (simp add: s1_def undef_limits_def)
  moreover have "macros s1 (Plain x) = None" if "x \<in> N" for x
  proof -
    have "x \<in> set limits_names" "x \<noteq> ''__CLANG_LIMITS_H''" "x \<noteq> ''_GCC_LIMITS_H_''" using that N(2) by auto
    then have "macros (limits_start s) (Plain x) = None" using assms(2) by (simp add: limits_start_def c_if_def)
    then show ?thesis unfolding s1_def undef_limits_def run.simps by (intro undef_none)
  qed
  ultimately have "clean (run [basic_limits, width_limits, char_limits] s1)" by (rule tidyD(1) [OF N(1)])
  then show ?thesis by (simp add: limits_h_sections [OF s assms(3)] last s1_def)
qed

interpretation limits: header "include_file T ip" "\<lambda>r. r = Limits_file" limits_inv limits_own limits_uses
proof
  fix h s and r :: header_file
  assume inv: "limits_inv h s"
  note f = inv [unfolded limits_inv_def]
  have fresh: "\<not> c_defined (Plain ''__CLANG_LIMITS_H'') s" if "Limits_file \<notin> set h"
    using f that by (simp add: c_defined_def limits_names_def basic_names_def)
  have nh: "\<not> hosted sys s" for sys using f freestanding_hosted by blast
  show "clean s" using f by blast
  show "limits_inv (r # h) s'"
    if "\<not> r = Limits_file" "clean s'" "\<And>x. limits_uses x \<Longrightarrow> macros s' x = macros s x \<and> types s' x = types s x" for s'
  proof -
    have same: "macros s' (Plain x) = macros s (Plain x)" if "x \<in> set (''__STDC_HOSTED__'' # limits_names)" for x
      using \<open>\<And>x. limits_uses x \<Longrightarrow> _\<close> [OF limits_uses_simps [OF that]] by blast
    have "freestanding s'" "c_defined (Plain ''__CLANG_LIMITS_H'') s' = c_defined (Plain ''__CLANG_LIMITS_H'') s"
      using f same by (simp_all add: freestanding_def c_defined_def limits_names_def basic_names_def)
    then show ?thesis
      using f that(1,2) same by (auto simp: limits_inv_def)
  qed
  show "macros (include_file T ip r s) x = macros s x \<and> types (include_file T ip r s) x = types s x"
    if "r = Limits_file" "\<not> limits_own x" for x
    using that limits_skipped [of s "next_limits ip"] limits_h_keeps [OF fresh nh that(2)] f
    by (cases "Limits_file \<in> set h") simp_all
  show "limits_inv (r # h) (include_file T ip r s)" if "r = Limits_file"
  proof (cases "Limits_file \<in> set h")
    case True
    then show ?thesis using f that limits_skipped by (simp add: limits_inv_def)
  next
    case False
    have "\<not> limits_own (Plain ''__STDC_HOSTED__'')"
      by (simp add: limits_own_def limits_names_def later_names_def basic_names_def image_iff)
    from limits_h_keeps [OF fresh nh this] False
    have "freestanding (limits_h (next_limits ip) s)" using f by (simp add: freestanding_def)
    then show ?thesis
      using limits_h_guard [OF fresh nh] limits_h_clean [OF _ _ nh] f that False by (simp add: limits_inv_def)
  qed
qed

subsection \<open>\<open>stddef.h\<close>\<close>

fun asked_items :: "header_file list \<Rightarrow> item list list" where
  "asked_items [] = []"
| "asked_items (Stddef_file xs # h) = xs # asked_items h"
| "asked_items (_ # h) = asked_items h"

fun is_stddef :: "header_file \<Rightarrow> bool" where
  "is_stddef (Stddef_file _) = True" | "is_stddef _ = False"

interpretation stddef: header "include_file T ip" is_stddef "\<lambda>h. stddef_inv L (asked_items h)" stddef_own stddef_uses
proof
  fix h s and r :: header_file
  assume inv: "stddef_inv L (asked_items h) s"
  show "clean s" using inv by (simp add: stddef_inv_def stddef_state_def)
  show "stddef_inv L (asked_items (r # h)) s'"
    if "\<not> is_stddef r" "clean s'" "\<And>x. stddef_uses x \<Longrightarrow> macros s' x = macros s x \<and> types s' x = types s x" for s'
  proof -
    have "asked_items (r # h) = asked_items h" using that(1) by (cases r) simp_all
    then show ?thesis using stddef_inv_frame [OF inv that(2,3)] by simp
  qed
  show "stddef_inv L (asked_items (r # h)) (include_file T ip r s)" if "is_stddef r"
    using that stddef_request_inv [OF inv] by (cases r) simp_all
  show "macros (include_file T ip r s) x = macros s x \<and> types (include_file T ip r s) x = types s x"
    if "is_stddef r" "\<not> stddef_own x" for x
    using that stddef_request_keeps [OF inv] by (cases r) simp_all
qed

subsection \<open>\<open>stdarg.h\<close>\<close>

fun asked_va :: "header_file list \<Rightarrow> bool list" where
  "asked_va [] = []"
| "asked_va (Stdarg_file b # h) = b # asked_va h"
| "asked_va (_ # h) = asked_va h"

fun is_stdarg :: "header_file \<Rightarrow> bool" where
  "is_stdarg (Stdarg_file _) = True" | "is_stdarg _ = False"

interpretation stdarg: header "include_file T ip" is_stdarg "\<lambda>h. stdarg_inv v (asked_va h)" stdarg_own stdarg_uses
proof
  fix h s and r :: header_file
  assume inv: "stdarg_inv v (asked_va h) s"
  show "clean s" using inv by (simp add: stdarg_inv_def stdarg_state_def)
  show "stdarg_inv v (asked_va (r # h)) s'"
    if "\<not> is_stdarg r" "clean s'" "\<And>x. stdarg_uses x \<Longrightarrow> macros s' x = macros s x \<and> types s' x = types s x" for s'
  proof -
    have "asked_va (r # h) = asked_va h" using that(1) by (cases r) simp_all
    then show ?thesis using stdarg_inv_frame [OF inv that(2,3)] by simp
  qed
  show "stdarg_inv v (asked_va (r # h)) (include_file T ip r s)" if "is_stdarg r"
    using that stdarg_request_inv [OF inv] by (cases r) simp_all
  show "macros (include_file T ip r s) x = macros s x \<and> types (include_file T ip r s) x = types s x"
    if "is_stdarg r" "\<not> stdarg_own x" for x
    using that keepsD [OF keeps_stdarg, of x] by (cases r) (simp_all add: stdarg_own_def apart_def)
qed

end
