(* ===== verification/Units.thy ===== *)
theory Units
  imports Headers
begin

text \<open>
  Whole translation units: the headers keep to different names, so their contracts compose, and a unit may
  include them in any order.
\<close>

section \<open>Different names\<close>

abbreviation stdint_names :: "string list" where
  "stdint_names \<equiv> guard_names @ limit_names"

lemmas name_lists = guard_names_def limit_names_def stdint_reads_def limits_names_def later_names_def basic_names_def
  whole_marks_def rest_names_def item_names_def ptrdiff_marks_def size_marks_def wchar_marks_def system_names_def
  language_names_def stdarg_names_def stdarg_marks_def stdarg_macros_def stdarg_systems_def

lemma names_stdint_limits:
  "set (stdint_names @ stdint_reads) \<inter> set (''__STDC_HOSTED__'' # limits_names) \<subseteq> {''__STDC_HOSTED__''}"
  by (simp add: name_lists)

lemma names_stdint_stddef:
  "set (stdint_names @ stdint_reads) \<inter> set stddef_names = {}"
  "set stdint_names \<inter> set (system_names @ language_names) = {}"
  by (simp_all add: name_lists stddef_names_def)

lemma names_stdint_stdarg:
  "set (stdint_names @ stdint_reads) \<inter> set stdarg_names = {}" "set stdint_names \<inter> set stdarg_systems = {}"
  by (simp_all add: name_lists)

lemma names_limits_stddef:
  "set (''__STDC_HOSTED__'' # limits_names) \<inter> set stddef_names = {}"
  "set limits_names \<inter> set (system_names @ language_names) = {}"
  by (simp_all add: name_lists stddef_names_def)

lemma names_limits_stdarg:
  "set (''__STDC_HOSTED__'' # limits_names) \<inter> set stdarg_names = {}" "set limits_names \<inter> set stdarg_systems = {}"
  by (simp_all add: name_lists)

lemma names_stddef_stdarg:
  "set (stddef_names @ system_names @ language_names) \<inter> set stdarg_names = {}"
  "set stddef_names \<inter> set stdarg_systems = {}"
  by (simp_all add: name_lists stddef_names_def)

lemma hosted_reads: "''__STDC_HOSTED__'' \<notin> set stdint_names" "''__STDC_HOSTED__'' \<notin> set limits_names"
  by (simp_all add: name_lists)

section \<open>One translation unit\<close>

lemmas own_uses = stdint_own_def stdint_uses_def limits_own_def limits_uses_def stddef_own_def stddef_uses_def
  stdarg_own_def stdarg_uses_def

lemma plain_names:
  "is_plain x \<longleftrightarrow> x \<in> range Plain" "Plain y \<in> Plain ` A \<longleftrightarrow> y \<in> A"
  by (cases x; auto) auto

lemma own_plain:
  "stdint_own (Plain y) \<longleftrightarrow> y \<in> set stdint_names" "stdint_uses (Plain y) \<longleftrightarrow> y \<in> set (stdint_names @ stdint_reads)"
  "limits_own (Plain y) \<longleftrightarrow> y \<in> set limits_names" "limits_uses (Plain y) \<longleftrightarrow> y \<in> set (''__STDC_HOSTED__'' # limits_names)"
  "stddef_own (Plain y) \<longleftrightarrow> y \<in> set stddef_names" "stddef_uses (Plain y) \<longleftrightarrow> y \<in> set (stddef_names @ system_names @ language_names)"
  "stdarg_own (Plain y) \<longleftrightarrow> y \<in> set stdarg_names" "stdarg_uses (Plain y) \<longleftrightarrow> y \<in> set (stdarg_names @ stdarg_systems)"
  by (auto simp: own_uses plain_names)

lemma own_other:
  "\<not> is_plain x \<Longrightarrow> \<not> limits_own x \<and> \<not> limits_uses x \<and> \<not> stddef_own x \<and> \<not> stddef_uses x \<and> \<not> stdarg_own x \<and> \<not> stdarg_uses x"
  by (auto simp: own_uses plain_names)

lemma sets_apart:
  assumes "(A \<union> A') \<inter> insert h B \<subseteq> {h}" "(A \<union> A') \<inter> C = {}" "A \<inter> C' = {}" "(A \<union> A') \<inter> D = {}" "A \<inter> D' = {}"
    "insert h B \<inter> C = {}" "B \<inter> C' = {}" "insert h B \<inter> D = {}" "B \<inter> D' = {}" "(C \<union> C') \<inter> D = {}" "C \<inter> D' = {}"
    "h \<notin> A" "h \<notin> B"
  shows "y \<in> A \<Longrightarrow> y \<notin> insert h B \<and> y \<notin> C \<union> C' \<and> y \<notin> D \<union> D'"
    "y \<in> B \<Longrightarrow> y \<notin> A \<union> A' \<and> y \<notin> C \<union> C' \<and> y \<notin> D \<union> D'"
    "y \<in> C \<Longrightarrow> y \<notin> A \<union> A' \<and> y \<notin> insert h B \<and> y \<notin> D \<union> D'"
    "y \<in> D \<Longrightarrow> y \<notin> A \<union> A' \<and> y \<notin> insert h B \<and> y \<notin> C \<union> C'"
proof -
  show "y \<in> A \<Longrightarrow> y \<notin> insert h B \<and> y \<notin> C \<union> C' \<and> y \<notin> D \<union> D'" using assms(1-5,12) by auto
  show "y \<in> B \<Longrightarrow> y \<notin> A \<union> A' \<and> y \<notin> C \<union> C' \<and> y \<notin> D \<union> D'" using assms(1,6-9,13) by auto
  show "y \<in> C \<Longrightarrow> y \<notin> A \<union> A' \<and> y \<notin> insert h B \<and> y \<notin> D \<union> D'" using assms(2,6,10,11) by auto
  show "y \<in> D \<Longrightarrow> y \<notin> A \<union> A' \<and> y \<notin> insert h B \<and> y \<notin> C \<union> C'" using assms(4,8,10) by auto
qed

lemma headers_apart:
  "stdint_own x \<Longrightarrow> \<not> limits_uses x \<and> \<not> stddef_uses x \<and> \<not> stdarg_uses x"
  "limits_own x \<Longrightarrow> \<not> stdint_uses x \<and> \<not> stddef_uses x \<and> \<not> stdarg_uses x"
  "stddef_own x \<Longrightarrow> \<not> stdint_uses x \<and> \<not> limits_uses x \<and> \<not> stdarg_uses x"
  "stdarg_own x \<Longrightarrow> \<not> stdint_uses x \<and> \<not> limits_uses x \<and> \<not> stddef_uses x"
proof -
  have cons: "set (''__STDC_HOSTED__'' # limits_names) = insert ''__STDC_HOSTED__'' (set limits_names)" by (rule list.set(2))
  have append: "set (stdint_names @ stdint_reads) = set stdint_names \<union> set stdint_reads"
    "set (stddef_names @ system_names @ language_names) = set stddef_names \<union> set (system_names @ language_names)"
    "set (stdarg_names @ stdarg_systems) = set stdarg_names \<union> set stdarg_systems" by (rule set_append)+
  note sets = names_stdint_limits names_stdint_stddef names_stdint_stdarg names_limits_stddef names_limits_stdarg
    names_stddef_stdarg
  note apart = sets_apart [OF sets [unfolded cons append] hosted_reads]
  have "(stdint_own x \<longrightarrow> \<not> limits_uses x \<and> \<not> stddef_uses x \<and> \<not> stdarg_uses x) \<and>
      (limits_own x \<longrightarrow> \<not> stdint_uses x \<and> \<not> stddef_uses x \<and> \<not> stdarg_uses x) \<and>
      (stddef_own x \<longrightarrow> \<not> stdint_uses x \<and> \<not> limits_uses x \<and> \<not> stdarg_uses x) \<and>
      (stdarg_own x \<longrightarrow> \<not> stdint_uses x \<and> \<not> limits_uses x \<and> \<not> stddef_uses x)"
  proof (cases "is_plain x")
    case True
    then obtain y where x: "x = Plain y" by (cases x) simp_all
    show ?thesis unfolding x own_plain cons append by (intro conjI [of "_ \<longrightarrow> _"] impI; erule apart)
  qed (use own_other in blast)
  then show "stdint_own x \<Longrightarrow> \<not> limits_uses x \<and> \<not> stddef_uses x \<and> \<not> stdarg_uses x"
    "limits_own x \<Longrightarrow> \<not> stdint_uses x \<and> \<not> stddef_uses x \<and> \<not> stdarg_uses x"
    "stddef_own x \<Longrightarrow> \<not> stdint_uses x \<and> \<not> limits_uses x \<and> \<not> stdarg_uses x"
    "stdarg_own x \<Longrightarrow> \<not> stdint_uses x \<and> \<not> limits_uses x \<and> \<not> stddef_uses x" by blast+
qed

interpretation integers: two_headers "include_file T ip" "\<lambda>r. r = Stdint_file" "stdint_inv I" stdint_own stdint_uses
  "\<lambda>r. r = Limits_file" limits_inv limits_own limits_uses
  by unfold_locales (simp_all add: headers_apart)

interpretation basics: two_headers "include_file T ip" is_stddef "\<lambda>h. stddef_inv L (asked_items h)" stddef_own stddef_uses
  is_stdarg "\<lambda>h. stdarg_inv v (asked_va h)" stdarg_own stdarg_uses
proof
  show "is_stddef r \<Longrightarrow> \<not> is_stdarg r" for r by (cases r) simp_all
qed (simp_all add: headers_apart)

interpretation unit: two_headers "include_file T ip"
  "\<lambda>r. r = Stdint_file \<or> r = Limits_file" "\<lambda>h s. stdint_inv I h s \<and> limits_inv h s"
  "\<lambda>x. stdint_own x \<or> limits_own x" "\<lambda>x. stdint_uses x \<or> limits_uses x"
  "\<lambda>r. is_stddef r \<or> is_stdarg r" "\<lambda>h s. stddef_inv L (asked_items h) s \<and> stdarg_inv v (asked_va h) s"
  "\<lambda>x. stddef_own x \<or> stdarg_own x" "\<lambda>x. stddef_uses x \<or> stdarg_uses x"
proof
  show "r = Stdint_file \<or> r = Limits_file \<Longrightarrow> \<not> (is_stddef r \<or> is_stdarg r)" for r by auto
qed (use headers_apart in blast)+

text \<open>
  The start of a unit: none of the headers has been included and none of their names is in use. The
  \<open>stdbool.h\<close> of the include path is only known to keep the contract of a header, with names of its own.
\<close>

definition unit_start :: "int_types \<Rightarrow> string \<Rightarrow> cpp \<Rightarrow> bool" where
  "unit_start I v s \<longleftrightarrow> freestanding s \<and> fresh I s \<and> (\<forall>x \<in> set limits_names. macros s (Plain x) = None) \<and>
     stddef_unused s \<and> stdarg_state v False False s"

definition unit_own :: "name \<Rightarrow> bool" where
  "unit_own x \<longleftrightarrow> (stdint_own x \<or> limits_own x) \<or> (stddef_own x \<or> stdarg_own x)"

definition unit_uses :: "name \<Rightarrow> bool" where
  "unit_uses x \<longleftrightarrow> (stdint_uses x \<or> limits_uses x) \<or> (stddef_uses x \<or> stdarg_uses x)"

definition stdbool_keeps_contract :: "target \<Rightarrow> include_path \<Rightarrow> cpp \<Rightarrow> bool" where
  "stdbool_keeps_contract T ip s \<longleftrightarrow> (\<exists>binv bown buses. header (include_file T ip) (\<lambda>r. r = Stdbool_file) binv bown buses \<and>
     binv [] s \<and> (\<forall>x. unit_own x \<longrightarrow> \<not> buses x) \<and> (\<forall>x. bown x \<longrightarrow> \<not> unit_uses x))"

lemma all_files:
  assumes "unit_start I v s" "stdbool_keeps_contract T ip s"
  shows "stdint_inv I (rev rs) (fold (include_file T ip) rs s)" "limits_inv (rev rs) (fold (include_file T ip) rs s)"
    "stddef_inv s (asked_items (rev rs)) (fold (include_file T ip) rs s)" "stdarg_inv v (asked_va (rev rs)) (fold (include_file T ip) rs s)"
proof -
  obtain binv bown buses where b: "header (include_file T ip) (\<lambda>r. r = Stdbool_file) binv bown buses" "binv [] s"
      "\<And>x. unit_own x \<Longrightarrow> \<not> buses x" "\<And>x. bown x \<Longrightarrow> \<not> unit_uses x"
    using assms(2) by (auto simp: stdbool_keeps_contract_def)
  let ?mine = "\<lambda>r. (r = Stdint_file \<or> r = Limits_file) \<or> (is_stddef r \<or> is_stdarg r)"
  let ?inv = "\<lambda>h t. (stdint_inv I h t \<and> limits_inv h t) \<and> (stddef_inv s (asked_items h) t \<and> stdarg_inv v (asked_va h) t)"
  have "two_headers (include_file T ip) ?mine ?inv unit_own unit_uses (\<lambda>r. r = Stdbool_file) binv bown buses"
    unfolding unit_own_def unit_uses_def
  proof (rule two_headers.intro [OF unit.both.header_axioms b(1)], unfold_locales)
    show "(stdint_own x \<or> limits_own x) \<or> (stddef_own x \<or> stdarg_own x) \<Longrightarrow> \<not> buses x" for x
      using b(3) by (simp add: unit_own_def)
    show "bown x \<Longrightarrow> \<not> ((stdint_uses x \<or> limits_uses x) \<or> (stddef_uses x \<or> stdarg_uses x))" for x
      using b(4) by (simp add: unit_uses_def)
  qed auto
  moreover have "?inv [] s"
    using assms(1) stddef_inv_start by (simp add: unit_start_def stdint_inv_def limits_inv_def stdarg_inv_def fresh_def)
  moreover have "list_all (\<lambda>r. ?mine r \<or> r = Stdbool_file) rs"
    by (simp add: list_all_iff) (metis header_file.exhaust is_stddef.simps(1) is_stdarg.simps(1))
  ultimately have "?inv (rev rs @ []) (fold (include_file T ip) rs s)"
    using two_headers.both_included [of "include_file T ip" ?mine ?inv unit_own unit_uses "\<lambda>r. r = Stdbool_file" binv bown buses
        "[]" s rs] b(2) by blast
  then show "stdint_inv I (rev rs) (fold (include_file T ip) rs s)" "limits_inv (rev rs) (fold (include_file T ip) rs s)"
    "stddef_inv s (asked_items (rev rs)) (fold (include_file T ip) rs s)" "stdarg_inv v (asked_va (rev rs)) (fold (include_file T ip) rs s)"
    by simp_all
qed

lemma asked_set:
  "set (asked_items h) = {xs. Stddef_file xs \<in> set h}" "set (asked_va h) = {b. Stdarg_file b \<in> set h}"
proof -
  show "set (asked_items h) = {xs. Stddef_file xs \<in> set h}" by (induction h rule: asked_items.induct) auto
  show "set (asked_va h) = {b. Stdarg_file b \<in> set h}" by (induction h rule: asked_va.induct) auto
qed

text \<open>\<open>asks rs i\<close>: one of the inclusions \<open>rs\<close> of \<open>stddef.h\<close> provides the item \<open>i\<close>.\<close>

definition asks :: "header_file list \<Rightarrow> item \<Rightarrow> bool" where
  "asks rs = provided (asked_items rs)"

lemma asks_simps:
  "asks rs i \<longleftrightarrow> (\<exists>xs. Stddef_file xs \<in> set rs \<and> (i \<in> set xs \<or> i \<noteq> Wint \<and> xs = []))"
  by (auto simp: asks_def provided_def asked_set)

lemma included_exact:
  assumes "included I s"
  shows "types s (int_t k) = (if k \<in> widths I then Some (sname I k) else None)"
    "types s (uint_t k) = (if k \<in> widths I then Some (uname I k) else None)"
proof -
  note i = assms [unfolded included_def exact_def compiler_def from_level_def]
  have "k \<in> widths I \<Longrightarrow> 8 \<le> k" using i by (auto simp: levels_def)
  with i show "types s (int_t k) = (if k \<in> widths I then Some (sname I k) else None)"
    "types s (uint_t k) = (if k \<in> widths I then Some (uname I k) else None)" by (auto simp: for_widths_def)
qed

section \<open>Examples\<close>

text \<open>A \<open>stdbool.h\<close> as the C standard describes it, and the start of a unit for x86-64.\<close>

definition stdbool_names :: "string list" where
  "stdbool_names = [''__STDBOOL_H'', ''bool'', ''true'', ''false'', ''__bool_true_false_are_defined'']"

definition example_stdbool :: "cpp \<Rightarrow> cpp" where
  "example_stdbool = c_ifndef (Plain ''__STDBOOL_H'') [
     c_defines [''__STDBOOL_H''],
     c_define (Plain ''bool'') (Word ''_Bool''),
     c_define (Plain ''true'') (Expr (Num 1 '''')),
     c_define (Plain ''false'') (Expr (Num 0 '''')),
     c_define (Plain ''__bool_true_false_are_defined'') (Expr (Num 1 ''''))]"

definition example_path :: include_path where
  "example_path = \<lparr>next_stdint = None, next_limits = None,
     system = bare_platform, stdbool = example_stdbool\<rparr>"

definition x86_64_start :: cpp where
  "x86_64_start = \<lparr>macros = (predefined x86_64_types 201710)(
       Plain ''__SIZE_TYPE__'' \<mapsto> Word ''long unsigned int'', Plain ''__PTRDIFF_TYPE__'' \<mapsto> Word ''long int'',
       Plain ''__WCHAR_TYPE__'' \<mapsto> Word ''int''),
     types = [Plain ''__builtin_va_list'' \<mapsto> ''__builtin_va_list''], clean = True\<rparr>"

definition stdbool_inv :: "header_file list \<Rightarrow> cpp \<Rightarrow> bool" where
  "stdbool_inv h s \<longleftrightarrow> clean s \<and> (if Stdbool_file \<in> set h then c_defined (Plain ''__STDBOOL_H'') s
     else \<forall>x \<in> set stdbool_names. macros s (Plain x) = None)"

lemma stdbool_names_free:
  "set stdbool_names \<inter> set (stdint_names @ stdint_reads) = {}" "set stdbool_names \<inter> set (''__STDC_HOSTED__'' # limits_names) = {}"
  "set stdbool_names \<inter> set (stddef_names @ system_names @ language_names) = {}"
  "set stdbool_names \<inter> set (stdarg_names @ stdarg_systems) = {}"
  by (simp_all add: name_lists stdbool_names_def stddef_names_def)

lemma stdbool_names_unit: "x \<in> Plain ` set stdbool_names \<Longrightarrow> \<not> unit_own x \<and> \<not> unit_uses x"
proof -
  assume "x \<in> Plain ` set stdbool_names"
  then obtain y where x: "x = Plain y" "y \<in> set stdbool_names" by blast
  have no: "z \<in> A \<Longrightarrow> A \<inter> B = {} \<Longrightarrow> z \<notin> B" for z :: string and A B by blast
  have "\<not> unit_uses x"
    unfolding unit_uses_def x(1) own_plain using stdbool_names_free [THEN no [OF x(2)]] by (intro notI; elim disjE) simp_all
  moreover have "unit_own x \<Longrightarrow> unit_uses x" by (auto simp: unit_own_def unit_uses_def own_uses)
  ultimately show "\<not> unit_own x \<and> \<not> unit_uses x" by blast
qed

lemma example_contract:
  assumes "clean s" "\<forall>x \<in> set stdbool_names. macros s (Plain x) = None"
  shows "stdbool_keeps_contract T example_path s"
proof -
  have "header (include_file T example_path) (\<lambda>r. r = Stdbool_file) stdbool_inv (\<lambda>x. x \<in> Plain ` set stdbool_names)
      (\<lambda>x. x \<in> Plain ` set stdbool_names)"
  proof
    fix h s and r :: header_file
    assume inv: "stdbool_inv h s"
    then show "clean s" by (simp add: stdbool_inv_def)
    show "stdbool_inv (r # h) s'" if "r \<noteq> Stdbool_file" "clean s'"
      "\<And>x. x \<in> Plain ` set stdbool_names \<Longrightarrow> macros s' x = macros s x \<and> types s' x = types s x" for s'
      using inv that by (auto simp: stdbool_inv_def c_defined_def stdbool_names_def)
    show "stdbool_inv (r # h) (include_file T example_path r s)" if "r = Stdbool_file"
      using inv that by (cases "Stdbool_file \<in> set h")
        (auto simp: stdbool_inv_def c_defined_def stdbool_names_def example_path_def example_stdbool_def c_if_def)
    show "macros (include_file T example_path r s) x = macros s x \<and> types (include_file T example_path r s) x = types s x"
      if "r = Stdbool_file" "x \<notin> Plain ` set stdbool_names" for x
      using that by (auto simp: stdbool_names_def example_path_def example_stdbool_def c_if_def)
  qed
  moreover have "stdbool_inv [] s" using assms by (simp add: stdbool_inv_def)
  ultimately show ?thesis
    unfolding stdbool_keeps_contract_def using stdbool_names_unit by blast
qed

lemma x86_64_start_unit: "unit_start x86_64_types ''__builtin_va_list'' x86_64_start"
proof -
  have new: "''__SIZE_TYPE__'' \<notin> set (stdint_names @ stdint_reads)" "''__PTRDIFF_TYPE__'' \<notin> set (stdint_names @ stdint_reads)"
    "''__WCHAR_TYPE__'' \<notin> set (stdint_names @ stdint_reads)" "''__builtin_va_list'' \<notin> set (stdint_names @ stdint_reads)"
    by (simp_all add: name_lists)
  have "fresh x86_64_types x86_64_start"
  proof (rule fresh_frame [OF fresh_start])
    show "widths x86_64_types \<subseteq> set levels" by (rule target_examples)
    show "macros x86_64_start x = macros (start x86_64_types 201710) x \<and> types x86_64_start x = types (start x86_64_types 201710) x"
      if "stdint_uses x" for x
      using that new by (cases x) (auto simp: own_plain x86_64_start_def start_def)
  qed (simp add: x86_64_start_def)
  moreover have "freestanding x86_64_start" by (simp add: freestanding_def x86_64_start_def)
  moreover have "\<forall>x \<in> set limits_names. macros x86_64_start (Plain x) = None"
    by (simp add: name_lists x86_64_start_def)
  moreover have "stdarg_state ''__builtin_va_list'' False False x86_64_start"
    by (simp add: stdarg_state_def stdarg_systems_def stdarg_marks_def stdarg_macros_def x86_64_start_def)
  moreover have "stddef_unused x86_64_start"
  proof -
    have "names_types x86_64_start"
      unfolding names_types_def
    proof (intro allI impI)
      show "case macros x86_64_start (Plain (type_macro i)) of None \<Rightarrow> True | Some (Word w) \<Rightarrow> True | _ \<Rightarrow> False" if "i \<noteq> Null" for i
        using that by (cases i) (simp_all add: x86_64_start_def)
    qed
    moreover have "\<forall>x \<in> set (need_name i # item_marks i @ item_bare i). macros x86_64_start (Plain x) = None" for i
      by (cases i) (simp_all add: ptrdiff_marks_def size_marks_def wchar_marks_def x86_64_start_def)
    moreover have "i \<noteq> Null \<Longrightarrow> macros x86_64_start (Plain (item_name i)) = None \<and> types x86_64_start (Plain (item_name i)) = None" for i
      by (cases i) (simp_all add: x86_64_start_def)
    ultimately show ?thesis
      by (simp add: stddef_unused_def system_names_def whole_marks_def rest_names_def) (simp add: x86_64_start_def)
  qed
  ultimately show ?thesis by (simp add: unit_start_def)
qed

lemma x86_64_start_bool: "stdbool_keeps_contract T example_path x86_64_start"
  by (rule example_contract) (simp_all add: x86_64_start_def stdbool_names_def)

section \<open>Properties of the units\<close>

lemma included_least_types:
  assumes "included I s" "std k"
  shows "types s (int_least_t k) = map_option (sname I) (narrow (widths I) k)"
    "types s (uint_least_t k) = map_option (uname I) (narrow (widths I) k)"
    "types s (int_fast_t k) = map_option (sname I) (narrow (widths I) k)"
    "types s (uint_fast_t k) = map_option (uname I) (narrow (widths I) k)"
proof -
  have "8 \<le> k" using assms(2) by (auto simp: std_def)
  with assms show "types s (int_least_t k) = map_option (sname I) (narrow (widths I) k)"
    "types s (uint_least_t k) = map_option (uname I) (narrow (widths I) k)"
    "types s (int_fast_t k) = map_option (sname I) (narrow (widths I) k)"
    "types s (uint_fast_t k) = map_option (uname I) (narrow (widths I) k)"
    by (simp_all add: included_def leasts_def from_level_def least_type_def)
qed

text \<open>
  C38: The headers compose: from the start of a freestanding unit, any sequence of inclusions of
  \<open>stdint.h\<close>, \<open>limits.h\<close>, \<open>stddef.h\<close> (whole or for single items), \<open>stdarg.h\<close> (whole or for
  \<open>__gnuc_va_list\<close>) and a well-behaved \<open>stdbool.h\<close>, in any order and with any repetition, gives no
  diagnostic. The exact, and for 8, 16, 32 and 64 bits the least-width and fastest types of
  \<open>stdint.h\<close>, the items of \<open>stddef.h\<close> that were asked for, its \<open>max_align_t\<close> and \<open>nullptr_t\<close>, \<open>NULL\<close>,
  \<open>va_list\<close> and \<open>__gnuc_va_list\<close> are then what their header alone makes of the start. (Nothing is said
  here of the other types of \<open>stdint.h\<close>, nor of its macros and those of \<open>limits.h\<close>.)
\<close>

theorem headers_any_order:
  assumes "unit_start I v s" "stdbool_keeps_contract T ip s"
  defines "s' \<equiv> \<lambda>rs. fold (include_file T ip) rs s"
  shows "clean (s' rs) \<and>
    (Stdint_file \<in> set rs \<longrightarrow>
      (\<forall>k. types (s' rs) (int_t k) = (if k \<in> widths I then Some (sname I k) else None) \<and>
        types (s' rs) (uint_t k) = (if k \<in> widths I then Some (uname I k) else None)) \<and>
      (\<forall>k. std k \<longrightarrow>
        types (s' rs) (int_least_t k) = map_option (sname I) (narrow (widths I) k) \<and>
        types (s' rs) (uint_least_t k) = map_option (uname I) (narrow (widths I) k) \<and>
        types (s' rs) (int_fast_t k) = map_option (sname I) (narrow (widths I) k) \<and>
        types (s' rs) (uint_fast_t k) = map_option (uname I) (narrow (widths I) k))) \<and>
    (\<forall>i. i \<noteq> Null \<longrightarrow> types (s' rs) (Plain (item_name i)) = (if asks rs i then item_type s i else None)) \<and>
    types (s' rs) (Plain ''max_align_t'') = (if Stddef_file [] \<in> set rs \<and> c11 s then Some (max_align_struct s) else None) \<and>
    types (s' rs) (Plain ''nullptr_t'') = (if Stddef_file [] \<in> set rs \<and> cxx11 s then Some ''decltype(nullptr)'' else None) \<and>
    (asks rs Null \<longrightarrow> macros (s' rs) (Plain ''NULL'') = Some (null_body s)) \<and>
    types (s' rs) (Plain ''va_list'') = (if Stdarg_file False \<in> set rs then Some v else None) \<and>
    types (s' rs) (Plain ''__gnuc_va_list'') = (if \<exists>b. Stdarg_file b \<in> set rs then Some v else None)"
proof -
  note all = all_files [OF assms(1,2), of rs]
  have a: "provided (asked_items (rev rs)) = asks rs"
    by (simp add: fun_eq_iff asks_simps provided_def asked_set) blast
  have va: "False \<in> set (asked_va (rev rs)) \<longleftrightarrow> Stdarg_file False \<in> set rs" by (simp add: asked_set)
  have "asked_va (rev rs) \<noteq> [] \<longleftrightarrow> set (asked_va (rev rs)) \<noteq> {}" by (simp only: set_empty)
  also have "\<dots> \<longleftrightarrow> (\<exists>b. Stdarg_file b \<in> set rs)" unfolding asked_set by simp
  finally have some_va: "asked_va (rev rs) \<noteq> [] \<longleftrightarrow> (\<exists>b. Stdarg_file b \<in> set rs)" .
  have whole: "[] \<in> set (asked_items (rev rs)) \<longleftrightarrow> Stddef_file [] \<in> set rs" by (simp add: asked_set)
  have "clean (s' rs)" using all(1) by (simp add: stdint_inv_def s'_def)
  moreover have "Stdint_file \<in> set rs \<Longrightarrow> included I (s' rs)"
    using all(1) by (simp add: stdint_inv_def s'_def)
  note included_exact [OF this] included_least_types [OF this]
  moreover have d: "stddef_state s ([] \<in> set (asked_items (rev rs))) ([] \<in> set (asked_items (rev rs))) (asks rs) (\<lambda>_. False) (s' rs)"
    using all(3) by (simp add: stddef_inv_def s'_def a)
  have "i \<noteq> Null \<Longrightarrow> types (s' rs) (Plain (item_name i)) = (if asks rs i then item_type s i else None)" for i
    using d by (simp add: stddef_state_def item_state_def)
  moreover have "types (s' rs) (Plain ''max_align_t'') =
      (if Stddef_file [] \<in> set rs \<and> c11 s then Some (max_align_struct s) else None)"
    "types (s' rs) (Plain ''nullptr_t'') =
      (if Stddef_file [] \<in> set rs \<and> cxx11 s then Some ''decltype(nullptr)'' else None)"
    using d by (simp_all add: stddef_state_def rest_state_def whole)
  moreover have "asks rs Null \<Longrightarrow> macros (s' rs) (Plain ''NULL'') = Some (null_body s)"
    using d by (simp add: stddef_state_def)
  moreover have "types (s' rs) (Plain ''va_list'') = (if Stdarg_file False \<in> set rs then Some v else None)"
    "types (s' rs) (Plain ''__gnuc_va_list'') = (if \<exists>b. Stdarg_file b \<in> set rs then Some v else None)"
    using all(4) by (simp_all add: stdarg_inv_def stdarg_state_def va some_va s'_def)
  ultimately show ?thesis by (intro conjI allI impI)
qed

theorem headers_any_order_witness:
  "types (fold (include_file lp64 example_path) [Stddef_file [Wint], Stdint_file, Stddef_file [], Limits_file, Stdarg_file True, Stdint_file] x86_64_start)
     (Plain ''wint_t'') = Some ''unsigned int'' \<and>
   types (fold (include_file lp64 example_path) [Stddef_file [Wint], Stdint_file, Stddef_file [], Limits_file, Stdarg_file True, Stdint_file] x86_64_start)
     (Plain ''va_list'') = None"
proof -
  note w = headers_any_order [OF x86_64_start_unit x86_64_start_bool, of lp64
    "[Stddef_file [Wint], Stdint_file, Stddef_file [], Limits_file, Stdarg_file True, Stdint_file]"]
  have "item_type x86_64_start Wint = Some ''unsigned int''" by (simp add: item_type_def type_text_def x86_64_start_def)
  moreover have "asks [Stddef_file [Wint], Stdint_file, Stddef_file [], Limits_file, Stdarg_file True, Stdint_file] Wint"
    unfolding asks_simps by (rule exI [of _ "[Wint]"]) simp
  ultimately show ?thesis using w [THEN conjunct2, THEN conjunct2, THEN conjunct1, rule_format, of Wint] w by simp
qed

end
