(* ===== verification/Fat.thy ===== *)
theory Fat
  imports Machine
begin

text \<open>
  How the boot sector (\<open>boot/fat32/Boot1.asm\<close>) and the second stage
  (\<open>boot/fat32/Stage2_X86.asm\<close>) find a file on the FAT32 volume they were started from and
  read it into memory, in real mode, through the disk service of the BIOS. Both files contain
  the same routines \<open>ReadSector\<close>, \<open>GetNextCluster\<close> and \<open>ReadCluster\<close> and the same search of the
  root directory; they differ in the name they look for, in the address they load to, and in
  the file size, which only the second stage keeps.

  The registers a routine passes on are fields of the state, at their width, so that every
  truncation of the code is in the model. The BIOS is a parameter: read number \<open>n\<close> gets the
  drive and the disk address packet, that is the number of blocks, the offset and segment of the
  buffer and the sector number, and answers with the carry flag, the number of blocks that it
  writes back into the packet, and the memory it leaves (the reset of the drive that follows a
  failed read is part of the next answer). The code fills in the packet for every call, except
  for the number of blocks: this is part of the state. The stack, the packet and the variables
  of the loaders are kept outside the model's memory: the volumes of the theorems are such that
  nothing is read over them.
\<close>

section \<open>The state in real mode\<close>

type_synonym int13 = "nat \<Rightarrow> u8 \<Rightarrow> u16 \<Rightarrow> u16 \<Rightarrow> u16 \<Rightarrow> u64 \<Rightarrow> memory \<Rightarrow> bool \<times> u16 \<times> memory"

record real_mode =
  ram :: memory
  es :: u16
  bx :: u16
  esi :: u32
  bPhysicalDriveNum :: u8
  DAP_count :: u16
  kernel_size :: u32
  int13_calls :: nat

text \<open>The two ways the code gives up (\<open>cli\<close>, \<open>hlt\<close>), and the processor's divide error.\<close>

datatype stop = Read_error | Not_found | Divide_error

definition linear :: "u16 \<Rightarrow> u16 \<Rightarrow> u64" where
  "linear seg off = 16 * ucast seg + ucast off"

text \<open>The fields of the boot parameter block at 0x7C00 that the code reads.\<close>

definition wBytesPerSector :: "memory \<Rightarrow> u16" where
  "wBytesPerSector m = load16 m (0x7C00 + 0x0B)"

definition bSectorsPerCluster :: "memory \<Rightarrow> u8" where
  "bSectorsPerCluster m = m (0x7C00 + 0x0D)"

definition wReservedSectors :: "memory \<Rightarrow> u16" where
  "wReservedSectors m = load16 m (0x7C00 + 0x0E)"

definition bNumFATs :: "memory \<Rightarrow> u8" where
  "bNumFATs m = m (0x7C00 + 0x10)"

definition dHiddenSectors :: "memory \<Rightarrow> u32" where
  "dHiddenSectors m = load32 m (0x7C00 + 0x1C)"

definition dSectorsPerFat32 :: "memory \<Rightarrow> u32" where
  "dSectorsPerFat32 m = load32 m (0x7C00 + 0x24)"

definition dRootDirStart :: "memory \<Rightarrow> u32" where
  "dRootDirStart m = load32 m (0x7C00 + 0x2C)"

section \<open>Reading sectors\<close>

text \<open>
  The attempts at one sector, \<open>di\<close> of them left; \<open>eax\<close> is the sector. What the BIOS has written
  to the number of blocks stays in the packet, for the next attempt and the next sector.
\<close>

fun read_attempts :: "int13 \<Rightarrow> nat \<Rightarrow> u32 \<Rightarrow> real_mode \<Rightarrow> stop + real_mode" where
  "read_attempts int13 0 eax s = Inl Read_error"
| "read_attempts int13 (Suc di) eax s =
     (let (carry, count, m) = int13 (int13_calls s) (bPhysicalDriveNum s) (DAP_count s) (bx s) (es s) (ucast eax) (ram s);
          s = s\<lparr>ram := m, DAP_count := count, int13_calls := int13_calls s + 1\<rparr>
      in if carry then read_attempts int13 di eax s else Inr s)"

text \<open>The buffer moves on by a sector; the carry of \<open>bx\<close> goes to the segment.\<close>

definition advance_buffer :: "real_mode \<Rightarrow> real_mode" where
  "advance_buffer s =
     (let new = bx s + wBytesPerSector (ram s)
      in if unat (bx s) + unat (wBytesPerSector (ram s)) < 2 ^ 16 then s\<lparr>bx := new\<rparr>
         else s\<lparr>bx := new, es := es s + 0x1000\<rparr>)"

fun read_sectors :: "int13 \<Rightarrow> nat \<Rightarrow> u32 \<Rightarrow> real_mode \<Rightarrow> stop + real_mode" where
  "read_sectors int13 0 eax s = Inr s"
| "read_sectors int13 (Suc cx) eax s =
     (case read_attempts int13 5 eax s of
        Inl e \<Rightarrow> Inl e
      | Inr s \<Rightarrow> read_sectors int13 cx (eax + 1) (advance_buffer s))"

text \<open>\<open>loop\<close> counts \<open>cx\<close> down before it tests it, so 0 stands for 65536.\<close>

definition ReadSector :: "int13 \<Rightarrow> u32 \<Rightarrow> u16 \<Rightarrow> real_mode \<Rightarrow> stop + real_mode" where
  "ReadSector int13 eax cx s = read_sectors int13 (if cx = 0 then 65536 else unat cx) eax s"

section \<open>Clusters\<close>

definition GetNextCluster :: "int13 \<Rightarrow> real_mode \<Rightarrow> stop + real_mode" where
  "GetNextCluster int13 s =
     (let si = ucast (esi s) :: u16;
          ax = push_bit 2 si;
          sector = wBytesPerSector (ram s)
      in if sector = 0 then Inl Divide_error
         else (let dx = ax mod sector;
                   ax = ax div sector + ucast (dHiddenSectors (ram s)) + wReservedSectors (ram s)
               in case ReadSector int13 (ucast ax) 1 (s\<lparr>es := 0, bx := 0x4000\<rparr>) of
                    Inl e \<Rightarrow> Inl e
                  | Inr s \<Rightarrow> Inr (s\<lparr>es := 0, bx := 0x4000, esi := load32 (ram s) (linear 0 (0x4000 + dx))\<rparr>)))"

definition ReadCluster :: "int13 \<Rightarrow> real_mode \<Rightarrow> stop + real_mode" where
  "ReadCluster int13 s =
     (let ax = (ucast (esi s) :: u16) - 2;
          eax = ucast (ax * ucast (bSectorsPerCluster (ram s))) + load32 (ram s) (0x7C00 + 0x34) + dHiddenSectors (ram s)
      in case ReadSector int13 eax (ucast (bSectorsPerCluster (ram s))) s of
           Inl e \<Rightarrow> Inl e
         | Inr s \<Rightarrow>
             (let s = s\<lparr>ram := store16 (ram s) (0x7C00 + 0x3C) (bx s)\<rparr>;
                  saved_es = es s
              in case GetNextCluster int13 s of
                   Inl e \<Rightarrow> Inl e
                 | Inr s \<Rightarrow>
                     (let m = store32 (ram s) (0x7C00 + 0x38) (esi s)
                      in Inr (s\<lparr>ram := m, es := saved_es, bx := load16 m (0x7C00 + 0x3C),
                           esi := load32 m (0x7C00 + 0x38)\<rparr>))))"

text \<open>The loop of \<open>LoadFile\<close>: it need not end on a volume with a cyclic chain.\<close>

partial_function (option) load_clusters :: "int13 \<Rightarrow> real_mode \<Rightarrow> (stop + real_mode) option" where
  "load_clusters int13 s =
     (case ReadCluster int13 s of
        Inl e \<Rightarrow> Some (Inl e)
      | Inr s \<Rightarrow> if esi s < 0x0FFFFFF8 then load_clusters int13 s else Some (Inr s))"

definition LoadFile :: "int13 \<Rightarrow> u16 \<Rightarrow> real_mode \<Rightarrow> (stop + real_mode) option" where
  "LoadFile int13 buffer s = load_clusters int13 (s\<lparr>es := 0, bx := buffer\<rparr>)"

section \<open>The root directory\<close>

type_synonym name = "u8 list"

text \<open>\<open>repe cmpsb\<close> over the eleven bytes of a name.\<close>

definition same_name :: "name \<Rightarrow> real_mode \<Rightarrow> u16 \<Rightarrow> bool" where
  "same_name name s di \<longleftrightarrow> map (\<lambda>i. ram s (linear (es s) (di + of_nat i))) [0..<11] = name"

datatype found = Found u16 | End_of_root | Not_here

fun scan_entries :: "name \<Rightarrow> nat \<Rightarrow> u16 \<Rightarrow> real_mode \<Rightarrow> found" where
  "scan_entries name 0 di s = Not_here"
| "scan_entries name (Suc dx) di s =
     (if ram s (linear (es s) di) = 0 then End_of_root
      else if same_name name s di then Found di
      else scan_entries name dx (di + 0x20) s)"

partial_function (option) search_root :: "int13 \<Rightarrow> name \<Rightarrow> real_mode \<Rightarrow> (stop + u16 \<times> real_mode) option" where
  "search_root int13 name s =
     (case ReadCluster int13 (s\<lparr>es := 0, bx := 0x1000\<rparr>) of
        Inl e \<Rightarrow> Some (Inl e)
      | Inr s \<Rightarrow>
          (case scan_entries name 32 0x1000 s of
             Found di \<Rightarrow> Some (Inr (di, s))
           | End_of_root \<Rightarrow> Some (Inl Not_found)
           | Not_here \<Rightarrow> if esi s < 0x0FFFFFF8 then search_root int13 name s else Some (Inl Not_found)))"

text \<open>The first data sector, kept in a reserved field of the parameter block, and the search.\<close>

definition first_data_sector :: "memory \<Rightarrow> u32" where
  "first_data_sector m = ucast (bNumFATs m) * dSectorsPerFat32 m + ucast (wReservedSectors m)"

definition find_file :: "int13 \<Rightarrow> name \<Rightarrow> u8 \<Rightarrow> real_mode \<Rightarrow> (stop + u16 \<times> real_mode) option" where
  "find_file int13 name dl s =
     (let m = store32 (ram s) (0x7C00 + 0x34) (first_data_sector (ram s))
      in search_root int13 name (s\<lparr>bPhysicalDriveNum := dl, ram := m, esi := dRootDirStart m\<rparr>))"

text \<open>The start cluster of the entry at \<open>es:di\<close>, from its two halves.\<close>

definition entry_cluster :: "real_mode \<Rightarrow> u16 \<Rightarrow> u32" where
  "entry_cluster s di =
     push_bit 16 (ucast (load16 (ram s) (linear (es s) (di + 0x14)))) OR
     ucast (load16 (ram s) (linear (es s) (di + 0x1A)))"

section \<open>The two stages\<close>

text \<open>Each stage has a packet of its own in its image, with 1 for the number of blocks.\<close>

definition szStage2 :: name where
  "szStage2 = [0x53, 0x54, 0x41, 0x47, 0x45, 0x32, 0x20, 0x20, 0x53, 0x59, 0x53]"

definition syskrnldr :: name where
  "syskrnldr = [0x4B, 0x52, 0x4E, 0x4C, 0x44, 0x52, 0x20, 0x20, 0x42, 0x49, 0x4E]"

definition Boot1 :: "int13 \<Rightarrow> u8 \<Rightarrow> real_mode \<Rightarrow> (stop + real_mode) option" where
  "Boot1 int13 dl s =
     Option.bind (find_file int13 szStage2 dl (s\<lparr>DAP_count := 1\<rparr>))
       (\<lambda>r. case r of
          Inl e \<Rightarrow> Some (Inl e)
        | Inr (di, s) \<Rightarrow> LoadFile int13 0x7E00 (s\<lparr>esi := entry_cluster s di\<rparr>))"

definition FixCS :: "int13 \<Rightarrow> u8 \<Rightarrow> real_mode \<Rightarrow> (stop + real_mode) option" where
  "FixCS int13 dl s =
     Option.bind (find_file int13 syskrnldr dl (s\<lparr>DAP_count := 1\<rparr>))
       (\<lambda>r. case r of
          Inl e \<Rightarrow> Some (Inl e)
        | Inr (di, s) \<Rightarrow>
            LoadFile int13 0x500
              (s\<lparr>kernel_size := load32 (ram s) (linear (es s) (di + 0x1C)), esi := entry_cluster s di\<rparr>))"

end
