(* ===== verification/FatCorrect.thy ===== *)
theory FatCorrect
  imports Fat
begin

text \<open>
  What the loaders' disk routines do on a FAT32 volume. The abstract side is a disk (sectors of
  bytes), the chain of clusters its allocation table describes and the bytes of the file in such
  a chain. The lemmas go up the call tree: one sector, a run of sectors, one cluster with its
  successor, a whole chain, the search of the root directory.
\<close>

section \<open>The volume\<close>

type_synonym disk = "u32 \<Rightarrow> nat \<Rightarrow> u8"

text \<open>
  The documented behaviour of the disk service for a drive and a request of one block: no call
  writes outside the buffer; a call without carry has put the sector into the buffer and leaves
  1 for the number of blocks, the blocks that were transferred; a call with carry leaves 0.
\<close>

definition reads_disk :: "int13 \<Rightarrow> u8 \<Rightarrow> disk \<Rightarrow> bool" where
  "reads_disk int13 drive disk \<longleftrightarrow> (\<forall>n off seg lba m carry count m'. unat off + 512 \<le> 2 ^ 16 \<longrightarrow>
     int13 n drive 1 off seg (ucast lba) m = (carry, count, m') \<longrightarrow>
       only_changes m m' (unat (linear seg off)) (unat (linear seg off) + 512) \<and>
       count = (if carry then 0 else 1) \<and>
       (\<not> carry \<longrightarrow> (\<forall>i < 512. m' (linear seg off + of_nat i) = disk lba i)))"

text \<open>
  The packet asks for one block, and the drive has no fault when it is asked for one. (After a
  fault the packet asks for no block at all, see \<open>read_sectors_empty\<close>.)
\<close>

definition no_faults :: "int13 \<Rightarrow> u8 \<Rightarrow> bool" where
  "no_faults int13 drive \<longleftrightarrow> (\<forall>n off seg lba m. \<not> fst (int13 n drive 1 off seg lba m))"

definition steady :: "int13 \<Rightarrow> real_mode \<Rightarrow> bool" where
  "steady int13 s \<longleftrightarrow> no_faults int13 (bPhysicalDriveNum s) \<and> DAP_count s = 1"

lemma steady_update [simp]:
  "steady int13 (s\<lparr>ram := m\<rparr>) = steady int13 s" "steady int13 (s\<lparr>es := a\<rparr>) = steady int13 s"
  "steady int13 (s\<lparr>bx := b\<rparr>) = steady int13 s" "steady int13 (s\<lparr>esi := c\<rparr>) = steady int13 s"
  "steady int13 (s\<lparr>kernel_size := z\<rparr>) = steady int13 s" "steady int13 (s\<lparr>int13_calls := n\<rparr>) = steady int13 s"
  by (simp_all add: steady_def)

text \<open>A request for no block is answered without carry, and nothing is transferred.\<close>

definition empty_request :: "int13 \<Rightarrow> u8 \<Rightarrow> bool" where
  "empty_request int13 drive \<longleftrightarrow> (\<forall>n off seg lba m. int13 n drive 0 off seg lba m = (False, 0, m))"

text \<open>The layout of the volume as its parameter block (in memory \<open>m\<close>) describes it.\<close>

definition cluster_sectors :: "memory \<Rightarrow> nat" where
  "cluster_sectors m = unat (bSectorsPerCluster m)"

definition cluster_size :: "memory \<Rightarrow> nat" where
  "cluster_size m = 512 * cluster_sectors m"

definition fat_start :: "memory \<Rightarrow> nat" where
  "fat_start m = unat (dHiddenSectors m) + unat (wReservedSectors m)"

definition data_start :: "memory \<Rightarrow> nat" where
  "data_start m = fat_start m + unat (bNumFATs m) * unat (dSectorsPerFat32 m)"

definition cluster_byte :: "disk \<Rightarrow> memory \<Rightarrow> u32 \<Rightarrow> nat \<Rightarrow> u8" where
  "cluster_byte disk m c i =
     disk (of_nat (data_start m + (unat c - 2) * cluster_sectors m + i div 512)) (i mod 512)"

definition fat_sector :: "memory \<Rightarrow> u32 \<Rightarrow> u32" where
  "fat_sector m c = of_nat (fat_start m + unat c div 128)"

definition fat_next :: "disk \<Rightarrow> memory \<Rightarrow> u32 \<Rightarrow> u32" where
  "fat_next disk m c = load32 (\<lambda>x. disk (fat_sector m c) (unat x)) (of_nat (4 * (unat c mod 128)))"

text \<open>The volumes and clusters within the reach of the code's 16-bit arithmetic.\<close>

definition volume :: "memory \<Rightarrow> bool" where
  "volume m \<longleftrightarrow> wBytesPerSector m = 512 \<and> 0 < cluster_sectors m \<and>
     fat_start m + 128 \<le> 2 ^ 16 \<and> data_start m + 2 ^ 17 \<le> 2 ^ 32"

definition in_reach :: "memory \<Rightarrow> u32 \<Rightarrow> bool" where
  "in_reach m c \<longleftrightarrow> 2 \<le> unat c \<and> unat c < 16384 \<and> (unat c - 2) * cluster_sectors m < 2 ^ 16"

text \<open>A chain of clusters that ends with an end-of-chain mark, and the bytes of its file.\<close>

fun chain :: "(u32 \<Rightarrow> u32) \<Rightarrow> u32 \<Rightarrow> u32 list \<Rightarrow> bool" where
  "chain nxt c [] \<longleftrightarrow> \<not> c < 0x0FFFFFF8"
| "chain nxt c (d # ds) \<longleftrightarrow> c = d \<and> chain nxt (nxt c) ds"

definition file_chain :: "disk \<Rightarrow> memory \<Rightarrow> u32 \<Rightarrow> u32 list \<Rightarrow> bool" where
  "file_chain disk m c cs \<longleftrightarrow> cs \<noteq> [] \<and> chain (fat_next disk m) c cs \<and> list_all (in_reach m) cs"

definition file_byte :: "disk \<Rightarrow> memory \<Rightarrow> u32 list \<Rightarrow> nat \<Rightarrow> u8" where
  "file_byte disk m cs i = cluster_byte disk m (cs ! (i div cluster_size m)) (i mod cluster_size m)"

text \<open>
  The root directory as the code searches it: of every cluster the first 32 entries of 32 bytes,
  up to an entry that starts with 0 or has the name.
\<close>

definition slot_name :: "(nat \<Rightarrow> u8) \<Rightarrow> nat \<Rightarrow> name" where
  "slot_name f j = map (\<lambda>i. f (32 * j + i)) [0..<11]"

definition first_slot :: "name \<Rightarrow> (nat \<Rightarrow> u8) \<Rightarrow> nat option" where
  "first_slot name f = find (\<lambda>j. f (32 * j) = 0 \<or> slot_name f j = name) [0..<32]"

fun root_lookup :: "name \<Rightarrow> (u32 \<Rightarrow> nat \<Rightarrow> u8) \<Rightarrow> u32 list \<Rightarrow> (u32 \<times> nat) option" where
  "root_lookup name f [] = None"
| "root_lookup name f (c # cs) =
     (case first_slot name (f c) of
        None \<Rightarrow> root_lookup name f cs
      | Some j \<Rightarrow> if f c (32 * j) = 0 then None else Some (c, j))"

definition slot_cluster :: "(nat \<Rightarrow> u8) \<Rightarrow> nat \<Rightarrow> u32" where
  "slot_cluster f j =
     push_bit 16 (ucast (load16 (\<lambda>x. f (unat x)) (of_nat (32 * j + 0x14)))) OR
     ucast (load16 (\<lambda>x. f (unat x)) (of_nat (32 * j + 0x1A)))"

definition slot_size :: "(nat \<Rightarrow> u8) \<Rightarrow> nat \<Rightarrow> u32" where
  "slot_size f j = load32 (\<lambda>x. f (unat x)) (of_nat (32 * j + 0x1C))"

text \<open>A file of the root directory: its entry, and the chain of its clusters.\<close>

definition root_file :: "disk \<Rightarrow> memory \<Rightarrow> u32 list \<Rightarrow> name \<Rightarrow> u32 \<times> nat \<Rightarrow> u32 list \<Rightarrow> bool" where
  "root_file disk m rs name entry cs \<longleftrightarrow>
     root_lookup name (cluster_byte disk m) rs = Some entry \<and>
     file_chain disk m (slot_cluster (cluster_byte disk m (fst entry)) (snd entry)) cs"

definition root_directory :: "disk \<Rightarrow> memory \<Rightarrow> u32 list \<Rightarrow> bool" where
  "root_directory disk m rs \<longleftrightarrow> file_chain disk m (dRootDirStart m) rs \<and>
     0x400 \<le> cluster_size m \<and> cluster_size m \<le> 0x6000"

section \<open>Sectors\<close>

lemma linear_0: "linear 0 off = ucast off"
  by (simp add: linear_def)

lemma unat_ucast16 [simp]: "unat (ucast (a :: u16) :: u64) = unat a" "unat (ucast a :: u32) = unat a"
proof -
  have "unat a < 2 ^ LENGTH(16)" by (rule unsigned_less)
  then have "take_bit 64 (unat a) = unat a" "take_bit 32 (unat a) = unat a"
    by (intro take_bit_nat_eq_self; simp)+
  then show "unat (ucast a :: u64) = unat a" "unat (ucast a :: u32) = unat a"
    by (simp_all add: unsigned_ucast_eq)
qed

lemma unat_ucast8 [simp]: "unat (ucast (a :: u8) :: u16) = unat a"
proof -
  have "unat a < 2 ^ LENGTH(8)" by (rule unsigned_less)
  then have "take_bit 16 (unat a) = unat a" by (intro take_bit_nat_eq_self) simp
  then show ?thesis by (simp add: unsigned_ucast_eq)
qed

lemma ucast_16: "(ucast (a :: u16) :: u64) = of_nat (unat a)"
  by (rule word_unat_eq_iff [THEN iffD2])
    (use unsigned_less [of a] in \<open>simp add: unat_of_nat take_bit_nat_eq_self\<close>)

lemma unat_add16: "unat a + n < 2 ^ 16 \<Longrightarrow> unat (a + of_nat n) = unat a + n" for a :: u16
  by (simp add: unat_word_ariths unat_of_nat take_bit_nat_eq_self)

text \<open>One sector: without faults the first attempt decides.\<close>

lemma read_attempts_ok:
  assumes "reads_disk int13 (bPhysicalDriveNum s) disk" "steady int13 s" "unat (bx s) + 512 \<le> 2 ^ 16"
  shows "\<exists>m' n'. read_attempts int13 (Suc di) eax s = Inr (s\<lparr>ram := m', int13_calls := n'\<rparr>) \<and>
    only_changes (ram s) m' (unat (linear (es s) (bx s))) (unat (linear (es s) (bx s)) + 512) \<and>
    (\<forall>i < 512. m' (linear (es s) (bx s) + of_nat i) = disk eax i)"
proof -
  obtain carry count m where call:
    "int13 (int13_calls s) (bPhysicalDriveNum s) 1 (bx s) (es s) (ucast eax) (ram s) = (carry, count, m)"
    by (metis prod_cases3)
  have one: "DAP_count s = 1" and "\<not> carry"
    using assms(2) call unfolding steady_def no_faults_def by (metis fst_conv)+
  have "only_changes (ram s) m (unat (linear (es s) (bx s))) (unat (linear (es s) (bx s)) + 512) \<and>
      count = (if carry then 0 else 1) \<and> (\<not> carry \<longrightarrow> (\<forall>i < 512. m (linear (es s) (bx s) + of_nat i) = disk eax i))"
    using assms(1,3) call unfolding reads_disk_def by blast
  with \<open>\<not> carry\<close> have eff: "count = 1"
    "only_changes (ram s) m (unat (linear (es s) (bx s))) (unat (linear (es s) (bx s)) + 512)"
    "\<forall>i < 512. m (linear (es s) (bx s) + of_nat i) = disk eax i"
    by simp_all
  have "s\<lparr>ram := m, DAP_count := 1, int13_calls := n\<rparr> = s\<lparr>ram := m, int13_calls := n\<rparr>" for n
    using one by (cases s) simp
  with call one \<open>\<not> carry\<close> eff(1)
  have "read_attempts int13 (Suc di) eax s = Inr (s\<lparr>ram := m, int13_calls := int13_calls s + 1\<rparr>)" by simp
  with eff(2,3) show ?thesis by blast
qed

text \<open>A run of sectors into a buffer below 64 KiB that leaves the parameter block alone.\<close>

definition apart_from_block :: "nat \<Rightarrow> nat \<Rightarrow> bool" where
  "apart_from_block lo hi \<longleftrightarrow> hi \<le> 0x7C00 \<or> 0x7E00 \<le> lo"

lemma bytes_per_sector_frame:
  assumes "only_changes m m' lo hi" "apart_from_block lo hi"
  shows "wBytesPerSector m' = wBytesPerSector m"
  unfolding wBytesPerSector_def
  by (rule load16_frame [OF assms(1)]) (use assms(2) in \<open>auto simp: apart_from_block_def\<close>)

lemma read_sectors_ok:
  assumes "reads_disk int13 (bPhysicalDriveNum s) disk" "steady int13 s"
    and "es s = 0" "wBytesPerSector (ram s) = 512"
    and "unat (bx s) + 512 * n < 2 ^ 16" "apart_from_block (unat (bx s)) (unat (bx s) + 512 * n)"
  shows "\<exists>m' k. read_sectors int13 n eax s = Inr (s\<lparr>ram := m', int13_calls := k, bx := bx s + of_nat (512 * n)\<rparr>) \<and>
    only_changes (ram s) m' (unat (bx s)) (unat (bx s) + 512 * n) \<and>
    (\<forall>i < 512 * n. m' (of_nat (unat (bx s) + i)) = disk (eax + of_nat (i div 512)) (i mod 512))"
  using assms
proof (induction n arbitrary: s eax)
  case 0
  then show ?case by (auto intro!: exI [of _ "ram s"] exI [of _ "int13_calls s"])
next
  case (Suc n)
  let ?b = "unat (bx s)"
  from read_attempts_ok [OF Suc.prems(1,2), of 4 eax] Suc.prems(3,5)
  obtain m1 n1 where one: "read_attempts int13 5 eax s = Inr (s\<lparr>ram := m1, int13_calls := n1\<rparr>)"
    "only_changes (ram s) m1 ?b (?b + 512)" "\<forall>i < 512. m1 (ucast (bx s) + of_nat i) = disk eax i"
    by (auto simp: linear_0)
  let ?s1 = "s\<lparr>ram := m1, int13_calls := n1\<rparr>"
  have bps: "wBytesPerSector m1 = 512"
    using bytes_per_sector_frame [OF one(2)] Suc.prems(4,6) by (auto simp: apart_from_block_def)
  have adv: "advance_buffer ?s1 = ?s1\<lparr>bx := bx s + 512\<rparr>"
    using Suc.prems(5) by (simp add: advance_buffer_def Let_def bps)
  have nb: "unat (bx s + 512) = ?b + 512" using unat_add16 [of "bx s" 512] Suc.prems(5) by simp
  let ?s2 = "?s1\<lparr>bx := bx s + 512\<rparr>"
  have pre: "reads_disk int13 (bPhysicalDriveNum ?s2) disk" "steady int13 ?s2"
    "es ?s2 = 0" "wBytesPerSector (ram ?s2) = 512" "unat (bx ?s2) + 512 * n < 2 ^ 16"
    "apart_from_block (unat (bx ?s2)) (unat (bx ?s2) + 512 * n)"
    using Suc.prems bps by (auto simp: nb apart_from_block_def)
  from Suc.IH [OF this, of "eax + 1"] obtain m' k where
    rest: "read_sectors int13 n (eax + 1) ?s2 = Inr (?s2\<lparr>ram := m', int13_calls := k, bx := bx ?s2 + of_nat (512 * n)\<rparr>)"
      "only_changes m1 m' (?b + 512) (?b + 512 + 512 * n)"
      "\<And>i. i < 512 * n \<Longrightarrow> m' (of_nat (?b + 512 + i)) = disk (eax + 1 + of_nat (i div 512)) (i mod 512)"
    by (auto simp: nb)
  have run: "read_sectors int13 (Suc n) eax s = Inr (s\<lparr>ram := m', int13_calls := k, bx := bx s + of_nat (512 * Suc n)\<rparr>)"
    using one(1) adv rest(1) by (simp add: add.assoc)
  have chg: "only_changes (ram s) m' ?b (?b + 512 * Suc n)"
    by (rule only_changes_trans [OF only_changes_mono [OF one(2)] only_changes_mono [OF rest(2)]]) simp_all
  have "m' (of_nat (?b + i)) = disk (eax + of_nat (i div 512)) (i mod 512)" if i: "i < 512 * Suc n" for i
  proof (cases "i < 512")
    case True
    then have "unat (of_nat (?b + i) :: u64) = ?b + i" using Suc.prems(5) by (intro unat_of_nat_u64) simp
    with only_changesD [OF rest(2), of "of_nat (?b + i)"] True
    have "m' (of_nat (?b + i)) = m1 (of_nat (?b + i))" by simp
    also have "\<dots> = disk eax i"
      using one(3) True unfolding ucast_16 of_nat_add by blast
    finally show ?thesis using True by simp
  next
    case False
    then obtain j where j: "i = 512 + j" by (metis le_Suc_ex not_less)
    then have "i div 512 = Suc (j div 512)" by simp
    with rest(3) [of j] i j show ?thesis by (simp add: add.assoc)
  qed
  with run chg show ?case by blast
qed

section \<open>After a fault\<close>

lemma advance_buffer_keeps [simp]:
  "ram (advance_buffer s) = ram s" "DAP_count (advance_buffer s) = DAP_count s"
  "bPhysicalDriveNum (advance_buffer s) = bPhysicalDriveNum s" "int13_calls (advance_buffer s) = int13_calls s"
  "bx (advance_buffer s) = bx s + wBytesPerSector (ram s)"
  by (simp_all add: advance_buffer_def Let_def)

lemma read_attempts_empty:
  assumes "empty_request int13 (bPhysicalDriveNum s)" "DAP_count s = 0"
  shows "read_attempts int13 (Suc di) eax s = Inr (s\<lparr>int13_calls := int13_calls s + 1\<rparr>)"
  using assms by (cases s) (simp add: empty_request_def)

text \<open>A packet that asks for no block stays one: nothing is read, and nobody is told.\<close>

lemma read_sectors_empty:
  assumes "empty_request int13 (bPhysicalDriveNum s)" "DAP_count s = 0"
  shows "\<exists>s'. read_sectors int13 n eax s = Inr s' \<and> ram s' = ram s \<and> DAP_count s' = 0 \<and>
    bPhysicalDriveNum s' = bPhysicalDriveNum s \<and> bx s' = bx s + of_nat n * wBytesPerSector (ram s)"
  using assms
proof (induction n arbitrary: s eax)
  case (Suc n)
  let ?s = "advance_buffer (s\<lparr>int13_calls := int13_calls s + 1\<rparr>)"
  have "read_sectors int13 (Suc n) eax s = read_sectors int13 n (eax + 1) ?s"
    using read_attempts_empty [OF Suc.prems, of 4 eax] by simp
  with Suc.IH [of ?s "eax + 1"] Suc.prems show ?case by (simp add: algebra_simps)
qed simp

lemma read_sectors_fault:
  assumes "reads_disk int13 (bPhysicalDriveNum s) disk" "empty_request int13 (bPhysicalDriveNum s)"
    and "DAP_count s = 1" "unat (bx s) + 512 \<le> 2 ^ 16"
    and "fst (int13 (int13_calls s) (bPhysicalDriveNum s) 1 (bx s) (es s) (ucast eax) (ram s))"
  shows "\<exists>s'. read_sectors int13 (Suc n) eax s = Inr s' \<and> DAP_count s' = 0 \<and>
    only_changes (ram s) (ram s') (unat (linear (es s) (bx s))) (unat (linear (es s) (bx s)) + 512) \<and>
    bx s' = bx s + of_nat (Suc n) * wBytesPerSector (ram s')"
proof -
  obtain count m where call:
    "int13 (int13_calls s) (bPhysicalDriveNum s) 1 (bx s) (es s) (ucast eax) (ram s) = (True, count, m)"
    using assms(5) by (metis prod.collapse)
  have "only_changes (ram s) m (unat (linear (es s) (bx s))) (unat (linear (es s) (bx s)) + 512) \<and> count = 0"
    using assms(1,4) call unfolding reads_disk_def by (metis (full_types))
  then have eff: "count = 0"
    "only_changes (ram s) m (unat (linear (es s) (bx s))) (unat (linear (es s) (bx s)) + 512)" by simp_all
  let ?s = "s\<lparr>ram := m, DAP_count := 0, int13_calls := int13_calls s + 1\<rparr>"
  have "read_attempts int13 5 eax s = read_attempts int13 (Suc 3) eax ?s"
    using call assms(3) eff(1) by (simp add: eval_nat_numeral)
  also have "\<dots> = Inr (?s\<lparr>int13_calls := int13_calls ?s + 1\<rparr>)"
    by (rule read_attempts_empty) (use assms(2) in simp_all)
  finally have "read_sectors int13 (Suc n) eax s =
      read_sectors int13 n (eax + 1) (advance_buffer (?s\<lparr>int13_calls := int13_calls ?s + 1\<rparr>))" by simp
  with read_sectors_empty [of int13 "advance_buffer (?s\<lparr>int13_calls := int13_calls ?s + 1\<rparr>)" n "eax + 1"] assms(2) eff(2)
  show ?thesis by (simp add: algebra_simps) fastforce
qed

section \<open>One cluster\<close>

text \<open>The fields of the parameter block that the code only reads stay what they are.\<close>

definition block_kept :: "memory \<Rightarrow> memory \<Rightarrow> bool" where
  "block_kept m0 m \<longleftrightarrow> agree m0 m 0x7C00 0x7C34"

lemma block_keptD:
  assumes "block_kept m0 m"
  shows "wBytesPerSector m = wBytesPerSector m0" "bSectorsPerCluster m = bSectorsPerCluster m0"
    "wReservedSectors m = wReservedSectors m0" "bNumFATs m = bNumFATs m0"
    "dHiddenSectors m = dHiddenSectors m0" "dSectorsPerFat32 m = dSectorsPerFat32 m0"
    "dRootDirStart m = dRootDirStart m0"
proof -
  have w: "load16 m a = load16 m0 a" "load32 m a = load32 m0 a" "m a = m0 a"
    if "0x7C00 \<le> unat a" "unat a + 4 \<le> 0x7C34" for a
    using assms that unfolding block_kept_def
    by (auto intro!: load16_agree load32_agree intro: agree_sym agree_sub simp: agree_def)
  show "wBytesPerSector m = wBytesPerSector m0" "bSectorsPerCluster m = bSectorsPerCluster m0"
    "wReservedSectors m = wReservedSectors m0" "bNumFATs m = bNumFATs m0"
    "dHiddenSectors m = dHiddenSectors m0" "dSectorsPerFat32 m = dSectorsPerFat32 m0"
    "dRootDirStart m = dRootDirStart m0"
    unfolding wBytesPerSector_def bSectorsPerCluster_def wReservedSectors_def bNumFATs_def
      dHiddenSectors_def dSectorsPerFat32_def dRootDirStart_def
    by (simp_all add: w)
qed

lemma block_kept_refl [simp, intro]: "block_kept m m"
  by (simp add: block_kept_def agree_def)

lemma block_kept_confined:
  "block_kept m0 m \<Longrightarrow> confined m m' X \<Longrightarrow> X \<inter> {0x7C00..<0x7C34} = {} \<Longrightarrow> block_kept m0 m'"
  unfolding block_kept_def by (blast intro: agree_trans agree_sym confined_agree)

text \<open>The sector of an entry of the allocation table, in the code's 16 bits.\<close>

lemma fat_sector_16:
  assumes "volume m0" "in_reach m0 c"
  shows "(ucast (push_bit 2 (ucast c :: u16) div 512 + ucast (dHiddenSectors m0) + wReservedSectors m0) :: u32) =
      fat_sector m0 c"
    "unat (push_bit 2 (ucast c :: u16) mod 512) = 4 * (unat c mod 128)"
proof -
  have c: "unat c < 16384" using assms(2) by (simp add: in_reach_def)
  have u: "unat (push_bit 2 (ucast c :: u16)) = 4 * unat c"
    using c by (simp add: push_bit_eq_mult unat_word_ariths unsigned_ucast_eq take_bit_nat_eq_self)
  then have q: "unat (push_bit 2 (ucast c :: u16) div 512) = unat c div 128"
    by (simp add: unat_div)
  show "unat (push_bit 2 (ucast c :: u16) mod 512) = 4 * (unat c mod 128)"
    using mult_mod_right [of 4 "unat c" 128] by (simp add: unat_mod u)
  have f: "fat_start m0 + 128 \<le> 2 ^ 16" using assms(1) by (simp add: volume_def)
  have h: "unat (ucast (dHiddenSectors m0) :: u16) = unat (dHiddenSectors m0)"
    using f by (simp add: unsigned_ucast_eq take_bit_nat_eq_self fat_start_def)
  have "unat c div 128 < 128" using c by simp
  moreover define w where "w = push_bit 2 (ucast c :: u16) div 512"
  ultimately have "unat (push_bit 2 (ucast c :: u16) div 512 + ucast (dHiddenSectors m0) + wReservedSectors m0) =
      unat c div 128 + unat (dHiddenSectors m0) + unat (wReservedSectors m0)"
    using f q unfolding w_def [symmetric] by (simp add: unat_word_ariths h fat_start_def)
  moreover have "unat (fat_sector m0 c) = fat_start m0 + unat c div 128"
    using f \<open>unat c div 128 < 128\<close> by (simp add: fat_sector_def unat_of_nat take_bit_nat_eq_self del: of_nat_add)
  ultimately show "(ucast (push_bit 2 (ucast c :: u16) div 512 + ucast (dHiddenSectors m0) + wReservedSectors m0) :: u32) =
      fat_sector m0 c"
    by (intro word_unat_eq_iff [THEN iffD2]) (simp add: fat_start_def)
qed

text \<open>The sector of the allocation table ends up at 0x4000, and the entry in it is read.\<close>

lemma GetNextCluster_ok:
  assumes io: "reads_disk int13 (bPhysicalDriveNum s) disk" "steady int13 s"
    and vol: "volume m0" "block_kept m0 (ram s)" "in_reach m0 (esi s)"
  shows "\<exists>m' k. GetNextCluster int13 s = Inr (s\<lparr>ram := m', int13_calls := k, es := 0, bx := 0x4000,
      esi := fat_next disk m0 (esi s)\<rparr>) \<and> confined (ram s) m' {0x4000..<0x4200} \<and>
    (\<forall>i < 512. m' (of_nat (0x4000 + i)) = disk (fat_sector m0 (esi s)) i)"
proof -
  let ?c = "esi s"
  note bpb = block_keptD [OF vol(2)]
  have bps: "wBytesPerSector (ram s) = 512" using bpb(1) vol(1) by (simp add: volume_def)
  let ?s = "s\<lparr>es := 0, bx := 0x4000\<rparr>"
  have pre: "reads_disk int13 (bPhysicalDriveNum ?s) disk" "steady int13 ?s"
    "es ?s = 0" "wBytesPerSector (ram ?s) = 512" "unat (bx ?s) + 512 * 1 < 2 ^ 16"
    "apart_from_block (unat (bx ?s)) (unat (bx ?s) + 512 * 1)"
    using io bps by (simp_all add: apart_from_block_def)
  from read_sectors_ok [OF this, of "fat_sector m0 ?c"] obtain m' k where
    r: "read_sectors int13 1 (fat_sector m0 ?c) ?s = Inr (?s\<lparr>ram := m', int13_calls := k, bx := 0x4200\<rparr>)"
      "only_changes (ram s) m' 0x4000 0x4200"
      "\<And>i. i < 512 \<Longrightarrow> m' (of_nat (0x4000 + i)) = disk (fat_sector m0 ?c) i"
    by auto
  let ?dx = "push_bit 2 (ucast ?c :: u16) mod 512"
  have dx: "unat ?dx = 4 * (unat ?c mod 128)" and dx': "unat ?dx + 4 \<le> 512"
    using fat_sector_16(2) [OF vol(1,3)] by simp_all
  have addr: "linear 0 (0x4000 + ?dx) = of_nat (0x4000 + unat ?dx)"
    using unat_add16 [of "0x4000" "unat ?dx"] dx' unfolding linear_0 ucast_16 by simp
  have "load32 m' (of_nat (0x4000 + unat ?dx)) = load_bytes 4 (\<lambda>x. disk (fat_sector m0 ?c) (unat x)) (of_nat (unat ?dx))"
  proof -
    have "m' (of_nat (0x4000 + unat ?dx) + of_nat j) = disk (fat_sector m0 ?c) (unat (of_nat (unat ?dx) + of_nat j :: u64))"
      if "j < 4" for j
    proof -
      have "of_nat (0x4000 + unat ?dx) + of_nat j = (of_nat (0x4000 + (unat ?dx + j)) :: u64)" by simp
      moreover have "unat (of_nat (unat ?dx) + of_nat j :: u64) = unat ?dx + j"
        unfolding of_nat_add [symmetric] using that dx' by (intro unat_of_nat_u64) simp
      ultimately show ?thesis using r(3) [of "unat ?dx + j"] that dx' by (simp add: add.assoc)
    qed
    then show ?thesis unfolding load32_def by (rule load_bytes_shift)
  qed
  then have "load32 m' (linear 0 (0x4000 + ?dx)) = fat_next disk m0 ?c"
    unfolding addr dx fat_next_def load32_def .
  moreover have "GetNextCluster int13 s =
      Inr (s\<lparr>ram := m', int13_calls := k, es := 0, bx := 0x4000, esi := load32 m' (linear 0 (0x4000 + ?dx))\<rparr>)"
    using r(1) by (simp add: GetNextCluster_def Let_def bps bpb(3,5) fat_sector_16(1) [OF vol(1,3)] ReadSector_def
        del: read_sectors.simps)
  ultimately show ?thesis using r(2,3) by (auto simp: only_changes_confined)
qed

text \<open>The first sector of a cluster, in the code's mixture of 16 and 32 bits.\<close>

lemma cluster_sector_32:
  assumes "volume m0" "in_reach m0 c"
  shows "ucast (((ucast c :: u16) - 2) * ucast (bSectorsPerCluster m0)) + first_data_sector m0 + dHiddenSectors m0 =
    (of_nat (data_start m0 + (unat c - 2) * cluster_sectors m0) :: u32)"
proof -
  have c: "2 \<le> unat c" "unat c < 16384" "(unat c - 2) * cluster_sectors m0 < 2 ^ 16"
    using assms(2) by (simp_all add: in_reach_def)
  have "unat (ucast c :: u16) = unat c" using c by (simp add: unsigned_ucast_eq take_bit_nat_eq_self)
  then have "unat ((ucast c :: u16) - 2) = unat c - 2"
    using c(1) by (subst unat_sub) (simp_all add: word_le_nat_alt)
  moreover have "unat (ucast (bSectorsPerCluster m0) :: u16) = cluster_sectors m0"
    by (simp add: cluster_sectors_def)
  ultimately have "unat (((ucast c :: u16) - 2) * ucast (bSectorsPerCluster m0)) = (unat c - 2) * cluster_sectors m0"
    using c(3) by (simp add: unat_word_ariths)
  moreover have "(ucast w :: u32) = of_nat (unat w)" for w :: u16 by simp
  ultimately have "(ucast (((ucast c :: u16) - 2) * ucast (bSectorsPerCluster m0)) :: u32) =
      of_nat ((unat c - 2) * cluster_sectors m0)"
    by metis
  moreover have "first_data_sector m0 + dHiddenSectors m0 = of_nat (data_start m0)"
    by (simp add: first_data_sector_def data_start_def fat_start_def)
  ultimately show ?thesis by (simp add: add.assoc add.commute)
qed

definition scratch_area :: "nat set" where
  "scratch_area = {0x4000..<0x4200} \<union> {0x7C38..<0x7C3E}"

lemma ReadCluster_ok:
  assumes io: "reads_disk int13 (bPhysicalDriveNum s) disk" "steady int13 s"
    and vol: "volume m0" "block_kept m0 (ram s)" "load32 (ram s) 0x7C34 = first_data_sector m0"
      "in_reach m0 (esi s)"
    and buf: "es s = 0" "unat (bx s) + cluster_size m0 < 2 ^ 16"
      "apart_from_block (unat (bx s)) (unat (bx s) + cluster_size m0)"
  shows "\<exists>m' k. ReadCluster int13 s = Inr (s\<lparr>ram := m', int13_calls := k,
      bx := bx s + of_nat (cluster_size m0), esi := fat_next disk m0 (esi s)\<rparr>) \<and>
    confined (ram s) m' ({unat (bx s)..<unat (bx s) + cluster_size m0} \<union> scratch_area) \<and>
    (\<forall>i < cluster_size m0. unat (bx s) + i \<notin> scratch_area \<longrightarrow>
       m' (of_nat (unat (bx s) + i)) = cluster_byte disk m0 (esi s) i) \<and>
    (\<forall>i < 512. m' (of_nat (0x4000 + i)) = disk (fat_sector m0 (esi s)) i)"
proof -
  let ?c = "esi s" and ?b = "unat (bx s)" and ?n = "cluster_sectors m0"
  define eax :: u32 where "eax = of_nat (data_start m0 + (unat ?c - 2) * ?n)"
  note sector = cluster_sector_32 [OF vol(1,4), folded eax_def]
  note bpb = block_keptD [OF vol(2)]
  have n: "0 < ?n" "unat (bSectorsPerCluster m0) = ?n" "cluster_size m0 = 512 * ?n"
    using vol(1) by (simp_all add: volume_def cluster_sectors_def cluster_size_def)
  have bps: "wBytesPerSector (ram s) = 512" using bpb(1) vol(1) by (simp add: volume_def)
  have count: "ReadSector int13 eax (ucast (bSectorsPerCluster m0)) s = read_sectors int13 ?n eax s"
  proof -
    have "unat (ucast (bSectorsPerCluster m0) :: u16) = ?n"
      by (simp add: cluster_sectors_def)
    moreover from this n(1) have "(ucast (bSectorsPerCluster m0) :: u16) \<noteq> 0" by (metis less_irrefl unat_0)
    ultimately show ?thesis by (simp add: ReadSector_def)
  qed
  from read_sectors_ok [OF io buf(1) bps, of ?n eax] buf(2,3) n(3) obtain m1 k1 where
    r: "read_sectors int13 ?n eax s = Inr (s\<lparr>ram := m1, int13_calls := k1, bx := bx s + of_nat (cluster_size m0)\<rparr>)"
      "only_changes (ram s) m1 ?b (?b + cluster_size m0)"
      "\<And>i. i < cluster_size m0 \<Longrightarrow> m1 (of_nat (?b + i)) = disk (eax + of_nat (i div 512)) (i mod 512)"
    by auto
  define bx' where "bx' = bx s + of_nat (cluster_size m0)"
  define m2 where "m2 = store16 m1 0x7C3C bx'"
  let ?s2 = "s\<lparr>int13_calls := k1, bx := bx', ram := m2\<rparr>"
  have c1: "confined (ram s) m1 {?b..<?b + cluster_size m0}" using r(2) by (simp add: only_changes_confined)
  have c2: "confined m1 m2 {0x7C3C..<0x7C3E}"
    using store16_only_changes [of "0x7C3C" m1 bx'] by (simp add: m2_def only_changes_confined)
  have k2: "block_kept m0 m2"
    by (rule block_kept_confined [OF block_kept_confined [OF vol(2) c1] c2])
      (use buf(3) in \<open>auto simp: apart_from_block_def\<close>)
  have pre: "reads_disk int13 (bPhysicalDriveNum ?s2) disk" "steady int13 ?s2"
    "block_kept m0 (ram ?s2)" "in_reach m0 (esi ?s2)" using io k2 vol(4) by simp_all
  from GetNextCluster_ok [OF pre(1,2) vol(1) pre(3,4)] obtain m3 k3 where
    g: "GetNextCluster int13 ?s2 = Inr (?s2\<lparr>ram := m3, int13_calls := k3, es := 0, bx := 0x4000,
        esi := fat_next disk m0 ?c\<rparr>)" "confined m2 m3 {0x4000..<0x4200}"
      "\<And>i. i < 512 \<Longrightarrow> m3 (of_nat (0x4000 + i)) = disk (fat_sector m0 ?c) i" by auto
  define m4 where "m4 = store32 m3 0x7C38 (fat_next disk m0 ?c)"
  have c4: "confined m3 m4 {0x7C38..<0x7C3C}"
    using store32_only_changes [of "0x7C38" m3 "fat_next disk m0 ?c"] by (simp add: m4_def only_changes_confined)
  have l4: "load32 m4 0x7C38 = fat_next disk m0 ?c" by (simp add: m4_def load32_store32_same)
  have "load16 m4 0x7C3C = load16 m3 0x7C3C"
    by (rule load16_frame [of _ _ "0x7C38" "0x7C3C"]) (use c4 in \<open>simp_all add: only_changes_confined\<close>)
  also have "\<dots> = load16 m2 0x7C3C"
    by (rule load16_frame [of _ _ "0x4000" "0x4200"]) (use g(2) in \<open>simp_all add: only_changes_confined\<close>)
  finally have l3: "load16 m4 0x7C3C = bx'" by (simp add: m2_def load16_store16_same)
  have run: "ReadCluster int13 s = Inr (s\<lparr>ram := m4, int13_calls := k3, bx := bx', esi := fat_next disk m0 ?c\<rparr>)"
    using r(1) g(1) buf(1) l4 l3
    by (simp add: ReadCluster_def Let_def bpb vol(3) sector count
        bx'_def [symmetric] m2_def [symmetric] m4_def [symmetric])
  have c24: "confined m1 m4 scratch_area"
    using c2 g(2) c4 unfolding confined_def scratch_area_def by auto
  have conf: "confined (ram s) m4 ({?b..<?b + cluster_size m0} \<union> scratch_area)"
    by (rule confined_trans [OF c1 c24]) auto
  have "m4 (of_nat (?b + i)) = cluster_byte disk m0 ?c i" if i: "i < cluster_size m0" "?b + i \<notin> scratch_area" for i
  proof -
    have "unat (of_nat (?b + i) :: u64) = ?b + i" using i(1) buf(2) by (intro unat_of_nat_u64) simp
    with confinedD [OF c24, of "of_nat (?b + i)"] i r(3) [OF i(1)] show ?thesis
      by (simp add: cluster_byte_def eax_def add.assoc)
  qed
  moreover have "m4 (of_nat (0x4000 + i)) = disk (fat_sector m0 ?c) i" if "i < 512" for i
  proof -
    have "unat (of_nat (0x4000 + i) :: u64) = 0x4000 + i" using that by (intro unat_of_nat_u64) simp
    with confinedD [OF c4, of "of_nat (0x4000 + i)"] g(3) [OF that] that show ?thesis by simp
  qed
  ultimately show ?thesis using run conf unfolding bx'_def by blast
qed

section \<open>A whole file\<close>

text \<open>
  Every cluster of the chain lands behind the one before. The sector of the allocation table that
  the last step looked at stays at 0x4000, whatever the file had there.
\<close>

lemma load_clusters_ok:
  assumes io: "reads_disk int13 (bPhysicalDriveNum s) disk" "steady int13 s"
    and vol: "volume m0" "block_kept m0 (ram s)" "load32 (ram s) 0x7C34 = first_data_sector m0"
    and fc: "file_chain disk m0 (esi s) cs"
    and buf: "es s = 0" "unat (bx s) + cluster_size m0 * length cs < 2 ^ 16"
      "apart_from_block (unat (bx s)) (unat (bx s) + cluster_size m0 * length cs)"
  shows "\<exists>m' k e. load_clusters int13 s = Some (Inr (s\<lparr>ram := m', int13_calls := k,
      bx := bx s + of_nat (cluster_size m0 * length cs), esi := e\<rparr>)) \<and>
    confined (ram s) m' ({unat (bx s)..<unat (bx s) + cluster_size m0 * length cs} \<union> scratch_area) \<and>
    (\<forall>i < cluster_size m0 * length cs. unat (bx s) + i \<notin> scratch_area \<longrightarrow>
       m' (of_nat (unat (bx s) + i)) = file_byte disk m0 cs i) \<and>
    (\<forall>i < 512. m' (of_nat (0x4000 + i)) = disk (fat_sector m0 (last cs)) i)"
  using assms
proof (induction cs arbitrary: s)
  case Nil
  then show ?case by (simp add: file_chain_def)
next
  case (Cons c cs)
  let ?z = "cluster_size m0" and ?b = "unat (bx s)"
  have c: "esi s = c" "in_reach m0 c" "chain (fat_next disk m0) (fat_next disk m0 c) cs" "list_all (in_reach m0) cs"
    using Cons.prems(6) by (auto simp: file_chain_def)
  have pos: "0 < ?z" using Cons.prems(3) by (simp add: volume_def cluster_size_def)
  have fits: "?b + ?z < 2 ^ 16" "apart_from_block ?b (?b + ?z)"
    using Cons.prems(8,9) by (auto simp: apart_from_block_def)
  from ReadCluster_ok [OF Cons.prems(1-5) _ Cons.prems(7) fits] c(1,2) obtain m1 k1 where
    r: "ReadCluster int13 s = Inr (s\<lparr>ram := m1, int13_calls := k1, bx := bx s + of_nat ?z, esi := fat_next disk m0 c\<rparr>)"
      "confined (ram s) m1 ({?b..<?b + ?z} \<union> scratch_area)"
      "\<And>i. i < ?z \<Longrightarrow> ?b + i \<notin> scratch_area \<Longrightarrow> m1 (of_nat (?b + i)) = cluster_byte disk m0 c i"
      "\<And>i. i < 512 \<Longrightarrow> m1 (of_nat (0x4000 + i)) = disk (fat_sector m0 c) i"
    by auto
  let ?s1 = "s\<lparr>ram := m1, int13_calls := k1, bx := bx s + of_nat ?z, esi := fat_next disk m0 c\<rparr>"
  have nb: "unat (bx s + of_nat ?z) = ?b + ?z" using fits(1) by (rule unat_add16)
  have first: "file_byte disk m0 (c # cs) i = cluster_byte disk m0 c i" if "i < ?z" for i
    using that by (simp add: file_byte_def)
  show ?case
  proof (cases "cs = []")
    case True
    with c(3) have "\<not> fat_next disk m0 c < 0x0FFFFFF8" by simp
    then have "load_clusters int13 s = Some (Inr ?s1)"
      by (subst load_clusters.simps) (simp add: r(1))
    moreover have "\<forall>i < ?z. ?b + i \<notin> scratch_area \<longrightarrow> m1 (of_nat (?b + i)) = file_byte disk m0 [c] i"
      using r(3) first True by simp
    ultimately show ?thesis
      unfolding True using r(2,4) by (intro exI [of _ m1] exI [of _ k1] exI [of _ "fat_next disk m0 c"]) simp
  next
    case False
    then obtain d ds where cs: "cs = d # ds" by (cases cs) auto
    with c(3,4) have "fat_next disk m0 c = d" "in_reach m0 d" by auto
    then have more: "fat_next disk m0 c < 0x0FFFFFF8"
      by (simp add: in_reach_def word_less_nat_alt)
    have k1: "block_kept m0 m1"
      by (rule block_kept_confined [OF Cons.prems(4) r(2)])
        (use fits(2) in \<open>auto simp: scratch_area_def apart_from_block_def\<close>)
    have l1: "load32 m1 0x7C34 = first_data_sector m0"
      unfolding Cons.prems(5) [symmetric]
      by (rule load32_agree) (use fits(2) in \<open>auto intro!: confined_agree [OF r(2)] simp: scratch_area_def apart_from_block_def\<close>)
    have "file_chain disk m0 (esi ?s1) cs" using c(3,4) False by (simp add: file_chain_def)
    from Cons.IH [of ?s1, OF _ _ Cons.prems(3) _ _ this] Cons.prems(1,2,7,8,9) k1 l1 obtain m' k e where
      ih: "load_clusters int13 ?s1 = Some (Inr (?s1\<lparr>ram := m', int13_calls := k,
          bx := bx s + of_nat ?z + of_nat (?z * length cs), esi := e\<rparr>))"
        "confined m1 m' ({?b + ?z..<?b + ?z + ?z * length cs} \<union> scratch_area)"
        "\<And>i. i < ?z * length cs \<Longrightarrow> ?b + ?z + i \<notin> scratch_area \<Longrightarrow>
          m' (of_nat (?b + ?z + i)) = file_byte disk m0 cs i"
        "\<And>i. i < 512 \<Longrightarrow> m' (of_nat (0x4000 + i)) = disk (fat_sector m0 (last cs)) i"
      by (auto simp: nb apart_from_block_def)
    have run: "load_clusters int13 s = Some (Inr (s\<lparr>ram := m', int13_calls := k,
        bx := bx s + of_nat (?z * length (c # cs)), esi := e\<rparr>))"
      by (subst load_clusters.simps) (simp add: r(1) more ih(1) add.assoc)
    have conf: "confined (ram s) m' ({?b..<?b + ?z * length (c # cs)} \<union> scratch_area)"
      by (rule confined_trans [OF r(2) ih(2)]) auto
    have "m' (of_nat (?b + i)) = file_byte disk m0 (c # cs) i"
      if i: "i < ?z * length (c # cs)" "?b + i \<notin> scratch_area" for i
    proof (cases "i < ?z")
      case True
      have "unat (of_nat (?b + i) :: u64) = ?b + i" using True fits(1) by (intro unat_of_nat_u64) simp
      with confinedD [OF ih(2), of "of_nat (?b + i)"] True i r(3) first show ?thesis by simp
    next
      case False
      then obtain j where j: "i = ?z + j" by (metis le_Suc_ex not_less)
      have "(?z + j) div ?z = Suc (j div ?z)" using pos div_add_self1 [of ?z j] by simp
      then have "file_byte disk m0 (c # cs) i = file_byte disk m0 cs j"
        by (simp add: file_byte_def j)
      with ih(3) [of j] i j show ?thesis by (simp add: add.assoc)
    qed
    with run conf ih(4) False show ?thesis by auto
  qed
qed

section \<open>The root directory\<close>

lemma of_nat_add_numeral: "(of_nat (n + j) :: u64) = of_nat n + of_nat j"
  by simp

text \<open>What is read from the copy of a cluster at 0x1000.\<close>

definition copy_at :: "memory \<Rightarrow> (nat \<Rightarrow> u8) \<Rightarrow> bool" where
  "copy_at m f \<longleftrightarrow> (\<forall>i < 0x400. m (of_nat (0x1000 + i)) = f i)"

lemma copy_atD: "copy_at m f \<Longrightarrow> i < 0x400 \<Longrightarrow> m (of_nat (0x1000 + i)) = f i"
  unfolding copy_at_def by blast

lemma entry_address:
  "j < 32 \<Longrightarrow> k < 32 \<Longrightarrow> linear 0 (0x1000 + of_nat (32 * j) + of_nat k) = of_nat (0x1000 + (32 * j + k))"
  unfolding linear_0 ucast_16
  using unat_add16 [of "0x1000" "32 * j"] unat_add16 [of "0x1000 + of_nat (32 * j)" k] by (simp add: add.assoc)

lemma copy_byte:
  "copy_at m f \<Longrightarrow> j < 32 \<Longrightarrow> k < 32 \<Longrightarrow> m (linear 0 (0x1000 + of_nat (32 * j) + of_nat k)) = f (32 * j + k)"
  unfolding entry_address by (rule copy_atD) simp_all

lemma copy_bytes:
  assumes "copy_at m f" "j < 32" "k + n \<le> 32"
  shows "(load_bytes n m (linear 0 (0x1000 + of_nat (32 * j) + of_nat k)) :: 'a::len word) =
    load_bytes n (\<lambda>x. f (unat x)) (of_nat (32 * j + k))"
proof (rule load_bytes_shift)
  fix i assume i: "i < n"
  have "linear 0 (0x1000 + of_nat (32 * j) + of_nat k) + of_nat i = (of_nat (0x1000 + (32 * j + k + i)) :: u64)"
    using entry_address [of j k] assms(2,3) i unfolding of_nat_add [of _ i, symmetric] by (simp add: add.assoc)
  moreover have "unat (of_nat (32 * j + k) + of_nat i :: u64) = 32 * j + k + i"
    unfolding of_nat_add [symmetric] using assms(2,3) i by (intro unat_of_nat_u64) simp
  moreover have "m (of_nat (0x1000 + (32 * j + k + i))) = f (32 * j + k + i)"
    by (rule copy_atD [OF assms(1)]) (use assms(2,3) i in simp)
  ultimately show "m (linear 0 (0x1000 + of_nat (32 * j) + of_nat k) + of_nat i) =
      f (unat (of_nat (32 * j + k) + of_nat i :: u64))"
    by (simp only:)
qed

lemma same_name_copy:
  assumes "copy_at (ram s) f" "es s = 0" "j < 32"
  shows "same_name name s (0x1000 + of_nat (32 * j)) \<longleftrightarrow> slot_name f j = name"
proof -
  have "map (\<lambda>i. ram s (linear (es s) (0x1000 + of_nat (32 * j) + of_nat i))) [0..<11] = slot_name f j"
    unfolding slot_name_def assms(2) by (rule map_cong [OF refl]) (use copy_byte [OF assms(1,3)] in simp)
  then show ?thesis by (simp add: same_name_def)
qed

lemma scan_entries_copy:
  assumes "copy_at (ram s) f" "es s = 0" "k + n = 32"
  shows "scan_entries name n (0x1000 + of_nat (32 * k)) s =
    (case find (\<lambda>j. f (32 * j) = 0 \<or> slot_name f j = name) [k..<32] of
       None \<Rightarrow> Not_here
     | Some j \<Rightarrow> if f (32 * j) = 0 then End_of_root else Found (0x1000 + of_nat (32 * j)))"
  using assms(3)
proof (induction n arbitrary: k)
  case 0
  then show ?case by simp
next
  case (Suc n)
  have k: "k < 32" "[k..<32] = k # [Suc k..<32]" using Suc.prems by (simp_all add: upt_conv_Cons)
  have "0x1000 + of_nat (32 * k) + 0x20 = (0x1000 + of_nat (32 * Suc k) :: u16)" by simp
  with Suc.IH [of "Suc k"] Suc.prems k copy_byte [OF assms(1) k(1), of 0] same_name_copy [OF assms(1,2) k(1)]
  show ?case by (simp add: assms(2) del: of_nat_mult)
qed

lemma find_upt_less: "find P [0..<n] = Some j \<Longrightarrow> j < n"
  by (auto simp: find_Some_iff)

text \<open>Both outcomes of the search; it always returns on a chain that ends.\<close>

lemma search_root_ok:
  assumes "reads_disk int13 (bPhysicalDriveNum s) disk" "steady int13 s"
    and "volume m0" "block_kept m0 (ram s)" "load32 (ram s) 0x7C34 = first_data_sector m0"
    and "file_chain disk m0 (esi s) rs" "0x400 \<le> cluster_size m0" "cluster_size m0 \<le> 0x6000"
  shows "case root_lookup name (cluster_byte disk m0) rs of
      None \<Rightarrow> search_root int13 name s = Some (Inl Not_found)
    | Some (c, j) \<Rightarrow> j < 32 \<and> (\<exists>m' k e b. search_root int13 name s = Some (Inr (0x1000 + of_nat (32 * j),
          s\<lparr>es := 0, bx := b, ram := m', int13_calls := k, esi := e\<rparr>)) \<and>
        confined (ram s) m' ({0x1000..<0x7C00} \<union> scratch_area) \<and> copy_at m' (cluster_byte disk m0 c))"
  using assms
proof (induction rs arbitrary: s)
  case Nil
  then show ?case by (simp add: file_chain_def)
next
  case (Cons c rs)
  let ?z = "cluster_size m0" and ?s = "s\<lparr>es := 0, bx := 0x1000\<rparr>" and ?f = "cluster_byte disk m0 c"
  have c: "esi s = c" "in_reach m0 c" "chain (fat_next disk m0) (fat_next disk m0 c) rs" "list_all (in_reach m0) rs"
    using Cons.prems(6) by (auto simp: file_chain_def)
  have pre: "reads_disk int13 (bPhysicalDriveNum ?s) disk" "steady int13 ?s"
    "block_kept m0 (ram ?s)" "load32 (ram ?s) 0x7C34 = first_data_sector m0" "in_reach m0 (esi ?s)"
    "es ?s = 0" "unat (bx ?s) + cluster_size m0 < 2 ^ 16"
    "apart_from_block (unat (bx ?s)) (unat (bx ?s) + cluster_size m0)"
    using Cons.prems c by (simp_all add: apart_from_block_def)
  from ReadCluster_ok [OF pre(1,2) Cons.prems(3) pre(3-)] obtain m1 k1 where
    r: "ReadCluster int13 ?s = Inr (?s\<lparr>ram := m1, int13_calls := k1, bx := 0x1000 + of_nat ?z, esi := fat_next disk m0 c\<rparr>)"
      "confined (ram s) m1 ({0x1000..<0x1000 + ?z} \<union> scratch_area)"
      "\<And>i. i < ?z \<Longrightarrow> 0x1000 + i \<notin> scratch_area \<Longrightarrow> m1 (of_nat (0x1000 + i)) = ?f i"
    by (auto simp: c(1))
  let ?s1 = "s\<lparr>es := 0, bx := 0x1000 + of_nat ?z, ram := m1, int13_calls := k1, esi := fat_next disk m0 c\<rparr>"
  have r1: "ReadCluster int13 ?s = Inr ?s1" by (simp add: r(1))
  have "m1 (of_nat (0x1000 + i)) = ?f i" if "i < 0x400" for i
    by (rule r(3)) (use that Cons.prems(7) in \<open>auto simp: scratch_area_def\<close>)
  then have copy: "copy_at (ram ?s1) ?f" by (simp add: copy_at_def)
  have conf: "confined (ram s) m1 ({0x1000..<0x7C00} \<union> scratch_area)"
    by (rule confined_trans [OF r(2) confined_refl [of _ "{}"]]) (use Cons.prems(8) in auto)
  have scan: "scan_entries name 32 0x1000 ?s1 = (case first_slot name ?f of None \<Rightarrow> Not_here
      | Some j \<Rightarrow> if ?f (32 * j) = 0 then End_of_root else Found (0x1000 + of_nat (32 * j)))"
    using scan_entries_copy [OF copy, of 0 32 name] by (simp add: first_slot_def)
  show ?case
  proof (cases "first_slot name ?f")
    case (Some j)
    then have "j < 32" by (simp add: first_slot_def find_upt_less)
    show ?thesis
    proof (cases "?f (32 * j) = 0")
      case True
      have "search_root int13 name s = Some (Inl Not_found)"
        by (subst search_root.simps) (simp add: r1 scan Some True)
      with Some True show ?thesis by simp
    next
      case False
      have "search_root int13 name s = Some (Inr (0x1000 + of_nat (32 * j), ?s1))"
        by (subst search_root.simps) (simp add: r1 scan Some False)
      with Some False \<open>j < 32\<close> conf copy show ?thesis by (simp del: of_nat_mult) blast
    qed
  next
    case None
    have step: "search_root int13 name s =
        (if fat_next disk m0 c < 0x0FFFFFF8 then search_root int13 name ?s1 else Some (Inl Not_found))"
      by (subst search_root.simps) (simp add: r1 scan None)
    show ?thesis
    proof (cases rs)
      case Nil
      with c(3) step None show ?thesis by simp
    next
      case (Cons d ds)
      with c(3,4) have "fat_next disk m0 c = d" "in_reach m0 d" by auto
      then have step: "search_root int13 name s = search_root int13 name ?s1"
        using step by (simp add: in_reach_def word_less_nat_alt)
      have k1: "block_kept m0 m1"
        by (rule block_kept_confined [OF Cons.prems(4) conf]) (auto simp: scratch_area_def)
      have l1: "load32 m1 0x7C34 = first_data_sector m0"
        unfolding Cons.prems(5) [symmetric]
        by (rule load32_agree) (auto intro!: confined_agree [OF conf] simp: scratch_area_def)
      have "file_chain disk m0 (esi ?s1) rs" using c(3,4) Cons by (auto simp: file_chain_def)
      moreover have "reads_disk int13 (bPhysicalDriveNum ?s1) disk" "steady int13 ?s1"
        "block_kept m0 (ram ?s1)" "load32 (ram ?s1) 0x7C34 = first_data_sector m0"
        using Cons.prems(1,2) k1 l1 by simp_all
      ultimately have ih: "case root_lookup name (cluster_byte disk m0) rs of
          None \<Rightarrow> search_root int13 name ?s1 = Some (Inl Not_found)
        | Some (c, j) \<Rightarrow> j < 32 \<and> (\<exists>m' k e b. search_root int13 name ?s1 = Some (Inr (0x1000 + of_nat (32 * j),
              ?s1\<lparr>es := 0, bx := b, ram := m', int13_calls := k, esi := e\<rparr>)) \<and>
            confined (ram ?s1) m' ({0x1000..<0x7C00} \<union> scratch_area) \<and> copy_at m' (cluster_byte disk m0 c))"
        using Cons.IH [of ?s1] Cons.prems(3,7,8) by blast
      show ?thesis
      proof (cases "root_lookup name (cluster_byte disk m0) rs")
        case None
        with ih step \<open>first_slot name ?f = None\<close> show ?thesis by simp
      next
        case (Some p)
        obtain d j where p: "p = (d, j)" by fastforce
        with ih Some obtain m' k e b where "j < 32"
          "search_root int13 name ?s1 = Some (Inr (0x1000 + of_nat (32 * j),
              s\<lparr>es := 0, bx := b, ram := m', int13_calls := k, esi := e\<rparr>))"
          "confined m1 m' ({0x1000..<0x7C00} \<union> scratch_area)" "copy_at m' (cluster_byte disk m0 d)"
          by (auto simp del: of_nat_mult)
        with confined_trans [OF conf this(3) subset_refl subset_refl] step Some p \<open>first_slot name ?f = None\<close>
        show ?thesis by (simp del: of_nat_mult) blast
      qed
    qed
  qed
qed

text \<open>The memory below the parameter block, and the fields of it that the code uses as variables.\<close>

definition loader_area :: "nat set" where
  "loader_area = {0x500..<0x7C00} \<union> {0x7C34..<0x7C3E}"

lemma loader_area_block: "block_kept m0 m \<Longrightarrow> confined m m' loader_area \<Longrightarrow> block_kept m0 m'"
  by (erule block_kept_confined) (auto simp: loader_area_def)

lemma find_file_ok:
  assumes io: "reads_disk int13 dl disk" "no_faults int13 dl" "DAP_count s = 1"
    and vol: "volume (ram s)" "root_directory disk (ram s) rs"
  shows "case root_lookup name (cluster_byte disk (ram s)) rs of
      None \<Rightarrow> find_file int13 name dl s = Some (Inl Not_found)
    | Some (c, j) \<Rightarrow> j < 32 \<and> (\<exists>s'. find_file int13 name dl s = Some (Inr (0x1000 + of_nat (32 * j), s')) \<and>
        es s' = 0 \<and> bPhysicalDriveNum s' = dl \<and> DAP_count s' = 1 \<and> copy_at (ram s') (cluster_byte disk (ram s) c) \<and>
        confined (ram s) (ram s') loader_area \<and> load32 (ram s') 0x7C34 = first_data_sector (ram s))"
proof -
  let ?m0 = "ram s"
  define m1 where "m1 = store32 ?m0 0x7C34 (first_data_sector ?m0)"
  let ?s1 = "s\<lparr>bPhysicalDriveNum := dl, ram := m1, esi := dRootDirStart m1\<rparr>"
  have c1: "confined ?m0 m1 {0x7C34..<0x7C38}"
    using store32_only_changes [of "0x7C34" ?m0 "first_data_sector ?m0"] by (simp add: m1_def only_changes_confined)
  have k1: "block_kept ?m0 m1" by (rule block_kept_confined [OF block_kept_refl c1]) auto
  have l1: "load32 m1 0x7C34 = first_data_sector ?m0" by (simp add: m1_def load32_store32_same)
  have run: "find_file int13 name dl s = search_root int13 name ?s1"
    by (simp add: find_file_def Let_def m1_def [symmetric])
  have pre: "reads_disk int13 (bPhysicalDriveNum ?s1) disk" "steady int13 ?s1"
    "block_kept ?m0 (ram ?s1)" "load32 (ram ?s1) 0x7C34 = first_data_sector ?m0"
    "file_chain disk ?m0 (esi ?s1) rs" "0x400 \<le> cluster_size ?m0" "cluster_size ?m0 \<le> 0x6000"
    using io k1 l1 vol(2) block_keptD(7) [OF k1] by (simp_all add: root_directory_def steady_def)
  note res = search_root_ok [OF pre(1,2) vol(1) pre(3-7), of name]
  show ?thesis
  proof (cases "root_lookup name (cluster_byte disk ?m0) rs")
    case None
    with res run show ?thesis by simp
  next
    case (Some p)
    obtain c j where p: "p = (c, j)" by fastforce
    from res Some p obtain m' k e b where r: "j < 32"
      "search_root int13 name ?s1 = Some (Inr (0x1000 + of_nat (32 * j),
         ?s1\<lparr>es := 0, bx := b, ram := m', int13_calls := k, esi := e\<rparr>))"
      "confined m1 m' ({0x1000..<0x7C00} \<union> scratch_area)" "copy_at m' (cluster_byte disk ?m0 c)"
      by (auto simp del: of_nat_mult)
    have "load32 m' 0x7C34 = first_data_sector ?m0"
      unfolding l1 [symmetric]
      by (rule load32_agree) (auto intro!: confined_agree [OF r(3)] simp: scratch_area_def)
    moreover have "confined ?m0 m' loader_area"
      by (rule confined_trans [OF c1 r(3)]) (auto simp: scratch_area_def loader_area_def)
    ultimately show ?thesis using Some p r run io(3) by (simp del: of_nat_mult)
  qed
qed

text \<open>The fields of the entry that was found.\<close>

lemma entry_fields:
  assumes "copy_at (ram s) f" "es s = 0" "j < 32"
  shows "entry_cluster s (0x1000 + of_nat (32 * j)) = slot_cluster f j"
    "load32 (ram s) (linear (es s) (0x1000 + of_nat (32 * j) + 0x1C)) = slot_size f j"
  using copy_bytes [where 'a = 16, OF assms(1,3), of "0x14" 2] copy_bytes [where 'a = 16, OF assms(1,3), of "0x1A" 2]
    copy_bytes [where 'a = 32, OF assms(1,3), of "0x1C" 4]
  unfolding entry_cluster_def slot_cluster_def slot_size_def assms(2) load16_def load32_def by simp_all

section \<open>The stages\<close>

text \<open>A file that was found is loaded behind address \<open>b\<close>.\<close>

lemma LoadFile_ok:
  assumes io: "reads_disk int13 (bPhysicalDriveNum s) disk" "steady int13 s"
    and vol: "volume m0" "block_kept m0 (ram s)" "load32 (ram s) 0x7C34 = first_data_sector m0"
    and fc: "file_chain disk m0 (esi s) cs"
    and buf: "unat b + cluster_size m0 * length cs < 2 ^ 16"
      "apart_from_block (unat b) (unat b + cluster_size m0 * length cs)"
  shows "\<exists>s'. LoadFile int13 b s = Some (Inr s') \<and>
    bPhysicalDriveNum s' = bPhysicalDriveNum s \<and> kernel_size s' = kernel_size s \<and>
    confined (ram s) (ram s') ({unat b..<unat b + cluster_size m0 * length cs} \<union> scratch_area) \<and>
    (\<forall>i < cluster_size m0 * length cs. unat b + i \<notin> scratch_area \<longrightarrow>
       ram s' (of_nat (unat b + i)) = file_byte disk m0 cs i) \<and>
    (\<forall>i < 512. ram s' (of_nat (0x4000 + i)) = disk (fat_sector m0 (last cs)) i)"
proof -
  let ?s = "s\<lparr>es := 0, bx := b\<rparr>"
  have "reads_disk int13 (bPhysicalDriveNum ?s) disk" "steady int13 ?s"
    "block_kept m0 (ram ?s)" "load32 (ram ?s) 0x7C34 = first_data_sector m0" "file_chain disk m0 (esi ?s) cs"
    "es ?s = 0" "unat (bx ?s) + cluster_size m0 * length cs < 2 ^ 16"
    "apart_from_block (unat (bx ?s)) (unat (bx ?s) + cluster_size m0 * length cs)"
    using assms by simp_all
  from load_clusters_ok [OF this(1,2) vol(1) this(3-)] show ?thesis
    by (auto simp: LoadFile_def)
qed

lemma FixCS_ok:
  assumes io: "reads_disk int13 dl disk" "no_faults int13 dl"
    and vol: "volume (ram s)" "root_directory disk (ram s) rs" "root_file disk (ram s) rs syskrnldr (c, j) cs"
    and fits: "cluster_size (ram s) * length cs \<le> 0x7700"
  shows "\<exists>s'. FixCS int13 dl s = Some (Inr s') \<and> bPhysicalDriveNum s' = dl \<and>
    kernel_size s' = slot_size (cluster_byte disk (ram s) c) j \<and>
    confined (ram s) (ram s') loader_area \<and>
    (\<forall>i < cluster_size (ram s) * length cs. i < 0x3B00 \<or> 0x3D00 \<le> i \<longrightarrow>
       ram s' (of_nat (0x500 + i)) = file_byte disk (ram s) cs i) \<and>
    (\<forall>i < 512. ram s' (of_nat (0x4000 + i)) = disk (fat_sector (ram s) (last cs)) i)"
proof -
  let ?m0 = "ram s" and ?f = "cluster_byte disk (ram s) c" and ?s0 = "s\<lparr>DAP_count := 1\<rparr>"
  from vol(3) have found: "root_lookup syskrnldr (cluster_byte disk ?m0) rs = Some (c, j)"
    and fc: "file_chain disk ?m0 (slot_cluster ?f j) cs" by (simp_all add: root_file_def)
  from find_file_ok [of int13 dl disk ?s0 rs syskrnldr] io vol(1,2) found obtain s1 where
    r: "j < 32" "find_file int13 syskrnldr dl ?s0 = Some (Inr (0x1000 + of_nat (32 * j), s1))"
      "es s1 = 0" "bPhysicalDriveNum s1 = dl" "copy_at (ram s1) ?f" "confined ?m0 (ram s1) loader_area"
      "load32 (ram s1) 0x7C34 = first_data_sector ?m0" "DAP_count s1 = 1"
    by (auto simp del: of_nat_mult)
  let ?s = "s1\<lparr>kernel_size := slot_size ?f j, esi := slot_cluster ?f j\<rparr>"
  have run: "FixCS int13 dl s = LoadFile int13 0x500 ?s"
    using r(2) entry_fields [OF r(5,3,1)] by (simp add: FixCS_def del: of_nat_mult)
  have pre: "reads_disk int13 (bPhysicalDriveNum ?s) disk" "steady int13 ?s"
    "block_kept ?m0 (ram ?s)" "load32 (ram ?s) 0x7C34 = first_data_sector ?m0" "file_chain disk ?m0 (esi ?s) cs"
    "unat (0x500 :: u16) + cluster_size ?m0 * length cs < 2 ^ 16"
    "apart_from_block (unat (0x500 :: u16)) (unat (0x500 :: u16) + cluster_size ?m0 * length cs)"
    using io r(4,7,8) fc fits loader_area_block [OF block_kept_refl r(6)] by (simp_all add: apart_from_block_def steady_def)
  from LoadFile_ok [OF pre(1,2) vol(1) pre(3-)] obtain s' where l:
    "LoadFile int13 0x500 ?s = Some (Inr s')" "bPhysicalDriveNum s' = dl" "kernel_size s' = slot_size ?f j"
    "confined (ram s1) (ram s') ({0x500..<0x500 + cluster_size ?m0 * length cs} \<union> scratch_area)"
    "\<And>i. i < cluster_size ?m0 * length cs \<Longrightarrow> 0x500 + i \<notin> scratch_area \<Longrightarrow>
       ram s' (of_nat (0x500 + i)) = file_byte disk ?m0 cs i"
    "\<forall>i < 512. ram s' (of_nat (0x4000 + i)) = disk (fat_sector ?m0 (last cs)) i"
    by (auto simp: r(4))
  have "confined ?m0 (ram s') loader_area"
    by (rule confined_trans [OF r(6) l(4)]) (use fits in \<open>auto simp: scratch_area_def loader_area_def\<close>)
  moreover have "ram s' (of_nat (0x500 + i)) = file_byte disk ?m0 cs i"
    if "i < cluster_size ?m0 * length cs" "i < 0x3B00 \<or> 0x3D00 \<le> i" for i
    by (rule l(5)) (use that fits in \<open>auto simp: scratch_area_def\<close>)
  ultimately show ?thesis using run l(1-3,6) by auto
qed

lemma Boot1_ok:
  assumes io: "reads_disk int13 dl disk" "no_faults int13 dl"
    and vol: "volume (ram s)" "root_directory disk (ram s) rs" "root_file disk (ram s) rs szStage2 (c, j) cs"
    and fits: "cluster_size (ram s) * length cs \<le> 0x8000"
  shows "\<exists>s'. Boot1 int13 dl s = Some (Inr s') \<and> bPhysicalDriveNum s' = dl \<and>
    confined (ram s) (ram s') (loader_area \<union> {0x7E00..<0x7E00 + cluster_size (ram s) * length cs}) \<and>
    (\<forall>i < cluster_size (ram s) * length cs. ram s' (of_nat (0x7E00 + i)) = file_byte disk (ram s) cs i)"
proof -
  let ?m0 = "ram s" and ?f = "cluster_byte disk (ram s) c" and ?s0 = "s\<lparr>DAP_count := 1\<rparr>"
  from vol(3) have found: "root_lookup szStage2 (cluster_byte disk ?m0) rs = Some (c, j)"
    and fc: "file_chain disk ?m0 (slot_cluster ?f j) cs" by (simp_all add: root_file_def)
  from find_file_ok [of int13 dl disk ?s0 rs szStage2] io vol(1,2) found obtain s1 where
    r: "j < 32" "find_file int13 szStage2 dl ?s0 = Some (Inr (0x1000 + of_nat (32 * j), s1))"
      "es s1 = 0" "bPhysicalDriveNum s1 = dl" "copy_at (ram s1) ?f" "confined ?m0 (ram s1) loader_area"
      "load32 (ram s1) 0x7C34 = first_data_sector ?m0" "DAP_count s1 = 1"
    by (auto simp del: of_nat_mult)
  let ?s = "s1\<lparr>esi := slot_cluster ?f j\<rparr>"
  have run: "Boot1 int13 dl s = LoadFile int13 0x7E00 ?s"
    using r(2) entry_fields(1) [OF r(5,3,1)] by (simp add: Boot1_def del: of_nat_mult)
  have pre: "reads_disk int13 (bPhysicalDriveNum ?s) disk" "steady int13 ?s"
    "block_kept ?m0 (ram ?s)" "load32 (ram ?s) 0x7C34 = first_data_sector ?m0" "file_chain disk ?m0 (esi ?s) cs"
    "unat (0x7E00 :: u16) + cluster_size ?m0 * length cs < 2 ^ 16"
    "apart_from_block (unat (0x7E00 :: u16)) (unat (0x7E00 :: u16) + cluster_size ?m0 * length cs)"
    using io r(4,7,8) fc fits loader_area_block [OF block_kept_refl r(6)] by (simp_all add: apart_from_block_def steady_def)
  from LoadFile_ok [OF pre(1,2) vol(1) pre(3-)] obtain s' where l:
    "LoadFile int13 0x7E00 ?s = Some (Inr s')" "bPhysicalDriveNum s' = dl"
    "confined (ram s1) (ram s') ({0x7E00..<0x7E00 + cluster_size ?m0 * length cs} \<union> scratch_area)"
    "\<And>i. i < cluster_size ?m0 * length cs \<Longrightarrow> 0x7E00 + i \<notin> scratch_area \<Longrightarrow>
       ram s' (of_nat (0x7E00 + i)) = file_byte disk ?m0 cs i"
    by (auto simp: r(4))
  have "confined ?m0 (ram s') (loader_area \<union> {0x7E00..<0x7E00 + cluster_size ?m0 * length cs})"
    by (rule confined_trans [OF r(6) l(3)]) (auto simp: scratch_area_def loader_area_def)
  moreover have "ram s' (of_nat (0x7E00 + i)) = file_byte disk ?m0 cs i"
    if "i < cluster_size ?m0 * length cs" for i
    by (rule l(4)) (use that in \<open>auto simp: scratch_area_def\<close>)
  ultimately show ?thesis using run l(1,2) by auto
qed

end
