(* ===== verification/LongMode.thy ===== *)
theory LongMode
  imports Boot "HOL-Library.Monad_Syntax"
begin

text \<open>
  The second stage between the loaded file and the kernel: the check of the processor
  (\<open>boot/includes/cpu.inc\<close>), the A20 gate (\<open>A20.inc\<close>), the descriptor table (\<open>Gdt.inc\<close>), and the
  way through protected mode (\<open>LoaderEntry32\<close>) into 64-bit mode (\<open>LoaderEntry64\<close>) of
  \<open>boot/fat32/Stage2_X86.asm\<close>. The instructions that touch control registers, segment
  registers and the EFER register are functions that may fault, with the conditions the
  processor puts on them; the faults end the boot, as no handler is installed.
\<close>

section \<open>The processor\<close>

datatype sreg = CS | DS | ES | FS | GS | SS

datatype mode = Bits16 | Bits32 | Bits64

datatype fault = General_protection | Not_present | Stack_fault

text \<open>\<open>cpuid leaf\<close> gives EAX and EDX; a processor without the instruction has \<open>has_cpuid\<close> false.\<close>

record processor =
  cr0 :: u32
  cr4 :: u32
  efer :: u32
  gdt :: "u64 list"
  segment :: "sreg \<Rightarrow> u16"
  mode :: mode
  rsp :: u64
  rip :: u64
  has_cpuid :: bool
  cpuid :: "u32 \<Rightarrow> u32 \<times> u32"

definition supports_pae :: "processor \<Rightarrow> bool" where
  "supports_pae p \<longleftrightarrow> bit (snd (cpuid p 1)) 6"

definition supports_long_mode :: "processor \<Rightarrow> bool" where
  "supports_long_mode p \<longleftrightarrow> bit (snd (cpuid p 0x80000001)) 29"

fun and_then :: "'e + 'a \<Rightarrow> ('a \<Rightarrow> 'e + 'b) \<Rightarrow> 'e + 'b" where
  "and_then (Inl e) f = Inl e"
| "and_then (Inr x) f = f x"

text \<open>
  The fields of a descriptor: present, code or data (bit 44), executable, readable or writable,
  long code segment, 32-bit segment.
\<close>

definition seg_present :: "u64 \<Rightarrow> bool" where "seg_present d \<longleftrightarrow> bit d 47"
definition seg_user :: "u64 \<Rightarrow> bool" where "seg_user d \<longleftrightarrow> bit d 44"
definition seg_code :: "u64 \<Rightarrow> bool" where "seg_code d \<longleftrightarrow> bit d 43"
definition seg_rw :: "u64 \<Rightarrow> bool" where "seg_rw d \<longleftrightarrow> bit d 41"
definition seg_long :: "u64 \<Rightarrow> bool" where "seg_long d \<longleftrightarrow> bit d 53"
definition seg_big :: "u64 \<Rightarrow> bool" where "seg_big d \<longleftrightarrow> bit d 54"

definition selected :: "processor \<Rightarrow> u16 \<Rightarrow> u64 option" where
  "selected p sel =
     (if unat sel div 8 = 0 \<or> length (gdt p) \<le> unat sel div 8 then None else Some (gdt p ! (unat sel div 8)))"

definition mov_sreg :: "sreg \<Rightarrow> u16 \<Rightarrow> processor \<Rightarrow> fault + processor" where
  "mov_sreg r sel p =
     (case selected p sel of
        None \<Rightarrow> Inl General_protection
      | Some d \<Rightarrow>
          if \<not> seg_user d \<or> (if r = SS then seg_code d \<or> \<not> seg_rw d else seg_code d \<and> \<not> seg_rw d)
          then Inl General_protection
          else if \<not> seg_present d then Inl (if r = SS then Stack_fault else Not_present)
          else Inr (p\<lparr>segment := (segment p)(r := sel)\<rparr>))"

text \<open>A far jump or return: the new code segment decides the mode.\<close>

definition far_transfer :: "u16 \<Rightarrow> processor \<Rightarrow> fault + processor" where
  "far_transfer sel p =
     (case selected p sel of
        None \<Rightarrow> Inl General_protection
      | Some d \<Rightarrow>
          if \<not> seg_user d \<or> \<not> seg_code d \<or> bit (efer p) 10 \<and> seg_long d \<and> seg_big d
          then Inl General_protection
          else if \<not> seg_present d then Inl Not_present
          else Inr (p\<lparr>segment := (segment p)(CS := sel),
                 mode := (if bit (efer p) 10 \<and> seg_long d then Bits64 else if seg_big d then Bits32 else Bits16)\<rparr>))"

text \<open>Paging with LME needs PAE and a code segment that is not long; it sets LMA (bit 10 of EFER).\<close>

definition mov_cr0 :: "u32 \<Rightarrow> processor \<Rightarrow> fault + processor" where
  "mov_cr0 v p =
     (if bit v 31 \<and> \<not> bit v 0 then Inl General_protection
      else if bit v 31 \<and> \<not> bit (cr0 p) 31 \<and> bit (efer p) 8 then
        (if \<not> bit (cr4 p) 5 \<or> (case selected p (segment p CS) of Some d \<Rightarrow> seg_long d | None \<Rightarrow> False)
         then Inl General_protection
         else Inr (p\<lparr>cr0 := v, efer := efer p OR 0x400\<rparr>))
      else if \<not> bit v 31 \<and> bit (cr0 p) 31 then
        (if mode p = Bits64 then Inl General_protection
         else Inr (p\<lparr>cr0 := v, efer := efer p AND NOT 0x400\<rparr>))
      else Inr (p\<lparr>cr0 := v\<rparr>))"

definition mov_cr4 :: "u32 \<Rightarrow> processor \<Rightarrow> fault + processor" where
  "mov_cr4 v p = (if bit v 5 \<and> \<not> supports_pae p then Inl General_protection else Inr (p\<lparr>cr4 := v\<rparr>))"

definition wrmsr_efer :: "u32 \<Rightarrow> processor \<Rightarrow> fault + processor" where
  "wrmsr_efer v p =
     (if bit v 8 \<and> \<not> supports_long_mode p \<or> bit (cr0 p) 31 \<and> bit v 8 \<noteq> bit (efer p) 8
      then Inl General_protection else Inr (p\<lparr>efer := v\<rparr>))"

section \<open>The check of the processor\<close>

datatype cpu_check = No_CPUID | No_long_mode | CPU_accepted

text \<open>
  The last \<open>cpuid\<close>, for leaf 0x80000001, is executed, but no instruction looks at its result.
\<close>

definition DetectCPU :: "processor \<Rightarrow> cpu_check" where
  "DetectCPU p =
     (if \<not> has_cpuid p then No_CPUID
      else if fst (cpuid p 0x80000000) < 0x80000001 then No_long_mode
      else CPU_accepted)"

section \<open>The A20 gate\<close>

text \<open>
  The keyboard controller: what the reads of port 0x64 (the status) return, how many were made,
  what a read of port 0x60 returns, and the writes to both ports.
\<close>

record keyboard =
  status :: "nat \<Rightarrow> u8"
  status_reads :: nat
  output_port :: u8
  commands :: "(u16 \<times> u8) list"

partial_function (option) wait_input :: "keyboard \<Rightarrow> keyboard option" where
  "wait_input k =
     (let al = status k (status_reads k);
          k = k\<lparr>status_reads := status_reads k + 1\<rparr>
      in if al AND 2 \<noteq> 0 then wait_input k else Some k)"

partial_function (option) wait_output :: "keyboard \<Rightarrow> keyboard option" where
  "wait_output k =
     (let al = status k (status_reads k);
          k = k\<lparr>status_reads := status_reads k + 1\<rparr>
      in if al AND 1 = 0 then wait_output k else Some k)"

definition kbd_out :: "u16 \<Rightarrow> u8 \<Rightarrow> keyboard \<Rightarrow> keyboard" where
  "kbd_out port v k = k\<lparr>commands := commands k @ [(port, v)]\<rparr>"

definition EnableA20_KKbrd_Out :: "keyboard \<Rightarrow> keyboard option" where
  "EnableA20_KKbrd_Out k =
     do {
       k \<leftarrow> wait_input k;
       k \<leftarrow> wait_input (kbd_out 0x64 0xAD k);
       k \<leftarrow> wait_output (kbd_out 0x64 0xD0 k);
       let al = output_port k;
       k \<leftarrow> wait_input k;
       k \<leftarrow> wait_input (kbd_out 0x64 0xD1 k);
       k \<leftarrow> wait_input (kbd_out 0x60 (al OR 2) k);
       wait_input (kbd_out 0x64 0xAE k)
     }"

section \<open>The descriptor table\<close>

definition CODE_DESC :: u16 where "CODE_DESC = 0x8"
definition DATA_SEGMENT :: u16 where "DATA_SEGMENT = 0x10"
definition CODE64_DESC :: u16 where "CODE64_DESC = 0x28"
definition DATA_SEGMENT64 :: u16 where "DATA_SEGMENT64 = 0x30"

definition descriptor :: "u16 \<Rightarrow> u16 \<Rightarrow> u8 \<Rightarrow> u8 \<Rightarrow> u8 \<Rightarrow> u8 \<Rightarrow> u64" where
  "descriptor limit_low base_low base_middle access granularity base_high =
     ucast limit_low OR push_bit 16 (ucast base_low) OR push_bit 32 (ucast base_middle) OR
     push_bit 40 (ucast access) OR push_bit 48 (ucast granularity) OR push_bit 56 (ucast base_high)"

definition StartOfGdt :: "u64 list" where
  "StartOfGdt =
    [0,
     descriptor 0xFFFF 0 0 0x9A 0xCF 0,
     descriptor 0xFFFF 0 0 0x92 0xCF 0,
     descriptor 0xFFFF 0 0 0x9A 0x0F 0,
     descriptor 0xFFFF 0 0 0x92 0x0F 0,
     descriptor 0 0 0 0x9A 0x20 0,
     descriptor 0 0 0 0x92 0 0]"

definition GdtInstall :: "processor \<Rightarrow> processor" where
  "GdtInstall p = p\<lparr>gdt := StartOfGdt\<rparr>"

section \<open>Through protected mode\<close>

definition enter_protected_mode :: "processor \<Rightarrow> fault + processor" where
  "enter_protected_mode p = and_then (mov_cr0 (cr0 p OR 1) p) (far_transfer CODE_DESC)"

fun load_segments :: "sreg list \<Rightarrow> u16 \<Rightarrow> processor \<Rightarrow> fault + processor" where
  "load_segments [] sel p = Inr p"
| "load_segments (r # rs) sel p = and_then (mov_sreg r sel p) (load_segments rs sel)"

definition switch_to_long_mode :: "u32 \<Rightarrow> processor \<times> 'a machine_scheme \<Rightarrow> fault + (processor \<times> 'a machine_scheme)" where
  "switch_to_long_mode KernelSize s =
     (let (p, m) = s
      in and_then (load_segments [DS, ES, FS, SS, GS] DATA_SEGMENT p) (\<lambda>p.
         let m = m\<lparr>mem := rep_movsb (unat KernelSize) 0x500 0x100000 (mem m)\<rparr>
         in and_then (mov_cr0 (cr0 p AND 0x7FFFFFFF) p) (\<lambda>p.
            let m = m\<lparr>mem := loader_tables (mem m)\<rparr>
            in and_then (mov_cr4 (cr4 p OR 0x20) p) (\<lambda>p.
               let m = m\<lparr>cr3 := 0x1000\<rparr>
               in and_then (wrmsr_efer (efer p OR 0x100) p) (\<lambda>p.
                  and_then (mov_cr0 (cr0 p OR 0x80000000) p) (\<lambda>p.
                  and_then (far_transfer CODE64_DESC p) (\<lambda>p. Inr (p, m))))))))"

definition LoaderEntry64 :: "processor \<Rightarrow> fault + processor" where
  "LoaderEntry64 p =
     and_then (load_segments [DS, ES, FS, GS, SS] DATA_SEGMENT64 p) (\<lambda>p.
       Inr (p\<lparr>rsp := 0x90000, rip := 0x100000\<rparr>))"

text \<open>From the loaded file to the first instruction of the kernel.\<close>

definition start_kernel :: "u32 \<Rightarrow> processor \<times> 'a machine_scheme \<Rightarrow> fault + (processor \<times> 'a machine_scheme)" where
  "start_kernel KernelSize s =
     and_then (enter_protected_mode (GdtInstall (fst s))) (\<lambda>p.
     and_then (switch_to_long_mode KernelSize (p, snd s)) (\<lambda>s.
     and_then (LoaderEntry64 (fst s)) (\<lambda>p. Inr (p, snd s))))"

section \<open>The switch succeeds\<close>

lemma gdt_entries:
  "seg_user (StartOfGdt ! 1)" "seg_code (StartOfGdt ! 1)" "seg_present (StartOfGdt ! 1)" "seg_big (StartOfGdt ! 1)"
  "\<not> seg_long (StartOfGdt ! 1)"
  "seg_user (StartOfGdt ! 2)" "\<not> seg_code (StartOfGdt ! 2)" "seg_rw (StartOfGdt ! 2)" "seg_present (StartOfGdt ! 2)"
  "seg_user (StartOfGdt ! 5)" "seg_code (StartOfGdt ! 5)" "seg_present (StartOfGdt ! 5)" "seg_long (StartOfGdt ! 5)"
  "\<not> seg_big (StartOfGdt ! 5)"
  "seg_user (StartOfGdt ! 6)" "\<not> seg_code (StartOfGdt ! 6)" "seg_rw (StartOfGdt ! 6)" "seg_present (StartOfGdt ! 6)"
  by (simp_all add: StartOfGdt_def descriptor_def seg_user_def seg_code_def seg_present_def seg_big_def seg_long_def
      seg_rw_def)

lemma gdt_selected:
  assumes "gdt p = StartOfGdt"
  shows "selected p CODE_DESC = Some (StartOfGdt ! 1)" "selected p DATA_SEGMENT = Some (StartOfGdt ! 2)"
    "selected p CODE64_DESC = Some (StartOfGdt ! 5)" "selected p DATA_SEGMENT64 = Some (StartOfGdt ! 6)"
  by (simp_all add: selected_def assms CODE_DESC_def DATA_SEGMENT_def CODE64_DESC_def DATA_SEGMENT64_def)
    (simp_all add: StartOfGdt_def)

lemma load_segments_data:
  "gdt p = StartOfGdt \<Longrightarrow> sel = DATA_SEGMENT \<or> sel = DATA_SEGMENT64 \<Longrightarrow>
   load_segments rs sel p = Inr (p\<lparr>segment := (\<lambda>r. if r \<in> set rs then sel else segment p r)\<rparr>)"
proof (induction rs arbitrary: p)
  case Nil
  then show ?case by simp
next
  case (Cons r rs)
  from Cons.prems have "mov_sreg r sel p = Inr (p\<lparr>segment := (segment p)(r := sel)\<rparr>)"
    by (auto simp: mov_sreg_def gdt_selected gdt_entries)
  with Cons.IH [of "p\<lparr>segment := (segment p)(r := sel)\<rparr>"] Cons.prems show ?case
    by (auto simp: fun_eq_iff)
qed

lemma enter_protected_mode_ok:
  assumes "\<not> bit (cr0 p) 31"
  shows "enter_protected_mode (GdtInstall p) = Inr (p\<lparr>gdt := StartOfGdt, cr0 := cr0 p OR 1,
    segment := (segment p)(CS := CODE_DESC), mode := Bits32\<rparr>)"
  using assms
  by (simp add: enter_protected_mode_def GdtInstall_def mov_cr0_def far_transfer_def gdt_selected gdt_entries
      bit_or_iff bit_1_iff del: One_nat_def)

lemma bits32:
  "bit (v AND 0x7FFFFFFF :: u32) n \<longleftrightarrow> bit v n \<and> n < 31" "bit (v OR 0x20 :: u32) n \<longleftrightarrow> bit v n \<or> n = 5"
  "bit (v OR 0x100 :: u32) n \<longleftrightarrow> bit v n \<or> n = 8" "bit (v OR 0x400 :: u32) n \<longleftrightarrow> bit v n \<or> n = 10"
  "bit (v OR 0x80000000 :: u32) n \<longleftrightarrow> bit v n \<or> n = 31"
proof -
  have m: "(0x7FFFFFFF :: u32) = mask 31" by (simp add: mask_eq_exp_minus_1)
  show "bit (v AND 0x7FFFFFFF :: u32) n \<longleftrightarrow> bit v n \<and> n < 31"
    unfolding m by (auto simp only: bit_and_iff bit_mask_iff) auto
  have p: "(0x20 :: u32) = push_bit 5 1" "(0x100 :: u32) = push_bit 8 1" "(0x400 :: u32) = push_bit 10 1"
    "(0x80000000 :: u32) = push_bit 31 1" by simp_all
  have or: "bit (v OR push_bit k 1 :: u32) n \<longleftrightarrow> bit v n \<or> n = k \<and> n < 32" for k
    unfolding bit_or_iff bit_push_bit_iff bit_1_iff by auto
  show "bit (v OR 0x20 :: u32) n \<longleftrightarrow> bit v n \<or> n = 5" "bit (v OR 0x100 :: u32) n \<longleftrightarrow> bit v n \<or> n = 8"
    "bit (v OR 0x400 :: u32) n \<longleftrightarrow> bit v n \<or> n = 10" "bit (v OR 0x80000000 :: u32) n \<longleftrightarrow> bit v n \<or> n = 31"
    unfolding p or by auto
qed

text \<open>The state in which \<open>LoaderEntry32\<close> finds the processor, and the one it leaves it in.\<close>

definition protected_mode :: "processor \<Rightarrow> bool" where
  "protected_mode p \<longleftrightarrow> gdt p = StartOfGdt \<and> segment p CS = CODE_DESC \<and> mode p = Bits32 \<and>
     bit (cr0 p) 0 \<and> \<not> bit (cr0 p) 31"

definition long_mode :: "processor \<Rightarrow> bool" where
  "long_mode p \<longleftrightarrow> gdt p = StartOfGdt \<and> segment p CS = CODE64_DESC \<and> mode p = Bits64 \<and>
     bit (cr0 p) 0 \<and> bit (cr0 p) 31 \<and> bit (cr4 p) 5 \<and> bit (efer p) 8 \<and> bit (efer p) 10"

lemma switch_to_long_mode_ok:
  assumes "protected_mode p" "supports_pae p" "supports_long_mode p"
  shows "\<exists>p'. switch_to_long_mode n (p, m) = Inr (p', LoaderEntry32 n m) \<and> long_mode p'"
proof -
  have g: "gdt p = StartOfGdt" and cs: "segment p CS = CODE_DESC" and pe: "bit (cr0 p) 0" "\<not> bit (cr0 p) 31"
    using assms(1) by (simp_all add: protected_mode_def)
  let ?p = "p\<lparr>segment := (\<lambda>r. if r \<in> set [DS, ES, FS, SS, GS] then DATA_SEGMENT else segment p r)\<rparr>"
  have "load_segments [DS, ES, FS, SS, GS] DATA_SEGMENT p = Inr ?p"
    by (rule load_segments_data) (simp_all add: g)
  moreover have "mov_cr0 (cr0 p AND 0x7FFFFFFF) ?p = Inr (?p\<lparr>cr0 := cr0 p AND 0x7FFFFFFF\<rparr>)"
    using pe by (simp add: mov_cr0_def bits32)
  ultimately show ?thesis
    using assms(2,3) g cs pe
    by (simp add: switch_to_long_mode_def Let_def mov_cr0_def mov_cr4_def wrmsr_efer_def far_transfer_def
        supports_pae_def supports_long_mode_def bits32 gdt_selected gdt_entries long_mode_def LoaderEntry32_def
        del: One_nat_def)
qed

text \<open>Without long mode the write to EFER faults at the latest.\<close>

lemma switch_to_long_mode_faults:
  assumes "protected_mode p" "\<not> supports_long_mode p"
  shows "switch_to_long_mode n (p, m) = Inl General_protection"
proof -
  have g: "gdt p = StartOfGdt" and pe: "\<not> bit (cr0 p) 31" using assms(1) by (simp_all add: protected_mode_def)
  let ?p = "p\<lparr>segment := (\<lambda>r. if r \<in> set [DS, ES, FS, SS, GS] then DATA_SEGMENT else segment p r)\<rparr>"
  have "load_segments [DS, ES, FS, SS, GS] DATA_SEGMENT p = Inr ?p"
    by (rule load_segments_data) (simp_all add: g)
  moreover have "mov_cr0 (cr0 p AND 0x7FFFFFFF) ?p = Inr (?p\<lparr>cr0 := cr0 p AND 0x7FFFFFFF\<rparr>)"
    using pe by (simp add: mov_cr0_def bits32)
  ultimately show ?thesis
    using assms(2)
    by (simp add: switch_to_long_mode_def Let_def mov_cr4_def wrmsr_efer_def supports_long_mode_def bits32)
qed

lemma LoaderEntry64_ok:
  assumes "long_mode p"
  shows "\<exists>p'. LoaderEntry64 p = Inr p' \<and> long_mode p' \<and> rsp p' = 0x90000 \<and> rip p' = 0x100000"
proof -
  have "load_segments [DS, ES, FS, GS, SS] DATA_SEGMENT64 p =
      Inr (p\<lparr>segment := (\<lambda>r. if r \<in> set [DS, ES, FS, GS, SS] then DATA_SEGMENT64 else segment p r)\<rparr>)"
    by (rule load_segments_data) (use assms in \<open>simp_all add: long_mode_def\<close>)
  with assms show ?thesis by (simp add: LoaderEntry64_def long_mode_def)
qed

lemma start_kernel_ok:
  assumes "\<not> bit (cr0 p) 31" "supports_pae p" "supports_long_mode p"
  shows "\<exists>p'. start_kernel n (p, m) = Inr (p', LoaderEntry32 n m) \<and> long_mode p' \<and>
    rsp p' = 0x90000 \<and> rip p' = 0x100000"
proof -
  let ?p = "p\<lparr>gdt := StartOfGdt, cr0 := cr0 p OR 1, segment := (segment p)(CS := CODE_DESC), mode := Bits32\<rparr>"
  have "protected_mode ?p" using assms(1) by (simp add: protected_mode_def bit_or_iff bit_1_iff)
  moreover have "supports_pae ?p" "supports_long_mode ?p"
    using assms(2,3) by (simp_all add: supports_pae_def supports_long_mode_def)
  ultimately obtain p1 where "switch_to_long_mode n (?p, m) = Inr (p1, LoaderEntry32 n m)" "long_mode p1"
    using switch_to_long_mode_ok by blast
  moreover obtain p2 where "LoaderEntry64 p1 = Inr p2" "long_mode p2" "rsp p2 = 0x90000" "rip p2 = 0x100000"
    using LoaderEntry64_ok [OF \<open>long_mode p1\<close>] by blast
  ultimately show ?thesis by (simp add: start_kernel_def enter_protected_mode_ok [OF assms(1)])
qed

section \<open>The keyboard controller answers\<close>

text \<open>At any time it will be ready for input later, and have output later.\<close>

definition controller_live :: "keyboard \<Rightarrow> bool" where
  "controller_live k \<longleftrightarrow>
     (\<forall>n. \<exists>i \<ge> n. status k i AND 2 = 0) \<and> (\<forall>n. \<exists>i \<ge> n. status k i AND 1 \<noteq> 0)"

lemma controller_live_fields [simp]:
  "controller_live (k\<lparr>status_reads := n\<rparr>) = controller_live k"
  "controller_live (k\<lparr>commands := c\<rparr>) = controller_live k"
  by (simp_all add: controller_live_def)

lemma wait_input_returns:
  "n \<ge> status_reads k \<Longrightarrow> status k n AND 2 = 0 \<Longrightarrow> \<exists>r. wait_input k = Some (k\<lparr>status_reads := r\<rparr>)"
proof (induction "n - status_reads k" arbitrary: k)
  case 0
  then show ?case by (subst wait_input.simps) (auto simp: Let_def)
next
  case (Suc d)
  let ?k = "k\<lparr>status_reads := status_reads k + 1\<rparr>"
  have "\<exists>r. wait_input ?k = Some (k\<lparr>status_reads := r\<rparr>)" using Suc.hyps(1) [of ?k] Suc.hyps(2) Suc.prems by simp
  then show ?case by (subst wait_input.simps) (auto simp: Let_def)
qed

lemma wait_output_returns:
  "n \<ge> status_reads k \<Longrightarrow> status k n AND 1 \<noteq> 0 \<Longrightarrow> \<exists>r. wait_output k = Some (k\<lparr>status_reads := r\<rparr>)"
proof (induction "n - status_reads k" arbitrary: k)
  case 0
  then show ?case by (subst wait_output.simps) (auto simp: Let_def)
next
  case (Suc d)
  let ?k = "k\<lparr>status_reads := status_reads k + 1\<rparr>"
  have "\<exists>r. wait_output ?k = Some (k\<lparr>status_reads := r\<rparr>)" using Suc.hyps(1) [of ?k] Suc.hyps(2) Suc.prems by simp
  then show ?case by (subst wait_output.simps) (auto simp: Let_def)
qed

lemma waits_live:
  assumes "controller_live k"
  shows "\<exists>r. wait_input k = Some (k\<lparr>status_reads := r\<rparr>)" "\<exists>r. wait_output k = Some (k\<lparr>status_reads := r\<rparr>)"
  using assms wait_input_returns wait_output_returns unfolding controller_live_def by blast+

definition a20_commands :: "u8 \<Rightarrow> (u16 \<times> u8) list" where
  "a20_commands v = [(0x64, 0xAD), (0x64, 0xD0), (0x64, 0xD1), (0x60, v OR 2), (0x64, 0xAE)]"

text \<open>The result of a step, as far as the ports go.\<close>

definition sends :: "keyboard option \<Rightarrow> (u16 \<times> u8) list \<Rightarrow> bool" where
  "sends r c \<longleftrightarrow> (\<exists>k. r = Some k \<and> commands k = c)"

lemma sends_waits:
  assumes "controller_live k"
  shows "commands k = c \<Longrightarrow> sends (wait_input k) c"
    "(\<And>r. sends (f (k\<lparr>status_reads := r\<rparr>)) c) \<Longrightarrow> sends (Option.bind (wait_input k) f) c"
    "(\<And>r. sends (f (k\<lparr>status_reads := r\<rparr>)) c) \<Longrightarrow> sends (Option.bind (wait_output k) f) c"
  using waits_live [OF assms] by (auto simp: sends_def)

lemma EnableA20_sends:
  assumes "controller_live k"
  shows "sends (EnableA20_KKbrd_Out k) (commands k @ a20_commands (output_port k))"
  unfolding EnableA20_KKbrd_Out_def Let_def
  by (intro sends_waits) (simp_all add: assms kbd_out_def a20_commands_def)

section \<open>Properties\<close>

text \<open>
  C11: On a processor with long mode the way from real mode to the kernel's first instruction
  meets no fault: every selector names a present descriptor of the right kind, PAE, LME and
  paging are switched on in an order the processor accepts, and it arrives in 64-bit mode at
  1 MiB with its stack below 0x90000. Kernel and tables are what \<open>LoaderEntry32\<close> makes of the
  memory, and the processor translates the whole first gigabyte, with code and stack, to itself.
\<close>

theorem enters_long_mode:
  assumes "\<not> bit (cr0 p) 31" "supports_pae p" "supports_long_mode p"
  shows "\<exists>p'. start_kernel n (p, m) = Inr (p', LoaderEntry32 n m) \<and> mode p' = Bits64 \<and>
    bit (cr0 p') 0 \<and> bit (cr0 p') 31 \<and> bit (cr4 p') 5 \<and> bit (efer p') 10 \<and>
    rsp p' = 0x90000 \<and> rip p' = 0x100000 \<and>
    (\<forall>v. unat v < 2 ^ 30 \<longrightarrow>
       mmu_translate (mem (LoaderEntry32 n m)) (cr3 (LoaderEntry32 n m)) v = Some v)"
proof -
  have "mmu_translate (mem (LoaderEntry32 n m)) (cr3 (LoaderEntry32 n m)) v = Some v" if "unat v < 2 ^ 30" for v
    using identity_translate [OF identity_tables_map [OF loader_tables_result(2)] that]
    by (simp add: LoaderEntry32_def)
  with start_kernel_ok [OF assms, of n m] show ?thesis unfolding long_mode_def by blast
qed

definition example_processor :: "u32 \<Rightarrow> processor" where
  "example_processor features = \<lparr>cr0 = 0x10, cr4 = 0, efer = 0, gdt = [], segment = \<lambda>_. 0, mode = Bits16,
     rsp = 0, rip = 0, has_cpuid = True,
     cpuid = (\<lambda>leaf. if leaf = 0x80000000 then (0x80000001, 0) else if leaf = 1 then (0, 0x40) else (0, features))\<rparr>"

lemma example_processor_checks:
  "\<not> bit (cr0 (example_processor f)) 31" "supports_pae (example_processor f)"
  "supports_long_mode (example_processor 0x20000000)" "\<not> supports_long_mode (example_processor 0)"
  "DetectCPU (example_processor f) = CPU_accepted"
  by (simp_all add: example_processor_def supports_pae_def supports_long_mode_def DetectCPU_def)

theorem enters_long_mode_witness:
  "\<exists>p'. start_kernel 0x3000 (example_processor 0x20000000, example_vmm) = Inr (p', LoaderEntry32 0x3000 example_vmm) \<and>
     mode p' = Bits64 \<and> rip p' = 0x100000 \<and>
     mmu_translate (mem (LoaderEntry32 0x3000 example_vmm)) (cr3 (LoaderEntry32 0x3000 example_vmm)) 0x100000 =
       Some 0x100000"
proof -
  from enters_long_mode [OF example_processor_checks(1-3), of "0x3000" example_vmm] obtain p' where
    "start_kernel 0x3000 (example_processor 0x20000000, example_vmm) = Inr (p', LoaderEntry32 0x3000 example_vmm)"
    "mode p' = Bits64" "rip p' = 0x100000"
    "\<And>v. unat v < 2 ^ 30 \<Longrightarrow>
       mmu_translate (mem (LoaderEntry32 0x3000 example_vmm)) (cr3 (LoaderEntry32 0x3000 example_vmm)) v = Some v"
    by blast
  moreover from this(4) [of "0x100000"]
  have "mmu_translate (mem (LoaderEntry32 0x3000 example_vmm)) (cr3 (LoaderEntry32 0x3000 example_vmm)) 0x100000 =
      Some 0x100000" by simp
  ultimately show ?thesis by blast
qed

text \<open>
  C14: \<open>DetectCPU\<close> asks whether the processor has the extended feature leaf but never looks at
  the long-mode bit in it: a processor with \<open>cpuid\<close>, the leaf and no long mode is accepted (with
  paging off at the switch), and the switch then ends in a general protection fault, at the write of LME to EFER if not before.
\<close>

theorem no_long_mode_accepted:
  assumes "has_cpuid p" "0x80000001 \<le> fst (cpuid p 0x80000000)" "\<not> bit (snd (cpuid p 0x80000001)) 29"
    and "\<not> bit (cr0 p) 31"
  shows "DetectCPU p = CPU_accepted \<and> start_kernel n (p, m) = Inl General_protection"
proof -
  let ?p = "p\<lparr>gdt := StartOfGdt, cr0 := cr0 p OR 1, segment := (segment p)(CS := CODE_DESC), mode := Bits32\<rparr>"
  have "protected_mode ?p" using assms(4) by (simp add: protected_mode_def bit_or_iff bit_1_iff)
  moreover have "\<not> supports_long_mode ?p" using assms(3) by (simp add: supports_long_mode_def)
  ultimately have "switch_to_long_mode n (?p, m) = Inl General_protection" by (rule switch_to_long_mode_faults)
  then have "start_kernel n (p, m) = Inl General_protection"
    by (simp add: start_kernel_def enter_protected_mode_ok [OF assms(4)])
  with assms(1,2) show ?thesis by (simp add: DetectCPU_def)
qed

theorem no_long_mode_accepted_witness:
  "DetectCPU (example_processor 0) = CPU_accepted \<and>
   start_kernel 0x3000 (example_processor 0, example_vmm) = Inl General_protection"
  by (rule no_long_mode_accepted) (simp_all add: example_processor_def)

text \<open>
  Enabling the A20 gate returns when the keyboard controller keeps answering, and sends it
  exactly the five commands: keyboard off, read the output port, write it back with the gate's
  bit set and every other bit as it was, keyboard on.
\<close>

lemma a20_enabled:
  assumes "\<forall>n. \<exists>i \<ge> n. status k i AND 2 = 0" "\<forall>n. \<exists>i \<ge> n. status k i AND 1 \<noteq> 0"
  shows "\<exists>k'. EnableA20_KKbrd_Out k = Some k' \<and> commands k' = commands k @
    [(0x64, 0xAD), (0x64, 0xD0), (0x64, 0xD1), (0x60, output_port k OR 2), (0x64, 0xAE)]"
  using EnableA20_sends [of k] assms by (simp add: controller_live_def sends_def a20_commands_def)

definition example_keyboard :: keyboard where
  "example_keyboard = \<lparr>status = (\<lambda>n. if even n then 1 else 2), status_reads = 0, output_port = 0x49, commands = []\<rparr>"

lemma example_keyboard_live: "controller_live example_keyboard"
proof -
  have "\<exists>i \<ge> n. even i" for n :: nat
    by (rule exI [of _ "2 * n"]) simp
  then show ?thesis by (auto simp: controller_live_def example_keyboard_def)
qed

lemma a20_enabled_witness:
  "\<exists>k'. EnableA20_KKbrd_Out example_keyboard = Some k' \<and>
     commands k' = [(0x64, 0xAD), (0x64, 0xD0), (0x64, 0xD1), (0x60, 0x4B), (0x64, 0xAE)]"
  using a20_enabled [of example_keyboard] example_keyboard_live
  by (simp add: controller_live_def) (simp add: example_keyboard_def)

end
