(* ===== verification/Stage2.thy ===== *)
theory Stage2
  imports FatCorrect LongMode System
begin

text \<open>
  The boot from the disk: the boot sector loads the second stage, the second stage loads the
  kernel, \<open>LoaderEntry32\<close> copies it to 1 MiB and \<open>kMain\<close> runs. The properties say what arrives,
  what does not, and where the 16-bit arithmetic of the disk routines gives out.
\<close>

section \<open>The second stage\<close>

datatype stage2_stop = Disk stop | CPU cpu_check | Fault fault

text \<open>
  The second stage from its entry to the first instruction of the kernel. The video mode that it
  sets through the BIOS and the interrupt table it loads (the one already in use) are left out.
\<close>

definition Stage2_Entry ::
    "int13 \<Rightarrow> u8 \<Rightarrow> real_mode \<Rightarrow> keyboard \<Rightarrow> processor \<times> 'a machine_scheme \<Rightarrow>
     (stage2_stop + processor \<times> 'a machine_scheme) option" where
  "Stage2_Entry int13 dl s kbd pm =
     do {
       r \<leftarrow> FixCS int13 dl s;
       case r of
         Inl e \<Rightarrow> Some (Inl (Disk e))
       | Inr s \<Rightarrow>
           (case DetectCPU (fst pm) of
              CPU_accepted \<Rightarrow>
                do {
                  _ \<leftarrow> EnableA20_KKbrd_Out kbd;
                  Some (case start_kernel (kernel_size s) (fst pm, (snd pm)\<lparr>mem := ram s\<rparr>) of
                          Inl f \<Rightarrow> Inl (Fault f)
                        | Inr r \<Rightarrow> Inr r)
                }
            | e \<Rightarrow> Some (Inl (CPU e)))
     }"

section \<open>The layout is in the parameter block\<close>

lemma block_kept_layout:
  assumes "block_kept m0 m"
  shows "volume m = volume m0" "cluster_size m = cluster_size m0" "fat_sector m = fat_sector m0"
    "cluster_byte disk m = cluster_byte disk m0" "file_byte disk m = file_byte disk m0"
    "root_directory disk m = root_directory disk m0" "root_file disk m = root_file disk m0"
proof -
  note bpb = block_keptD [OF assms]
  show size: "cluster_size m = cluster_size m0" and sector: "fat_sector m = fat_sector m0"
    by (simp_all add: cluster_size_def cluster_sectors_def fat_sector_def fun_eq_iff fat_start_def bpb)
  show byte: "cluster_byte disk m = cluster_byte disk m0"
    by (simp add: cluster_byte_def fun_eq_iff data_start_def fat_start_def cluster_sectors_def bpb)
  show "volume m = volume m0"
    by (simp add: volume_def data_start_def fat_start_def cluster_sectors_def bpb)
  show "file_byte disk m = file_byte disk m0" by (simp add: file_byte_def fun_eq_iff byte size)
  have "fat_next disk m = fat_next disk m0" "in_reach m = in_reach m0"
    by (simp_all add: fun_eq_iff fat_next_def sector in_reach_def cluster_sectors_def bpb)
  then have "file_chain disk m = file_chain disk m0" by (intro ext) (simp only: file_chain_def)
  then show "root_directory disk m = root_directory disk m0" "root_file disk m = root_file disk m0"
    by (simp_all add: root_directory_def root_file_def fun_eq_iff size byte bpb)
qed

text \<open>The copy to 1 MiB of what the second stage has read to 0x500.\<close>

lemma LoaderEntry32_copy:
  assumes "unat n \<le> 0xFFB00" "i < unat n"
  shows "mem (LoaderEntry32 n (M\<lparr>mem := m\<rparr>)) (0x100000 + of_nat i) = m (of_nat (0x500 + i))"
proof -
  let ?n = "unat n" and ?m = "rep_movsb (unat n) 0x500 0x100000 m"
  from rep_movsb_result [of "0x500" ?n "0x100000" m] assms
  have copy: "?m (0x100000 + of_nat i) = m (0x500 + of_nat i)" by simp
  have "unat (0x100000 + of_nat i :: u64) = 0x100000 + i"
    using unat_add_of_nat [of "0x100000" i] assms by simp
  with only_changesD [OF loader_tables_result(1) [of ?m], of "0x100000 + of_nat i"] copy show ?thesis
    by (simp add: LoaderEntry32_def)
qed

lemma power_on_mem: "power_on (M\<lparr>mem := m\<rparr>) = power_on M"
  by (simp add: power_on_def uart_live_def)

section \<open>A volume to try\<close>

definition example_state :: real_mode where
  "example_state = \<lparr>ram = \<lambda>_. 0, es = 0, bx = 0, esi = 0, bPhysicalDriveNum = 0, DAP_count = 1, kernel_size = 0, int13_calls = 0\<rparr>"

text \<open>
  Clusters of 8 KiB, one copy of the allocation table with one sector; the second stage is in
  cluster 3, the kernel in clusters 4 and 5. \<open>names\<close> are the entries of the root directory,
  cluster 2. The drive fails the calls in \<open>faults\<close>, unless they ask for nothing.
\<close>

definition example_block :: memory where
  "example_block =
     (\<lambda>_. 0)(0x7C0C := 2, 0x7C0D := 16, 0x7C0E := 32, 0x7C10 := 1, 0x7C24 := 1, 0x7C2C := 2)"

definition dir_entry :: "name \<Rightarrow> u8 \<Rightarrow> u8 \<Rightarrow> u8 list" where
  "dir_entry name cluster pages = name @ replicate 15 0 @ [cluster, 0, 0, pages, 0, 0]"

definition example_disk :: "u8 list list \<Rightarrow> disk" where
  "example_disk entries s i =
     (if s = 32 then ([0, 0, 0, 0, 0, 0, 0, 0] @ [0xFF, 0xFF, 0xFF, 0x0F] @ [0xFF, 0xFF, 0xFF, 0x0F]
        @ [5, 0, 0, 0] @ [0xFF, 0xFF, 0xFF, 0x0F] @ replicate 488 0) ! i
      else if s = 33 \<or> s = 34 \<or> s = 35 then
        (let k = (unat s - 33) * 512 + i in if k div 32 < length entries then entries ! (k div 32) ! (k mod 32) else 0)
      else of_nat (unat s + i))"

definition example_drive :: "nat set \<Rightarrow> disk \<Rightarrow> int13" where
  "example_drive faults disk n drive count off seg lba m =
     (if count = 0 then (False, 0, m)
      else if n \<in> faults then (True, 0, m)
      else (False, count, \<lambda>x. if unat (linear seg off) \<le> unat x \<and> unat x < unat (linear seg off) + 512 * unat count
                              then disk (ucast lba + of_nat ((unat x - unat (linear seg off)) div 512))
                                ((unat x - unat (linear seg off)) mod 512)
                              else m x))"

lemma example_drive_reads: "reads_disk (example_drive faults disk) drive disk"
proof -
  have "unat (linear seg off + of_nat i) = unat (linear seg off) + i" if "i < 512" for seg off :: u16 and i
  proof (rule unat_add_of_nat)
    have "unat (linear seg off) \<le> 16 * unat seg + unat off"
      unfolding linear_def by (simp add: unat_word_ariths)
    moreover have "unat seg < 2 ^ 16" "unat off < 2 ^ 16" using unsigned_less [of seg] unsigned_less [of off] by simp_all
    ultimately show "unat (linear seg off) + i < 2 ^ 64" using that by simp
  qed
  moreover have "ucast (ucast lba :: u64) = lba" for lba :: u32 by (rule bit_word_eqI) (auto simp: bit_simps)
  ultimately show ?thesis
    by (auto simp: reads_disk_def example_drive_def only_changes_def)
qed

lemma example_drive_empty: "empty_request (example_drive faults disk) drive"
  by (simp add: empty_request_def example_drive_def)

lemma example_drive_no_faults: "no_faults (example_drive {} disk) drive"
  by (simp add: no_faults_def example_drive_def)

lemma load_bytes_step:
  "0 < n \<Longrightarrow> load_bytes n m a = ucast (m a) OR push_bit 8 (load_bytes (n - 1) m (a + 1))"
  by (cases n) simp_all

lemma example_block_fields:
  "wBytesPerSector example_block = 512" "bSectorsPerCluster example_block = 16"
  "wReservedSectors example_block = 32" "bNumFATs example_block = 1" "dHiddenSectors example_block = 0"
  "dSectorsPerFat32 example_block = 1" "dRootDirStart example_block = 2"
  by (simp_all add: example_block_def wBytesPerSector_def bSectorsPerCluster_def wReservedSectors_def bNumFATs_def
      dHiddenSectors_def dSectorsPerFat32_def dRootDirStart_def load16_def load32_def load_bytes_step)

lemma example_layout:
  "volume example_block" "cluster_size example_block = 0x2000" "cluster_sectors example_block = 16"
  "fat_start example_block = 32" "data_start example_block = 33" "in_reach example_block 2" 
  "in_reach example_block 3" "in_reach example_block 4" "in_reach example_block 5"
  by (simp_all add: volume_def in_reach_def cluster_size_def cluster_sectors_def data_start_def fat_start_def
      example_block_fields)

lemma example_fat:
  "fat_next (example_disk entries) example_block 2 = 0x0FFFFFFF" "fat_next (example_disk entries) example_block 3 = 0x0FFFFFFF"
  "fat_next (example_disk entries) example_block 4 = 5" "fat_next (example_disk entries) example_block 5 = 0x0FFFFFFF"
  by (simp_all add: fat_next_def fat_sector_def example_layout example_disk_def load32_def load_bytes_step)

lemma example_chains:
  "file_chain (example_disk entries) example_block 2 [2]" "file_chain (example_disk entries) example_block 3 [3]"
  "file_chain (example_disk entries) example_block 4 [4, 5]"
  by (simp_all add: file_chain_def example_fat example_layout)

lemma example_root: "root_directory (example_disk entries) example_block [2]"
  by (simp add: root_directory_def example_block_fields example_layout example_chains)

lemma example_directory:
  assumes "k < 1536"
  shows "cluster_byte (example_disk entries) example_block 2 k =
    (if k div 32 < length entries then entries ! (k div 32) ! (k mod 32) else 0)"
proof -
  have "k div 512 = 0 \<or> k div 512 = 1 \<or> k div 512 = 2" using assms by auto
  moreover have "k div 512 * 512 + k mod 512 = k" by simp
  ultimately show ?thesis
    by (elim disjE) (simp_all add: cluster_byte_def example_layout example_disk_def Let_def)
qed

lemma example_slot:
  assumes "j < length entries" "j < 48"
  shows "cluster_byte (example_disk entries) example_block 2 (32 * j) = entries ! j ! 0"
    "slot_name (cluster_byte (example_disk entries) example_block 2) j = map (\<lambda>i. entries ! j ! i) [0..<11]"
    "i < 32 \<Longrightarrow> cluster_byte (example_disk entries) example_block 2 (32 * j + i) = entries ! j ! i"
proof -
  have byte: "cluster_byte (example_disk entries) example_block 2 (32 * j + i) = entries ! j ! i" if "i < 32" for i
    using example_directory [of "32 * j + i" entries] assms that by simp
  from byte [of 0] show "cluster_byte (example_disk entries) example_block 2 (32 * j) = entries ! j ! 0" by simp
  show "slot_name (cluster_byte (example_disk entries) example_block 2) j = map (\<lambda>i. entries ! j ! i) [0..<11]"
    unfolding slot_name_def by (rule map_cong [OF refl]) (simp add: byte)
  show "i < 32 \<Longrightarrow> cluster_byte (example_disk entries) example_block 2 (32 * j + i) = entries ! j ! i" by (rule byte)
qed

definition example_entries :: "u8 \<Rightarrow> u8 list list" where
  "example_entries pages = [dir_entry szStage2 3 8, dir_entry syskrnldr 4 pages]"

lemma names_11: "map (\<lambda>i. dir_entry name cluster pages ! i) [0..<11] = take 11 name" if "length name = 11"
  using that by (intro nth_equalityI) (simp_all add: dir_entry_def nth_append)

lemma dir_entry_fields:
  assumes "length name = 11"
  shows "dir_entry name cluster pages ! 20 = 0" "dir_entry name cluster pages ! 21 = 0"
    "dir_entry name cluster pages ! 26 = cluster" "dir_entry name cluster pages ! 27 = 0"
    "dir_entry name cluster pages ! 28 = 0" "dir_entry name cluster pages ! 29 = pages"
    "dir_entry name cluster pages ! 30 = 0" "dir_entry name cluster pages ! 31 = 0"
  using assms by (simp_all add: dir_entry_def nth_append)

lemma name_lengths: "length szStage2 = 11" "length syskrnldr = 11"
  by (simp_all add: szStage2_def syskrnldr_def)

lemma example_lookup:
  "root_lookup szStage2 (cluster_byte (example_disk (example_entries pages)) example_block) [2] = Some (2, 0)"
  "root_lookup syskrnldr (cluster_byte (example_disk (example_entries pages)) example_block) [2] = Some (2, 1)"
proof -
  let ?f = "cluster_byte (example_disk (example_entries pages)) example_block 2"
  have "?f 0 = 0x53" "?f 32 = 0x4B"
    using example_slot(1) [of 0 "example_entries pages"] example_slot(1) [of 1 "example_entries pages"]
    by (simp_all add: example_entries_def dir_entry_def szStage2_def syskrnldr_def)
  moreover have "slot_name ?f 0 = szStage2" "slot_name ?f 1 = syskrnldr"
    using example_slot(2) [of 0 "example_entries pages"] example_slot(2) [of 1 "example_entries pages"]
    by (simp_all add: example_entries_def names_11 name_lengths)
  moreover have "[0..<32] = 0 # 1 # [2..<32]" by (simp add: upt_conv_Cons)
  moreover have "szStage2 \<noteq> syskrnldr" by (simp add: szStage2_def syskrnldr_def)
  ultimately show
    "root_lookup szStage2 (cluster_byte (example_disk (example_entries pages)) example_block) [2] = Some (2, 0)"
    "root_lookup syskrnldr (cluster_byte (example_disk (example_entries pages)) example_block) [2] = Some (2, 1)"
    by (simp_all add: first_slot_def)
qed

lemma example_files:
  "root_file (example_disk (example_entries pages)) example_block [2] szStage2 (2, 0) [3]"
  "root_file (example_disk (example_entries pages)) example_block [2] syskrnldr (2, 1) [4, 5]"
  "slot_size (cluster_byte (example_disk (example_entries pages)) example_block 2) 1 = ucast pages * 256"
proof -
  let ?f = "cluster_byte (example_disk (example_entries pages)) example_block 2"
  note b0 = example_slot(3) [of 0 "example_entries pages"] and b1 = example_slot(3) [of 1 "example_entries pages"]
  have "slot_cluster ?f 0 = 3" "slot_cluster ?f 1 = 4" "slot_size ?f 1 = ucast pages * 256"
    using b0 [of 20] b0 [of 21] b0 [of 26] b0 [of 27] b1 [of 20] b1 [of 21] b1 [of 26] b1 [of 27]
      b1 [of 28] b1 [of 29] b1 [of 30] b1 [of 31]
    by (simp_all add: slot_cluster_def slot_size_def load16_def load32_def load_bytes_step example_entries_def
        dir_entry_fields name_lengths push_bit_eq_mult)
  then show "root_file (example_disk (example_entries pages)) example_block [2] szStage2 (2, 0) [3]"
    "root_file (example_disk (example_entries pages)) example_block [2] syskrnldr (2, 1) [4, 5]"
    "slot_size ?f 1 = ucast pages * 256"
    by (simp_all add: root_file_def example_lookup example_chains del: root_lookup.simps)
qed

section \<open>Properties\<close>

text \<open>
  C2: The boot from the disk. The volume has clusters of 1 to 24 KiB and, with the chains of
  its root directory and of the two files, is within the reach of the 16-bit arithmetic; the root
  directory has the second stage, whose chain has at most 32 KiB, and a kernel of at most 15 104
  bytes, whose chain has at most 30 464 bytes; the drive has no fault, the processor long mode and
  its paging off, and the keyboard controller keeps answering. Then the boot sector loads the
  second stage whole to 0x7E00; the second stage finds the kernel, loads it, accepts the processor, opens the A20 gate
  and arrives in 64-bit mode at 1 MiB, where every byte of the kernel's file is in place, its
  page tables elsewhere; from there \<open>kMain\<close> runs to its halt loop.
\<close>

theorem disk_to_kernel:
  assumes "reads_disk int13 dl disk" "no_faults int13 dl"
    and "volume (ram s)" "root_directory disk (ram s) rs"
    and "root_file disk (ram s) rs szStage2 e cs1" "cluster_size (ram s) * length cs1 \<le> 0x8000"
    and "root_file disk (ram s) rs syskrnldr (c, j) cs" "cluster_size (ram s) * length cs \<le> 0x7700"
    and "unat (slot_size (cluster_byte disk (ram s) c) j) \<le> min 0x3B00 (cluster_size (ram s) * length cs)"
    and "DetectCPU p = CPU_accepted" "supports_pae p" "supports_long_mode p" "\<not> bit (cr0 p) 31"
    and "controller_live kbd"
    and "power_on M" "\<forall>n. length (junk n) = 32" "length buffer = 32"
  shows "\<exists>s1 p' m k. Boot1 int13 dl s = Some (Inr s1) \<and>
    (\<forall>i < cluster_size (ram s) * length cs1. ram s1 (of_nat (0x7E00 + i)) = file_byte disk (ram s) cs1 i) \<and>
    Stage2_Entry int13 (bPhysicalDriveNum s1) s1 kbd (p, M) = Some (Inr (p', m)) \<and>
    mode p' = Bits64 \<and> rip p' = 0x100000 \<and>
    (\<forall>i < unat (slot_size (cluster_byte disk (ram s) c) j). mem m (0x100000 + of_nat i) = file_byte disk (ram s) cs i) \<and>
    kMain junk buffer m = Some k \<and> booted k"
proof -
  obtain c1 j1 where e: "e = (c1, j1)" by fastforce
  from Boot1_ok [OF assms(1-4) assms(5) [unfolded e] assms(6)] obtain s1 where
    one: "Boot1 int13 dl s = Some (Inr s1)" "bPhysicalDriveNum s1 = dl"
      "confined (ram s) (ram s1) (loader_area \<union> {0x7E00..<0x7E00 + cluster_size (ram s) * length cs1})"
      "\<forall>i < cluster_size (ram s) * length cs1. ram s1 (of_nat (0x7E00 + i)) = file_byte disk (ram s) cs1 i"
    by auto
  have kept: "block_kept (ram s) (ram s1)"
    by (rule block_kept_confined [OF block_kept_refl one(3)]) (auto simp: loader_area_def)
  note layout = block_kept_layout [OF kept]
  from FixCS_ok [OF assms(1,2), of s1 rs c j cs] assms(3,4,7,8) obtain s2 where
    two: "FixCS int13 dl s1 = Some (Inr s2)" "kernel_size s2 = slot_size (cluster_byte disk (ram s) c) j"
      "\<And>i. i < cluster_size (ram s) * length cs \<Longrightarrow> i < 0x3B00 \<or> 0x3D00 \<le> i \<Longrightarrow>
         ram s2 (of_nat (0x500 + i)) = file_byte disk (ram s) cs i"
    by (auto simp: layout)
  let ?m = "LoaderEntry32 (kernel_size s2) (M\<lparr>mem := ram s2\<rparr>)"
  obtain p' where start: "start_kernel (kernel_size s2) (p, M\<lparr>mem := ram s2\<rparr>) = Inr (p', ?m)"
      "mode p' = Bits64" "rip p' = 0x100000"
    using start_kernel_ok [OF assms(13,11,12), of "kernel_size s2" "M\<lparr>mem := ram s2\<rparr>"]
    unfolding long_mode_def by blast
  obtain kbd' where "EnableA20_KKbrd_Out kbd = Some kbd'"
    using EnableA20_sends [OF assms(14)] by (auto simp: sends_def)
  with two(1) start(1) assms(10) one(2)
  have stage2: "Stage2_Entry int13 (bPhysicalDriveNum s1) s1 kbd (p, M) = Some (Inr (p', ?m))"
    by (simp add: Stage2_Entry_def)
  have "mem ?m (0x100000 + of_nat i) = file_byte disk (ram s) cs i"
    if "i < unat (slot_size (cluster_byte disk (ram s) c) j)" for i
    using LoaderEntry32_copy [of "kernel_size s2" i "ram s2" M] two(3) [of i] that assms(9) by (simp add: two(2))
  moreover obtain k where "kMain junk buffer ?m = Some k" "booted k"
    using boot_booted [of "M\<lparr>mem := ram s2\<rparr>" junk buffer "kernel_size s2"] assms(15-17) by (auto simp: power_on_mem)
  ultimately show ?thesis using one(1,4) stage2 start(2,3) by blast
qed

theorem disk_to_kernel_witness:
  "\<exists>s1 p' m k. Boot1 (example_drive {} (example_disk (example_entries 0x30))) 0x80 (example_state\<lparr>ram := example_block\<rparr>) =
      Some (Inr s1) \<and>
    Stage2_Entry (example_drive {} (example_disk (example_entries 0x30))) (bPhysicalDriveNum s1) s1 example_keyboard
      (example_processor 0x20000000, blank_machine) = Some (Inr (p', m)) \<and>
    mode p' = Bits64 \<and> mem m 0x102FFF = 87 \<and> kMain (\<lambda>_. any_array) any_array m = Some k"
proof -
  let ?D = "example_disk (example_entries 0x30)" and ?s = "example_state\<lparr>ram := example_block\<rparr>"
    and ?p = "example_processor 0x20000000"
  have "power_on blank_machine" using uart_live_blank by (simp add: power_on_def blank_machine_def)
  from disk_to_kernel [OF example_drive_reads example_drive_no_faults, of ?s ?D "[2]" "(2, 0)" "[3]" 2 1 "[4, 5]" ?p
      example_keyboard blank_machine "\<lambda>_. any_array" any_array "0x80", OF _ _ _ _ _ _ _
      example_processor_checks(5,2,3,1) example_keyboard_live this]
  obtain s1 p' m k where r: "Boot1 (example_drive {} ?D) 0x80 ?s = Some (Inr s1)"
    "Stage2_Entry (example_drive {} ?D) (bPhysicalDriveNum s1) s1 example_keyboard (?p, blank_machine) = Some (Inr (p', m))"
    "mode p' = Bits64"
    "\<And>i. i < 0x3000 \<Longrightarrow> mem m (0x100000 + of_nat i) = file_byte ?D example_block [4, 5] i"
    "kMain (\<lambda>_. any_array) any_array m = Some k"
    by (auto simp: example_layout example_root example_files any_array_def simp del: One_nat_def)
  moreover have "file_byte ?D example_block [4, 5] 0x2FFF = 87"
    by (simp add: file_byte_def cluster_byte_def example_layout example_disk_def)
  ultimately show ?thesis using r(4) [of "0x2FFF"] by auto
qed

text \<open>
  C12: The buffer for the allocation table, at 0x4000, lies inside the place the kernel is read
  to, 0x500 to 0x7C00. A kernel whose chain has at most 30 464 bytes (it ends below 0x7C00) and
  holds the size in its entry, on a volume with clusters of 1 to 24 KiB within the reach of the
  16-bit arithmetic and on a drive without faults, arrives at
  1 MiB as its file, except that the bytes 0x3B00 to 0x3CFF, where it has them, are a sector of
  the allocation table, the one with the entry of its last cluster. So of these kernels one of
  at most 15 104 bytes does not notice, and a longer one arrives with that sector in it.
\<close>

theorem fat_sector_in_kernel:
  assumes "reads_disk int13 dl disk" "no_faults int13 dl"
    and "volume (ram s)" "root_directory disk (ram s) rs"
    and "root_file disk (ram s) rs syskrnldr (c, j) cs" "cluster_size (ram s) * length cs \<le> 0x7700"
    and "unat (slot_size (cluster_byte disk (ram s) c) j) \<le> cluster_size (ram s) * length cs"
  shows "\<exists>s'. FixCS int13 dl s = Some (Inr s') \<and>
    (\<forall>i < unat (slot_size (cluster_byte disk (ram s) c) j).
       mem (LoaderEntry32 (kernel_size s') (M\<lparr>mem := ram s'\<rparr>)) (0x100000 + of_nat i) =
       (if 0x3B00 \<le> i \<and> i < 0x3D00 then disk (fat_sector (ram s) (last cs)) (i - 0x3B00)
        else file_byte disk (ram s) cs i))"
proof -
  from FixCS_ok [OF assms(1-6)] obtain s' where
    r: "FixCS int13 dl s = Some (Inr s')" "kernel_size s' = slot_size (cluster_byte disk (ram s) c) j"
      "\<And>i. i < cluster_size (ram s) * length cs \<Longrightarrow> i < 0x3B00 \<or> 0x3D00 \<le> i \<Longrightarrow>
         ram s' (of_nat (0x500 + i)) = file_byte disk (ram s) cs i"
      "\<And>i. i < 512 \<Longrightarrow> ram s' (of_nat (0x4000 + i)) = disk (fat_sector (ram s) (last cs)) i"
    by blast
  have "mem (LoaderEntry32 (kernel_size s') (M\<lparr>mem := ram s'\<rparr>)) (0x100000 + of_nat i) =
       (if 0x3B00 \<le> i \<and> i < 0x3D00 then disk (fat_sector (ram s) (last cs)) (i - 0x3B00)
        else file_byte disk (ram s) cs i)" if i: "i < unat (slot_size (cluster_byte disk (ram s) c) j)" for i
  proof -
    have "mem (LoaderEntry32 (kernel_size s') (M\<lparr>mem := ram s'\<rparr>)) (0x100000 + of_nat i) = ram s' (of_nat (0x500 + i))"
      by (rule LoaderEntry32_copy) (use i assms(6,7) in \<open>simp_all add: r(2)\<close>)
    also have "\<dots> = (if 0x3B00 \<le> i \<and> i < 0x3D00 then disk (fat_sector (ram s) (last cs)) (i - 0x3B00)
        else file_byte disk (ram s) cs i)"
    proof (cases "0x3B00 \<le> i \<and> i < 0x3D00")
      case True
      then have "0x500 + i = 0x4000 + (i - 0x3B00)" "i - 0x3B00 < 512" by auto
      with r(4) [of "i - 0x3B00"] True show ?thesis by (simp only: if_True simp_thms)
    next
      case False
      then have "i < 0x3B00 \<or> 0x3D00 \<le> i" by linarith
      with r(3) [of i] i assms(7) False show ?thesis by (simp only: if_False)
    qed
    finally show ?thesis .
  qed
  with r(1) show ?thesis by blast
qed

theorem fat_sector_in_kernel_witness:
  "\<exists>s'. FixCS (example_drive {} (example_disk (example_entries 0x40))) 0x80 (example_state\<lparr>ram := example_block\<rparr>) =
      Some (Inr s') \<and>
    mem (LoaderEntry32 (kernel_size s') (blank_machine\<lparr>mem := ram s'\<rparr>)) 0x103B10 = 5 \<and>
    file_byte (example_disk (example_entries 0x40)) example_block [4, 5] 0x3B10 = 110"
proof -
  let ?D = "example_disk (example_entries 0x40)" and ?s = "example_state\<lparr>ram := example_block\<rparr>"
  from fat_sector_in_kernel [OF example_drive_reads example_drive_no_faults, of ?s ?D "[2]" 2 1 "[4, 5]" "0x80" blank_machine]
  obtain s' where r: "FixCS (example_drive {} ?D) 0x80 ?s = Some (Inr s')"
    "\<And>i. i < 0x4000 \<Longrightarrow> mem (LoaderEntry32 (kernel_size s') (blank_machine\<lparr>mem := ram s'\<rparr>)) (0x100000 + of_nat i) =
       (if 0x3B00 \<le> i \<and> i < 0x3D00 then ?D (fat_sector example_block 5) (i - 0x3B00)
        else file_byte ?D example_block [4, 5] i)"
    by (auto simp: example_layout example_root example_files simp del: One_nat_def)
  moreover have "file_byte ?D example_block [4, 5] 0x3B10 = 110" "?D (fat_sector example_block 5) 16 = 5"
    by (simp_all add: file_byte_def cluster_byte_def fat_sector_def example_layout example_disk_def)
  ultimately show ?thesis using r(2) [of "0x3B10"] by auto
qed

text \<open>
  C27: The search looks at the first 32 entries of a cluster only: when none of these has the
  kernel's name, in any cluster of the root directory, the second stage halts with its error,
  whatever the later entries hold (on a volume with clusters of 1 to 24 KiB within the reach of the
  16-bit arithmetic and on a drive without faults). In the witness the kernel is entry 33 of the directory.
\<close>

theorem entries_past_32_missed:
  assumes "reads_disk int13 dl disk" "no_faults int13 dl"
    and "volume (ram s)" "root_directory disk (ram s) rs"
    and "\<forall>c \<in> set rs. \<forall>j < 32. slot_name (cluster_byte disk (ram s) c) j \<noteq> syskrnldr"
  shows "FixCS int13 dl s = Some (Inl Not_found)"
proof -
  have "cluster_byte disk (ram s) c (32 * j) = 0"
    if "c \<in> set rs" "first_slot syskrnldr (cluster_byte disk (ram s) c) = Some j" for c j
    using assms(5) that by (auto simp: first_slot_def find_Some_iff)
  then have "root_lookup syskrnldr (cluster_byte disk (ram s)) rs = None"
    by (induction rs) (auto split: option.split)
  with find_file_ok [of int13 dl disk "s\<lparr>DAP_count := 1\<rparr>" rs syskrnldr] assms(1-4) show ?thesis
    by (simp add: FixCS_def)
qed

theorem entries_past_32_missed_witness:
  "FixCS (example_drive {} (example_disk (replicate 32 (dir_entry szStage2 3 8) @ [dir_entry syskrnldr 4 8]))) 0x80
     (example_state\<lparr>ram := example_block\<rparr>) = Some (Inl Not_found) \<and>
   slot_name (cluster_byte (example_disk (replicate 32 (dir_entry szStage2 3 8) @ [dir_entry syskrnldr 4 8]))
     example_block 2) 32 = syskrnldr"
proof -
  let ?e = "replicate 32 (dir_entry szStage2 3 8) @ [dir_entry syskrnldr 4 8]"
  have l: "length ?e = 33" by simp
  have "slot_name (cluster_byte (example_disk ?e) example_block 2) j \<noteq> syskrnldr" if "j < 32" for j
  proof -
    have "?e ! j = dir_entry szStage2 3 8" using that by (simp add: nth_append)
    moreover have "szStage2 \<noteq> syskrnldr" by (simp add: szStage2_def syskrnldr_def)
    ultimately show ?thesis
      using example_slot(2) [of j ?e] that unfolding l
      by (simp add: names_11 name_lengths)
  qed
  moreover have "slot_name (cluster_byte (example_disk ?e) example_block 2) 32 = syskrnldr"
    using example_slot(2) [of 32 ?e] unfolding l by (simp add: nth_append names_11 name_lengths)
  ultimately show ?thesis
    using entries_past_32_missed [OF example_drive_reads example_drive_no_faults, of "example_state\<lparr>ram := example_block\<rparr>" "example_disk ?e" "[2]"]
      example_root example_layout(1) by simp
qed

text \<open>
  C13: A fault of the drive is not recovered from. The BIOS leaves 0 for the number of blocks of
  a read that failed, and no attempt sets it to 1 again: when the packet asks for one
  block and the first attempt at the first sector fails, the retry asks for nothing and \<open>ReadSector\<close> returns as if it had read all its
  sectors, with nothing written outside the buffer of the first; and from then on every call of
  it, for whatever sectors, succeeds and leaves the memory as it is. (The drive does as documented and has nothing to
  complain about when nothing is asked; the first sector's buffer lies inside its segment.)
\<close>

theorem retry_reads_nothing:
  assumes "reads_disk int13 (bPhysicalDriveNum s) disk" "empty_request int13 (bPhysicalDriveNum s)"
    and "DAP_count s = 1" "unat (bx s) + 512 \<le> 2 ^ 16"
    and "fst (int13 (int13_calls s) (bPhysicalDriveNum s) 1 (bx s) (es s) (ucast eax) (ram s))"
  shows "(\<exists>s'. ReadSector int13 eax cx s = Inr s' \<and> DAP_count s' = 0 \<and>
      only_changes (ram s) (ram s') (unat (linear (es s) (bx s))) (unat (linear (es s) (bx s)) + 512) \<and>
      bx s' = bx s + cx * wBytesPerSector (ram s')) \<and>
    (\<forall>t eax cx. bPhysicalDriveNum t = bPhysicalDriveNum s \<and> DAP_count t = 0 \<longrightarrow>
      (\<exists>t'. ReadSector int13 eax cx t = Inr t' \<and> ram t' = ram t \<and> DAP_count t' = 0))"
proof (intro conjI allI impI)
  define n where "n = (if cx = 0 then 65535 else unat cx - 1)"
  have "Suc n = (if cx = 0 then 65536 else unat cx)" by (simp add: n_def word_neq_0_conv unat_gt_0)
  then have "ReadSector int13 eax cx s = read_sectors int13 (Suc n) eax s" "of_nat (Suc n) = cx"
    by (simp_all add: ReadSector_def del: read_sectors.simps of_nat_Suc)
  with read_sectors_fault [OF assms, of n] show "\<exists>s'. ReadSector int13 eax cx s = Inr s' \<and> DAP_count s' = 0 \<and>
      only_changes (ram s) (ram s') (unat (linear (es s) (bx s))) (unat (linear (es s) (bx s)) + 512) \<and>
      bx s' = bx s + cx * wBytesPerSector (ram s')"
    by (simp del: read_sectors.simps of_nat_Suc)
next
  fix t :: real_mode and eax cx
  assume "bPhysicalDriveNum t = bPhysicalDriveNum s \<and> DAP_count t = 0"
  then have "empty_request int13 (bPhysicalDriveNum t)" "DAP_count t = 0" using assms(2) by simp_all
  from read_sectors_empty [OF this, of "if cx = 0 then 65536 else unat cx" eax]
  show "\<exists>t'. ReadSector int13 eax cx t = Inr t' \<and> ram t' = ram t \<and> DAP_count t' = 0"
    unfolding ReadSector_def by blast
qed

theorem retry_reads_nothing_witness:
  "\<exists>s'. ReadSector (example_drive {0} (example_disk (example_entries 0x30))) 33 16
      (example_state\<lparr>ram := example_block, bx := 0x1000\<rparr>) = Inr s' \<and>
    bx s' = 0x3000 \<and> ram s' 0x1200 = 0 \<and> ram s' 0x2A00 = 0 \<and>
    example_disk (example_entries 0x30) (33 + 13) 0 = 46"
proof -
  let ?D = "example_disk (example_entries 0x30)" and ?s = "example_state\<lparr>ram := example_block, bx := 0x1000\<rparr>"
  have "fst (example_drive {0} ?D (int13_calls ?s) (bPhysicalDriveNum ?s) 1 (bx ?s) (es ?s) (ucast (33 :: u32)) (ram ?s))"
    by (simp add: example_drive_def example_state_def)
  from retry_reads_nothing [OF example_drive_reads example_drive_empty _ _ this, of 16]
  obtain s' where r: "ReadSector (example_drive {0} ?D) 33 16 ?s = Inr s'"
    "only_changes example_block (ram s') 0x1000 0x1200" "bx s' = 0x1000 + 16 * wBytesPerSector (ram s')"
    by (auto simp: example_state_def linear_def)
  have "wBytesPerSector (ram s') = 512"
    using bytes_per_sector_frame [OF r(2)] by (simp add: apart_from_block_def example_block_fields)
  moreover have "ram s' 0x1200 = 0" "ram s' 0x2A00 = 0"
    using only_changesD [OF r(2), of "0x1200"] only_changesD [OF r(2), of "0x2A00"] by (simp_all add: example_block_def)
  ultimately show ?thesis using r(1,3) by (simp add: example_disk_def)
qed

text \<open>The routines below a cluster do not look at \<open>esi\<close>.\<close>

lemma esi_last:
  "s\<lparr>esi := c, ram := m\<rparr> = s\<lparr>ram := m, esi := c\<rparr>" "s\<lparr>esi := c, es := e\<rparr> = s\<lparr>es := e, esi := c\<rparr>"
  "s\<lparr>esi := c, bx := b\<rparr> = s\<lparr>bx := b, esi := c\<rparr>" "s\<lparr>esi := c, DAP_count := n\<rparr> = s\<lparr>DAP_count := n, esi := c\<rparr>"
  "s\<lparr>esi := c, int13_calls := k\<rparr> = s\<lparr>int13_calls := k, esi := c\<rparr>"
  for s :: real_mode
  by simp_all

lemma case_map_sum:
  "(case map_sum f g x of Inl a \<Rightarrow> h a | Inr b \<Rightarrow> k b) = (case x of Inl a \<Rightarrow> h (f a) | Inr b \<Rightarrow> k (g b))"
  by (cases x) simp_all

lemma read_attempts_esi:
  "read_attempts int13 di eax (s\<lparr>esi := c\<rparr>) = map_sum id (esi_update (\<lambda>_. c)) (read_attempts int13 di eax s)"
  by (induction di arbitrary: s) (simp_all add: esi_last Let_def split: prod.splits)

lemma advance_buffer_esi: "advance_buffer (s\<lparr>esi := c\<rparr>) = (advance_buffer s)\<lparr>esi := c\<rparr>"
  by (simp add: advance_buffer_def Let_def esi_last)

lemma read_sectors_esi:
  "read_sectors int13 n eax (s\<lparr>esi := c\<rparr>) = map_sum id (esi_update (\<lambda>_. c)) (read_sectors int13 n eax s)"
proof (induction n arbitrary: eax s)
  case (Suc n)
  show ?case
    by (cases "read_attempts int13 5 eax s") (simp_all add: read_attempts_esi advance_buffer_esi Suc)
qed simp

lemma ReadSector_esi:
  "ReadSector int13 eax cx (s\<lparr>esi := c\<rparr>) = map_sum id (esi_update (\<lambda>_. c)) (ReadSector int13 eax cx s)"
  by (simp add: ReadSector_def read_sectors_esi)

lemma GetNextCluster_esi:
  assumes "push_bit 2 (ucast c :: u16) = push_bit 2 (ucast d)"
  shows "GetNextCluster int13 (s\<lparr>esi := c\<rparr>) = GetNextCluster int13 (s\<lparr>esi := d\<rparr>)"
  by (simp add: GetNextCluster_def Let_def assms esi_last ReadSector_esi case_map_sum)
    (auto simp: esi_last split: sum.splits)

lemma ucast_wraps:
  "(ucast (c + 0x10000) :: u16) = ucast c" "push_bit 2 (ucast (c + 0x4000) :: u16) = push_bit 2 (ucast c)"
  "push_bit 2 (ucast (c + 0x10000) :: u16) = push_bit 2 (ucast c)" for c :: u32
proof -
  show low: "(ucast (c + 0x10000) :: u16) = ucast c"
    by (rule word_unat_eq_iff [THEN iffD2])
      (simp add: unsigned_ucast_eq unat_word_ariths take_bit_eq_mod mod_mod_cancel)
  then show "push_bit 2 (ucast (c + 0x10000) :: u16) = push_bit 2 (ucast c)" by simp
  have "(unat c + 16384) mod 65536 * 4 mod 65536 = unat c mod 65536 * 4 mod (65536 :: nat)"
    by (simp add: mod_mult_left_eq distrib_right)
  then show "push_bit 2 (ucast (c + 0x4000) :: u16) = push_bit 2 (ucast c)"
    by (intro word_unat_eq_iff [THEN iffD2])
      (simp add: unsigned_ucast_eq push_bit_eq_mult unat_word_ariths take_bit_eq_mod mod_mod_cancel)
qed

text \<open>
  C28: Cluster numbers are cut: the successor of a cluster is looked up for its number modulo
  16384, and its data are read for its number modulo 65536, whatever disk and parameter block. A
  file with a cluster numbered 16384 or above is continued with another file's chain.
\<close>

theorem cluster_numbers_wrap:
  "GetNextCluster int13 (s\<lparr>esi := c + 0x4000\<rparr>) = GetNextCluster int13 (s\<lparr>esi := c\<rparr>) \<and>
   ReadCluster int13 (s\<lparr>esi := c + 0x10000\<rparr>) = ReadCluster int13 (s\<lparr>esi := c\<rparr>)"
proof
  show "GetNextCluster int13 (s\<lparr>esi := c + 0x4000\<rparr>) = GetNextCluster int13 (s\<lparr>esi := c\<rparr>)"
    by (rule GetNextCluster_esi [OF ucast_wraps(2)])
  show "ReadCluster int13 (s\<lparr>esi := c + 0x10000\<rparr>) = ReadCluster int13 (s\<lparr>esi := c\<rparr>)"
    by (simp add: ReadCluster_def Let_def ReadSector_esi case_map_sum esi_last ucast_wraps(1)
        GetNextCluster_esi [OF ucast_wraps(3) [of c]])
      (auto simp: esi_last GetNextCluster_esi [OF ucast_wraps(3) [of c]] split: sum.split)
qed

end
