(* ===== verification/Spec2Isabelle.thy ===== *)
theory Spec2Isabelle
  imports System Units Stage2
begin

text \<open>
  IncroOS is a small x86-64 kernel: a boot sector and a second stage in assembly load it at
  1 MiB, identity-map the first gigabyte and jump to \<open>kMain\<close> (\<open>kernel/kernel.c\<close>), which brings
  up a serial driver, a text console, a page allocator, a page mapper and a heap, tests them,
  reports on COM1 and halts. Beside it the repository carries four freestanding C headers under
  \<open>clang/lib/Headers\<close>, which its build files do not put on the kernel's include path. This
  development models the way from the disk to the kernel, the kernel, and, on their own, the headers.

  State. All components share one machine (\<open>Machine\<close>): a byte-addressed memory, the I/O ports,
  CR3 and the list of \<open>invlpg\<close> requests. Each component extends that record with its own static
  variables, in the order \<open>terminal\<close>, \<open>pmm\<close>, \<open>vmm\<close>, \<open>heap\<close>, so that a component's operations are
  polymorphic in what the later ones add, and the aliasing of the real program is kept: the
  bitmap of the page allocator (at 0x140000), the page tables, the block headers of the heap
  (from 0x180000) and the screen (at 0xB8000) are all bytes of the one memory. Machine integers
  are words of their C width, and \<open>bool\<close> fields are bytes. A C loop is a recursive function; a
  loop that need not end (polling the UART, walking the heap's list) is a partial function into
  \<open>option\<close>, with None for not returning, and theorems about it say that it does return.

  Theories and sources.
    \<^item> \<open>Prelude\<close>: words, loops and the collection \<open>mem_simps\<close>; \<open>Machine\<close>: memory and frames.
    \<^item> \<open>Serial\<close>: \<open>kernel/drivers/serial.c\<close>, \<open>serial.asm\<close>. The register sequence of the UART and
      what a string becomes on the wire, with a carriage return before each line feed.
    \<^item> \<open>Terminal\<close>: \<open>kernel/output/terminal.c\<close>, \<open>terminal.h\<close>. The 80x25 console: cells, cursor, echo.
    \<^item> \<open>Allocator\<close>: the locale of an allocator that hands out resources to a client (interpreted
      for pages in \<open>Pmm\<close> and for blocks in \<open>Kmalloc\<close>); \<open>PageMapper\<close>: the locale of a page mapper
      (interpreted in \<open>Vmm\<close>).
    \<^item> \<open>Pmm\<close>: \<open>kernel/memory/pmm.c\<close>. The bitmap abstracts to a set of pages, which the
      operations update; reservation at boot, first fit, freshness of every grant.
    \<^item> \<open>Vmm\<close>: \<open>kernel/memory/vmm.c\<close>. The four-level tables abstract to a finite map from virtual
      pages to leaf entries, for the part of the tree whose tables are proper; map, unmap and
      translate act on that map, and memory outside the tables is left alone; the processor's walk
      and its check for user mode are stated beside it.
    \<^item> \<open>Kmalloc\<close>: \<open>kernel/memory/kmalloc.c\<close>. The headers in memory abstract to a list of blocks,
      on which allocation is first fit with splitting and release coalesces both sides.
    \<^item> \<open>KMain\<close>: \<open>kernel/kernel.c\<close>, phase by phase, and its decimal and hexadecimal printers; the
      whole boot, from the entry state to the halt loop, with its complete log.
    \<^item> \<open>Boot\<close>: \<open>LoaderEntry32\<close> of \<open>boot/fat32/Stage2_X86.asm\<close>, the copy of the kernel and the page
      tables it runs on, with the processor's walk of page tables (defined in \<open>Vmm\<close>); \<open>System\<close>:
      the machine after loader and \<open>kMain\<close>, from which the properties of this theory follow.
    \<^item> \<open>Fat\<close> and \<open>FatCorrect\<close>: the disk routines of \<open>boot/fat32/Boot1.asm\<close> and
      \<open>Stage2_X86.asm\<close> with their registers at 16 and 32 bits, the disk service of the BIOS being a
      parameter with its documented behaviour as named hypotheses (\<open>reads_disk\<close>, and \<open>no_faults\<close> for a
      drive without faults); an abstract FAT32 volume (chains, files, root entries) and the proof that
      the routines read it. After a fault they do not recover: the retry asks for no block.
    \<^item> \<open>LongMode\<close>: \<open>boot/includes/cpu.inc\<close>, \<open>A20.inc\<close>, \<open>Gdt.inc\<close> and the mode switches of
      \<open>Stage2_X86.asm\<close>, every instruction on a control or segment register with the faults of the
      processor; \<open>Stage2\<close>: the second stage as a whole, and the boot from the disk to the halt loop.
    \<^item> \<open>Cpp\<close>: macros, directives and typed constant expressions of C; \<open>Stdint\<close> with
      \<open>StdintCascade\<close>, \<open>StdintConstants\<close>, \<open>StdintLimits\<close> and \<open>StdintCorrect\<close>:
      \<open>clang/lib/Headers/stdint.h\<close> as a program over the macros a compiler predefines, and the
      proof that its three cascades agree on every target; \<open>Limits\<close>: \<open>limits.h\<close>.
    \<^item> \<open>Stddef\<close> and \<open>StddefCorrect\<close>: \<open>stddef.h\<close>, block by block with its provisions for other
      systems, and the proof that on a freestanding target any mixture of whole inclusions and
      requests for single items defines just what was asked for; \<open>Stdarg\<close>: \<open>stdarg.h\<close>.
    \<^item> \<open>Headers\<close>: the locale of a header's contract, interpreted on the four files; two contracts
      over different names give one for the pair. \<open>Units\<close>: whole translation units, any order of
      inclusion.

  Bounds. The expansion of an alias is followed for 8 steps and a constant expression for 16
  levels; the longest chain in the headers is four aliases and six levels, and the theorems
  state values (never only "if there is a value"), so the fuel is enough for them.

  The disk routines need no fuel: their loops over a chain are partial functions, and the
  theorems about chains that end say that they return. The volumes they work on are those within
  the reach of their 16-bit arithmetic (\<open>volume\<close>, \<open>in_reach\<close>); what happens outside is a property.

  Not modelled: the master boot record, which loops for ever; the messages, the video mode and the
  reload of the interrupt table that the loaders ask the BIOS and the processor for; the reboot after
  a refused processor; the wrap of addresses at 1 MiB while the A20 gate is closed; the loaders' stack
  and variables and the bytes of the disk address packet, which lie outside everything the disk
  routines write on the volumes above (the packet's block count, which they do not set before a call,
  is a field of the state); the helper macros of \<open>stdint.h\<close> that join tokens; build and emulator scripts; the headers that \<open>stddef.h\<close> includes on other systems and the
  compiler's \<open>stdbool.h\<close>, which are not in the repository and are parameters; the empty \<open>vga.c\<close> and
  \<open>vga.h\<close>. Caches, interrupts (the kernel runs with them off) and the timing of the UART are outside
  the model. Physical memory is flat: the kernel's own accesses to a page table outside the
  first gigabyte, which its page tables do not map, would fault on the machine and do not here, and
  the processor's walk checks neither reserved bits nor the no-execute bit. The UART's line status register and the keyboard controller's status are arbitrary
  sequences of bytes. \<open>kMain\<close> is the C function, not the bytes of the kernel's file.
\<close>

section \<open>Properties across components\<close>

text \<open>
  C3: The whole way from the loader to a working page mapper: from a machine with a live UART and
  clear variables, the loader and \<open>kMain\<close> run to the halt loop, and there a request to map a
  page outside the first 512 GiB succeeds; the processor then translates exactly the addresses
  of that page above it, and still maps the first gigabyte, where kernel and devices are, to itself.
\<close>

theorem boot_then_map:
  assumes "power_on s" "\<forall>n. length (junk n) = 32" "length buffer = 32"
    and "PML4_INDEX v \<noteq> 0" "flags AND PT_ADDR_MASK = 0"
  shows "\<exists>s' s''. kMain junk buffer (LoaderEntry32 KernelSize s) = Some s' \<and>
    vmm_map_page v phys flags s' = (True, s'') \<and>
    (\<forall>w. PML4_INDEX w \<noteq> 0 \<longrightarrow> mmu_translate (mem s'') (cr3 s'') w =
      (if same_page w v then Some ((phys AND PT_ADDR_MASK) + (w AND 0xFFF)) else None)) \<and>
    (\<forall>w. unat w < 2 ^ 30 \<longrightarrow> mmu_translate (mem s'') (cr3 s'') w = Some w)"
proof -
  obtain s' where s': "kMain junk buffer (LoaderEntry32 KernelSize s) = Some s'" "booted s'"
    using boot_booted [OF assms(1-3)] by blast
  obtain s'' where map: "vmm_map_page v phys flags s' = (True, s'')"
    using booted_map_ok [OF s'(2) assms(4)] by blast
  note wf = booted_wf [OF s'(2)]
  have v: "PML4_INDEX v \<in> upper" using assms(4) by simp
  obtain m n i where "s'' = s'\<lparr>mem := m, used_pages := n, invlpgs := i\<rparr>"
    using vmm_map_keeps_entries(2) [OF wf(1) v map] by blast
  then have root: "pml4 s'' = 0x1000" "cr3 s'' = 0x1000" using s'(2) by (simp_all add: booted_def)
  have "mmu_translate (mem s'') (cr3 s'') w =
      (if same_page w v then Some ((phys AND PT_ADDR_MASK) + (w AND 0xFFF)) else None)"
    if "PML4_INDEX w \<noteq> 0" for w
    using mmu_leaf [OF vmm_map_wf [OF wf(1) v map] vmm_map_small [OF wf v map], of w] that
      vmm_map_lookup [OF wf(1) v _ map, of w] booted_lookup [OF s'(2) that] pt_addr_map_entry [OF assms(5)]
    by (simp add: root vmm_lookup_def)
  moreover have "mmu_translate (mem s'') (cr3 s'') w = Some w" if "unat w < 2 ^ 30" for w
    using identity_translate [OF booted_map_identity [OF s'(2) assms(4) map] that] by (simp add: root)
  ultimately show ?thesis using s'(1) map by blast
qed

theorem boot_then_map_witness:
  "\<exists>s' s''. kMain (\<lambda>_. any_array) any_array (LoaderEntry32 0x20000 blank_machine) = Some s' \<and>
     vmm_map_page 0xFFFF800000000000 0x5000 PT_WRITABLE s' = (True, s'') \<and>
     mmu_translate (mem s'') (cr3 s'') 0xFFFF800000000123 = Some 0x5123 \<and>
     mmu_translate (mem s'') (cr3 s'') 0xB8000 = Some 0xB8000"
proof -
  have "power_on blank_machine" using uart_live_blank by (simp add: power_on_def blank_machine_def)
  from boot_then_map [OF this, of "\<lambda>_. any_array" any_array "0xFFFF800000000000" PT_WRITABLE "0x20000" "0x5000"]
  obtain s' s'' where "kMain (\<lambda>_. any_array) any_array (LoaderEntry32 0x20000 blank_machine) = Some s'"
      "vmm_map_page 0xFFFF800000000000 0x5000 PT_WRITABLE s' = (True, s'')"
    and up: "PML4_INDEX w \<noteq> 0 \<Longrightarrow> mmu_translate (mem s'') (cr3 s'') w =
      (if same_page w 0xFFFF800000000000 then Some ((0x5000 AND PT_ADDR_MASK) + (w AND 0xFFF)) else None)"
    and low: "unat w < 2 ^ 30 \<Longrightarrow> mmu_translate (mem s'') (cr3 s'') w = Some w" for w
    by (auto simp: any_array_def PML4_INDEX_def PT_WRITABLE_def PT_ADDR_MASK_def)
  moreover have "mmu_translate (mem s'') (cr3 s'') 0xFFFF800000000123 = Some 0x5123"
    using up [of "0xFFFF800000000123"] by (simp add: PML4_INDEX_def same_page_def PT_ADDR_MASK_def)
  ultimately show ?thesis using low [of "0xB8000"] by auto
qed

text \<open>
  C4: The two memory managers of the booted kernel do not know of each other: the page allocator
  counts the pages of the heap as free, and its first page is the one the heap starts in. The
  first request for an address above 512 GiB therefore puts a page table over the heap's only
  block header; it succeeds, and when the address has a directory-pointer index other than 1 and 2
  (these entries lie in the header's second and third word), every \<open>kmalloc\<close> from then on returns
  NULL.
\<close>

theorem page_table_overwrites_heap:
  assumes "power_on s" "\<forall>n. length (junk n) = 32" "length buffer = 32"
    and "PML4_INDEX v \<noteq> 0" "PDPT_INDEX v \<noteq> 1" "PDPT_INDEX v \<noteq> 2"
  shows "\<exists>s' s''. kMain junk buffer (LoaderEntry32 KernelSize s) = Some s' \<and>
    kmalloc_get_free s' = Some 524264 \<and> fst (pmm_alloc_page s') = HEAP_START \<and>
    vmm_map_page v phys flags s' = (True, s'') \<and> (\<forall>sz. kmalloc sz s'' = Some (0, s''))"
proof -
  obtain s' where s': "kMain junk buffer (LoaderEntry32 KernelSize s) = Some s'" "booted s'"
    using boot_booted [OF assms(1-3)] by blast
  obtain s'' where map: "vmm_map_page v phys flags s' = (True, s'')"
    using booted_map_ok [OF s'(2) assms(4)] by blast
  have "fst (pmm_alloc_page s') = HEAP_START"
    using alloc_ready(1) [of s'] s'(2) by (simp add: booted_def HEAP_START_def)
  moreover have "kmalloc_get_free s' = Some 524264"
    using kmalloc_get_free_rep [of s' "[Block 524264 True]"] s'(2) by (simp add: booted_def free_bytes_def)
  moreover have "kmalloc sz s'' = Some (0, s'')" for sz
    by (rule kmalloc_without_free_block) (use booted_map_header [OF s'(2) assms(4-6) map] in simp_all)
  ultimately show ?thesis using s'(1) map by blast
qed

theorem page_table_overwrites_heap_witness:
  "\<exists>s' s''. kMain (\<lambda>_. any_array) any_array (LoaderEntry32 0x20000 blank_machine) = Some s' \<and>
     vmm_map_page 0xFFFF800000000000 0x5000 PT_WRITABLE s' = (True, s'') \<and> kmalloc 64 s'' = Some (0, s'')"
proof -
  have "power_on blank_machine" using uart_live_blank by (simp add: power_on_def blank_machine_def)
  from page_table_overwrites_heap [OF this, of "\<lambda>_. any_array" any_array "0xFFFF800000000000" "0x20000"
      "0x5000" PT_WRITABLE] show ?thesis
    by (auto simp: any_array_def PML4_INDEX_def PDPT_INDEX_def)
qed

end
